(* ===== verification/Prelude.thy ===== *)
theory Prelude
  imports Main "HOL-Library.Word"
begin

text \<open>
  Shared vocabulary of the development: the machine integers the sources use, the collections of
  facts the component theories fill, and the generic lemmas on lists and little-endian numbers that
  several components need.
\<close>

section \<open>Machine integers\<close>

text \<open>
  The sources use \<open>uint8_t\<close> buffers, \<open>uint16_t\<close> input states and \<open>uint32_t\<close> identifiers. A
  \<open>float\<close> that is only stored, copied or sent is kept as its 32-bit pattern.
\<close>

type_synonym u8 = "8 word"
type_synonym u16 = "16 word"
type_synonym u32 = "32 word"
type_synonym float_bits = "32 word"

text \<open>An object identifier (\<open>m_objid\<close>) and an object address used as a key (0 is the null pointer).\<close>

type_synonym oid = "32 word"
type_synonym ptr = nat

section \<open>Leaving the defined path\<close>

text \<open>
  What can happen instead of a result. \<open>SystemError\<close> is \<open>boost::system::system_error\<close> with its code and
  \<open>RuntimeError\<close> a \<open>std::runtime_error\<close> with its message. The others are uses of memory the language
  leaves undefined: a null or dangling pointer, an access outside an array, an object read before it
  was written.
\<close>

datatype fault =
    SystemError int
  | RuntimeError string
  | NullDereference
  | UseAfterFree
  | OutOfBounds
  | Indeterminate

text \<open>Sequencing of computations that may leave the defined path, and a loop over a list of them.\<close>

definition res_bind :: "fault + 'a \<Rightarrow> ('a \<Rightarrow> fault + 'b) \<Rightarrow> fault + 'b" where
  "res_bind r f = (case r of Inl e \<Rightarrow> Inl e | Inr x \<Rightarrow> f x)"

fun fold_res :: "('m \<Rightarrow> 's \<Rightarrow> fault + 's) \<Rightarrow> 'm list \<Rightarrow> 's \<Rightarrow> fault + 's" where
  "fold_res h [] s = Inr s"
| "fold_res h (m # ms) s = res_bind (h m s) (fold_res h ms)"

definition deref :: "'a option \<Rightarrow> fault + 'a" where
  "deref p = (case p of None \<Rightarrow> Inl NullDereference | Some x \<Rightarrow> Inr x)"

lemma res_bind_simps [simp]:
  "res_bind (Inl e) f = Inl e" "res_bind (Inr x) f = f x"
  by (simp_all add: res_bind_def)

lemma deref_simps [simp]: "deref None = Inl NullDereference" "deref (Some x) = Inr x"
  by (simp_all add: deref_def)

lemma res_bind_eq_Inr: "res_bind r f = Inr y \<longleftrightarrow> (\<exists>x. r = Inr x \<and> f x = Inr y)"
  by (cases r) auto

lemma res_bind_return [simp]: "res_bind r Inr = r"
  by (cases r) simp_all

lemma res_bind_assoc: "res_bind (res_bind r f) g = res_bind r (\<lambda>x. res_bind (f x) g)"
  by (cases r) auto

lemma fold_res_append: "fold_res h (xs @ ys) s = res_bind (fold_res h xs s) (fold_res h ys)"
  by (induction xs arbitrary: s) (auto simp: res_bind_def split: sum.split)

lemma fold_res_Inr: "fold_res (\<lambda>m s. Inr (h m s)) ms s = Inr (fold h ms s)"
  by (induction ms arbitrary: s) auto

text \<open>An invariant every successful step keeps survives the loop.\<close>

lemma fold_res_invariant:
  assumes "fold_res h ms s = Inr t" and "I s"
    and "\<And>m s s'. m \<in> set ms \<Longrightarrow> I s \<Longrightarrow> h m s = Inr s' \<Longrightarrow> I s'"
  shows "I t"
  using assms
proof (induction ms arbitrary: s)
  case (Cons m ms)
  then obtain s' where "h m s = Inr s'" and "fold_res h ms s' = Inr t"
    by (auto simp: res_bind_eq_Inr)
  with Cons show ?case by (meson list.set_intros)
qed simp

section \<open>Fact collections\<close>

named_theorems wire_simps
named_theorems step_simps
named_theorems inv_intros

section \<open>Little-endian numbers\<close>

text \<open>
  The build selects x86 (\<open>-march=nocona\<close> or \<open>-march=pentium4\<close>), where the object representation of an
  integer is its bytes from the least significant one on.
\<close>

fun le_bytes :: "nat \<Rightarrow> nat \<Rightarrow> u8 list" where
  "le_bytes 0 n = []"
| "le_bytes (Suc k) n = word_of_nat (n mod 256) # le_bytes k (n div 256)"

fun le_value :: "u8 list \<Rightarrow> nat" where
  "le_value [] = 0"
| "le_value (b # bs) = unat b + 256 * le_value bs"

lemma length_le_bytes [simp]: "length (le_bytes k n) = k"
  by (induction k arbitrary: n) auto

lemma unat_u8_of_mod [simp]: "unat (word_of_nat (n mod 256) :: u8) = n mod 256"
  by (simp add: unat_of_nat)

lemma le_value_le_bytes: "le_value (le_bytes k n) = n mod 256 ^ k"
proof (induction k arbitrary: n)
  case (Suc k)
  show ?case
    using mod_mult2_eq [of n 256 "256 ^ k"] by (simp add: Suc.IH)
qed simp

lemma le_value_bound: "le_value bs < 256 ^ length bs"
proof (induction bs)
  case (Cons b bs)
  have "unat b < 256" using unsigned_less [of b] by simp
  with Cons.IH show ?case by simp
qed simp

lemma le_bytes_le_value: "length bs = k \<Longrightarrow> le_bytes k (le_value bs) = bs"
proof (induction bs arbitrary: k)
  case (Cons b bs)
  have b: "unat b < 256" using unsigned_less [of b] by simp
  then have "(unat b + 256 * le_value bs) mod 256 = unat b"
    and "(unat b + 256 * le_value bs) div 256 = le_value bs" by simp_all
  with Cons show ?case by auto
qed simp

text \<open>Counting in 32 bits without reaching the wrap-around.\<close>

lemma unat_inc_u32: "unat (x :: u32) + 1 < 2 ^ 32 \<Longrightarrow> unat (x + 1) = unat x + 1"
  by (simp add: unat_word_ariths)

section \<open>Characters and bytes\<close>

definition byte_of_char :: "char \<Rightarrow> u8" where
  "byte_of_char c = word_of_nat (of_char c)"

definition char_of_byte :: "u8 \<Rightarrow> char" where
  "char_of_byte b = char_of (unat b)"

lemma char_of_byte_of_char [simp]: "char_of_byte (byte_of_char c) = c"
proof -
  have "(of_char c :: nat) mod 256 = of_char c" by simp
  then have "unat (byte_of_char c) = of_char c"
    by (simp add: byte_of_char_def unat_of_nat)
  then show ?thesis by (simp add: char_of_byte_def)
qed

lemma byte_of_char_of_byte [simp]: "byte_of_char (char_of_byte b) = b"
proof -
  have "unat b < 256" using unsigned_less [of b] by simp
  then show ?thesis by (simp add: byte_of_char_def char_of_byte_def)
qed

lemma byte_of_char_inject [simp]: "byte_of_char c = byte_of_char d \<longleftrightarrow> c = d"
  by (metis char_of_byte_of_char)

lemma map_char_of_byte_of_char [simp]: "map char_of_byte (map byte_of_char s) = s"
  by (induction s) auto

section \<open>Lists\<close>

lemma takeWhile_all: "\<forall>x \<in> set xs. P x \<Longrightarrow> takeWhile P xs = xs"
  by (simp add: takeWhile_eq_all_conv)

lemma concat_map_append: "concat (map f (xs @ ys)) = concat (map f xs) @ concat (map f ys)"
  by simp

end
