(* ===== verification/StdMap.thy ===== *)
theory StdMap
  imports Prelude
begin

text \<open>
  The \<open>std::map\<close> and \<open>std::set\<close> of the sources, as lists kept strictly sorted by key: a container
  iterates over them in key order, which decides the order in which messages are pushed. The
  operations are the ones the sources call: \<open>find\<close>, \<open>insert\<close> (which keeps an existing entry),
  \<open>operator[]\<close> on both sides of an assignment (which inserts a default entry when read) and \<open>erase\<close>.
\<close>

section \<open>Association lists in key order\<close>

type_synonym ('k, 'v) std_map = "('k \<times> 'v) list"

fun map_put :: "'k::linorder \<Rightarrow> 'v \<Rightarrow> ('k, 'v) std_map \<Rightarrow> ('k, 'v) std_map" where
  "map_put k v [] = [(k, v)]"
| "map_put k v ((k', v') # m) =
     (if k < k' then (k, v) # (k', v') # m
      else if k = k' then (k, v) # m
      else (k', v') # map_put k v m)"

definition map_find :: "'k \<Rightarrow> ('k, 'v) std_map \<Rightarrow> 'v option" where
  "map_find k m = map_of m k"

definition map_erase :: "'k \<Rightarrow> ('k, 'v) std_map \<Rightarrow> ('k, 'v) std_map" where
  "map_erase k m = filter (\<lambda>p. fst p \<noteq> k) m"

text \<open>\<open>m.insert(std::make_pair(k, v))\<close>: no effect when the key is present.\<close>

definition map_insert :: "'k::linorder \<Rightarrow> 'v \<Rightarrow> ('k, 'v) std_map \<Rightarrow> ('k, 'v) std_map" where
  "map_insert k v m = (if map_find k m = None then map_put k v m else m)"

text \<open>\<open>m[k]\<close> read as a value: a missing key is inserted with the value-initialised default.\<close>

definition map_index :: "'v \<Rightarrow> 'k::linorder \<Rightarrow> ('k, 'v) std_map \<Rightarrow> 'v \<times> ('k, 'v) std_map" where
  "map_index d k m = (case map_find k m of Some v \<Rightarrow> (v, m) | None \<Rightarrow> (d, map_put k d m))"

definition map_ok :: "('k::linorder, 'v) std_map \<Rightarrow> bool" where
  "map_ok m \<longleftrightarrow> sorted_wrt (<) (map fst m)"

section \<open>Laws of the operations\<close>

lemma keys_map_put [simp]: "fst ` set (map_put k v m) = insert k (fst ` set m)"
  by (induction k v m rule: map_put.induct) auto

lemma map_ok_Nil [simp]: "map_ok []"
  by (simp add: map_ok_def)

lemma map_ok_Cons: "map_ok ((k, v) # m) \<longleftrightarrow> (\<forall>k' \<in> fst ` set m. k < k') \<and> map_ok m"
  by (simp add: map_ok_def)

lemma map_ok_put [simp, inv_intros]: "map_ok m \<Longrightarrow> map_ok (map_put k v m)"
  by (induction k v m rule: map_put.induct) (auto simp: map_ok_Cons dest: order.strict_trans)

lemma map_ok_erase [simp, inv_intros]: "map_ok m \<Longrightarrow> map_ok (map_erase k m)"
  by (induction m) (auto simp: map_ok_Cons map_erase_def)

lemma map_ok_insert [simp, inv_intros]: "map_ok m \<Longrightarrow> map_ok (map_insert k v m)"
  by (simp add: map_insert_def)

lemma map_ok_index [simp, inv_intros]: "map_ok m \<Longrightarrow> map_ok (snd (map_index d k m))"
  by (simp add: map_index_def split: option.split)

lemma map_ok_distinct: "map_ok m \<Longrightarrow> distinct (map fst m)"
  by (simp add: map_ok_def strict_sorted_iff)

lemma map_find_Nil [simp]: "map_find k [] = None"
  by (simp add: map_find_def)

lemma map_find_Cons: "map_find k ((k', v) # m) = (if k = k' then Some v else map_find k m)"
  by (simp add: map_find_def)

lemma map_find_below: "\<forall>k' \<in> fst ` set m. k < k' \<Longrightarrow> map_find (k::'k::linorder) m = None"
  by (induction m) (auto simp: map_find_Cons)

lemma map_find_put:
  "map_ok m \<Longrightarrow> map_find k' (map_put k v m) = (if k' = k then Some v else map_find k' m)"
  by (induction k v m rule: map_put.induct) (auto simp: map_ok_Cons map_find_Cons)

lemma map_find_erase: "map_find k' (map_erase k m) = (if k' = k then None else map_find k' m)"
  by (induction m) (auto simp: map_erase_def map_find_Cons)

lemma map_find_insert:
  "map_ok m \<Longrightarrow> map_find k' (map_insert k v m) =
     (if k' = k \<and> map_find k m = None then Some v else map_find k' m)"
  by (auto simp: map_insert_def map_find_put)

lemma map_find_None_iff: "map_find k m = None \<longleftrightarrow> k \<notin> fst ` set m"
  by (simp add: map_find_def map_of_eq_None_iff)

lemma map_find_SomeD: "map_find k m = Some v \<Longrightarrow> (k, v) \<in> set m"
  by (simp add: map_find_def map_of_SomeD)

lemma map_find_in_set: "map_ok m \<Longrightarrow> (k, v) \<in> set m \<longleftrightarrow> map_find k m = Some v"
  by (metis map_find_SomeD map_find_def map_of_is_SomeI map_ok_distinct)

lemma map_put_in_set:
  "map_ok m \<Longrightarrow> (k', v') \<in> set (map_put k v m) \<longleftrightarrow>
     (k' = k \<and> v' = v) \<or> (k' \<noteq> k \<and> (k', v') \<in> set m)"
  by (auto simp: map_find_in_set map_find_put split: if_splits)

lemma map_erase_put [simp]: "map_erase k (map_put k v m) = map_erase k m"
  by (induction k v m rule: map_put.induct) (auto simp: map_erase_def)

lemma map_erase_absent: "map_find k m = None \<Longrightarrow> map_erase k m = m"
  by (auto simp: map_find_None_iff map_erase_def filter_id_conv)

lemma set_map_erase: "set (map_erase k m) = {p \<in> set m. fst p \<noteq> k}"
  by (simp add: map_erase_def)

lemmas map_find_laws = map_find_put map_find_erase map_find_insert

section \<open>The contract of a keyed container\<close>

text \<open>
  What a client of \<open>std::map\<close> relies on. The lemmas of the locale are what the server, the physics
  and the renderer use of their containers.
\<close>

locale keyed_container =
  fixes ok :: "'m \<Rightarrow> bool"
    and find :: "'k \<Rightarrow> 'm \<Rightarrow> 'v option"
    and put :: "'k \<Rightarrow> 'v \<Rightarrow> 'm \<Rightarrow> 'm"
    and erase :: "'k \<Rightarrow> 'm \<Rightarrow> 'm"
  assumes ok_put: "ok m \<Longrightarrow> ok (put k v m)"
    and ok_erase: "ok m \<Longrightarrow> ok (erase k m)"
    and find_put: "ok m \<Longrightarrow> find k' (put k v m) = (if k' = k then Some v else find k' m)"
    and find_erase: "ok m \<Longrightarrow> find k' (erase k m) = (if k' = k then None else find k' m)"
begin

lemma find_after_erase: "ok m \<Longrightarrow> find k (erase k m) = None"
  by (simp add: find_erase)

lemma put_then_erase: "ok m \<Longrightarrow> find k m = None \<Longrightarrow> find k' (erase k (put k v m)) = find k' m"
  by (simp add: ok_put find_put find_erase)

lemma puts_other: "ok m \<Longrightarrow> k \<notin> fst ` set kvs \<Longrightarrow>
    find k (fold (\<lambda>(k, v). put k v) kvs m) = find k m \<and> ok (fold (\<lambda>(k, v). put k v) kvs m)"
  by (induction kvs arbitrary: m) (auto simp: ok_put find_put)

lemma puts_distinct:
  "ok m \<Longrightarrow> distinct (map fst kvs) \<Longrightarrow> (k, v) \<in> set kvs \<Longrightarrow>
    find k (fold (\<lambda>(k, v). put k v) kvs m) = Some v"
proof (induction kvs arbitrary: m)
  case (Cons p kvs)
  obtain k' v' where p: "p = (k', v')" by (cases p)
  show ?case
  proof (cases "k' = k")
    case True
    with Cons.prems p have "k \<notin> fst ` set kvs" and "v = v'"
      by (force)+
    with Cons.prems p True show ?thesis
      using puts_other [of "put k' v' m" k kvs] by (simp add: ok_put find_put)
  next
    case False
    with Cons p show ?thesis by (auto simp: ok_put)
  qed
qed simp

end

interpretation std_map: keyed_container
  "map_ok :: ('k::linorder, 'v) std_map \<Rightarrow> bool" map_find map_put map_erase
  by unfold_locales (auto simp: map_find_laws)

section \<open>Sets of pointers in address order\<close>

definition set_insert :: "'k::linorder \<Rightarrow> 'k list \<Rightarrow> 'k list" where
  "set_insert k s = (if k \<in> set s then s else insort k s)"

definition set_erase :: "'k \<Rightarrow> 'k list \<Rightarrow> 'k list" where
  "set_erase k s = filter (\<lambda>x. x \<noteq> k) s"

definition set_ok :: "'k::linorder list \<Rightarrow> bool" where
  "set_ok s \<longleftrightarrow> sorted s \<and> distinct s"

lemma set_set_insert [simp]: "set (set_insert k s) = insert k (set s)"
  by (auto simp: set_insert_def set_insort_key)

lemma set_set_erase [simp]: "set (set_erase k s) = set s - {k}"
  by (auto simp: set_erase_def)

lemma set_ok_insert [simp, inv_intros]: "set_ok s \<Longrightarrow> set_ok (set_insert k s)"
  by (auto simp: set_ok_def set_insert_def sorted_insort distinct_insort)

lemma set_ok_erase [simp, inv_intros]: "set_ok s \<Longrightarrow> set_ok (set_erase k s)"
  by (auto simp: set_ok_def set_erase_def sorted_wrt_filter)

lemma set_ok_Nil [simp]: "set_ok []"
  by (simp add: set_ok_def)

end
