(* ===== verification/Sockets.thy ===== *)
theory Sockets
  imports Prelude
begin

text \<open>
  \<open>core/util/socket.hpp\<close>: the typed reads and writes of \<open>SocketWrapper\<close> over \<open>AsioSocket\<close>. The socket
  itself is \<open>boost::asio\<close>; of it the code relies on \<open>boost::asio::read\<close> and \<open>boost::asio::write\<close>
  transferring the whole buffer or throwing, possibly after a part of it.
\<close>

section \<open>A connected stream socket\<close>

text \<open>
  \<open>sk_in\<close> holds the bytes the peer delivers before the stream ends and \<open>sk_read_code\<close> the error code
  reported after them; \<open>sk_room\<close> is how many bytes the connection still accepts before it fails with
  \<open>sk_write_code\<close> (\<open>None\<close>: it never fails); \<open>sk_out\<close> collects the bytes sent.
\<close>

record socket =
  sk_in :: "u8 list"
  sk_read_code :: int
  sk_room :: "nat option"
  sk_write_code :: int
  sk_out :: "u8 list"

type_synonym 'a io = "socket \<Rightarrow> (fault + 'a) \<times> socket"

definition io_return :: "'a \<Rightarrow> 'a io" where
  "io_return x s = (Inr x, s)"

definition io_throw :: "fault \<Rightarrow> 'a io" where
  "io_throw e s = (Inl e, s)"

definition io_bind :: "'a io \<Rightarrow> ('a \<Rightarrow> 'b io) \<Rightarrow> 'b io" where
  "io_bind m f s = (case m s of (Inl e, s') \<Rightarrow> (Inl e, s') | (Inr x, s') \<Rightarrow> f x s')"

lemma io_bind_return [simp]: "io_bind (io_return x) f = f x"
  by (simp add: fun_eq_iff io_bind_def io_return_def)

text \<open>\<open>AsioSocket::read\<close> and \<open>AsioSocket::write\<close>.\<close>

definition sock_read :: "nat \<Rightarrow> u8 list io" where
  "sock_read n s =
     (if n \<le> length (sk_in s)
      then (Inr (take n (sk_in s)), s\<lparr>sk_in := drop n (sk_in s)\<rparr>)
      else (Inl (SystemError (sk_read_code s)), s\<lparr>sk_in := []\<rparr>))"

definition sock_write :: "u8 list \<Rightarrow> unit io" where
  "sock_write bs s =
     (case sk_room s of
        None \<Rightarrow> (Inr (), s\<lparr>sk_out := sk_out s @ bs\<rparr>)
      | Some k \<Rightarrow>
          if length bs \<le> k
          then (Inr (), s\<lparr>sk_out := sk_out s @ bs, sk_room := Some (k - length bs)\<rparr>)
          else (Inl (SystemError (sk_write_code s)),
                s\<lparr>sk_out := sk_out s @ take k bs, sk_room := Some 0\<rparr>))"

section \<open>SocketWrapper\<close>

text \<open>\<open>readPod<T>\<close> and \<open>writePod<T>\<close> at the two types they are used with.\<close>

definition readPod32 :: "u32 io" where
  "readPod32 = io_bind (sock_read 4) (\<lambda>bs. io_return (word_of_nat (le_value bs)))"

definition writePod32 :: "u32 \<Rightarrow> unit io" where
  "writePod32 v = sock_write (le_bytes 4 (unat v))"

definition readPod16 :: "u16 io" where
  "readPod16 = io_bind (sock_read 2) (\<lambda>bs. io_return (word_of_nat (le_value bs)))"

definition writePod16 :: "u16 \<Rightarrow> unit io" where
  "writePod16 v = sock_write (le_bytes 2 (unat v))"

text \<open>
  \<open>readString\<close> allocates \<open>len+1\<close> bytes, the sum in 32-bit unsigned arithmetic, stores the terminator at
  index \<open>len\<close>, fills the buffer and assigns it as a C string, which ends at the first zero byte.
\<close>

definition readString :: "string io" where
  "readString =
     io_bind readPod32 (\<lambda>len.
       if unat len < unat (len + 1)
       then io_bind (sock_read (unat len)) (\<lambda>bs.
              io_return (map char_of_byte (takeWhile (\<lambda>b. b \<noteq> 0) bs)))
       else io_throw OutOfBounds)"

text \<open>\<open>writeString\<close> stores the length in a \<open>uint32_t\<close> and sends that many bytes.\<close>

definition writeString :: "string \<Rightarrow> unit io" where
  "writeString str =
     (let len = word_of_nat (length str) :: u32
      in io_bind (writePod32 len) (\<lambda>_. sock_write (map byte_of_char (take (unat len) str))))"

section \<open>Sending and receiving byte strings\<close>

text \<open>
  A \<^emph>\<open>sender\<close> that never fails on an open connection appends a fixed byte string; a \<^emph>\<open>receiver\<close> of it
  gives the value back and leaves the rest of the stream.
\<close>

definition sends :: "unit io \<Rightarrow> u8 list \<Rightarrow> bool" where
  "sends m bs \<longleftrightarrow> (\<forall>s. m s = sock_write bs s)"

definition receives :: "'a io \<Rightarrow> u8 list \<Rightarrow> 'a \<Rightarrow> bool" where
  "receives m bs x \<longleftrightarrow>
     (\<forall>s rest. sk_in s = bs @ rest \<longrightarrow> m s = (Inr x, s\<lparr>sk_in := rest\<rparr>))"

lemma sock_write_Nil [simp]: "sock_write [] s = (Inr (), s)"
  by (cases s) (auto simp: sock_write_def split: option.split)

text \<open>Two writes in a row are one write of both parts, failures included.\<close>

lemma sock_write_append:
  "io_bind (sock_write bs) (\<lambda>_. sock_write cs) s = sock_write (bs @ cs) s"
  by (auto simp: io_bind_def sock_write_def split: option.split)

lemma sends_sock_write [simp, wire_simps]: "sends (sock_write bs) bs"
  by (simp add: sends_def)

lemma sends_return: "sends (io_return ()) []"
  by (simp add: sends_def io_return_def)

lemma sends_bind [wire_simps]:
  assumes "sends m bs" and "sends n cs"
  shows "sends (io_bind m (\<lambda>_. n)) (bs @ cs)"
proof -
  have "io_bind m (\<lambda>_. n) s = io_bind (sock_write bs) (\<lambda>_. sock_write cs) s" for s
    using assms by (auto simp: sends_def io_bind_def split: sum.split prod.split)
  then show ?thesis by (simp add: sends_def sock_write_append)
qed

lemma receives_bind:
  assumes "receives m bs x" and "receives (f x) cs y"
  shows "receives (io_bind m f) (bs @ cs) y"
  using assms by (simp add: receives_def io_bind_def)

lemma receives_return [simp]: "receives (io_return x) [] x"
  by (auto simp: receives_def io_return_def)

lemma receives_map:
  "receives m bs x \<Longrightarrow> receives (io_bind m (\<lambda>x. io_return (f x))) bs (f x)"
  using receives_bind [of m bs x "\<lambda>x. io_return (f x)" "[]"] by simp

lemma receives_sock_read: "length bs = n \<Longrightarrow> receives (sock_read n) bs bs"
  by (auto simp: receives_def sock_read_def)

text \<open>
  A stream that ends inside the bytes a receiver needs makes it throw the code of the broken
  connection; it never produces a value from a part of them.
\<close>

definition truncation_fails :: "'a io \<Rightarrow> u8 list \<Rightarrow> bool" where
  "truncation_fails m bs \<longleftrightarrow>
     (\<forall>s n. n < length bs \<longrightarrow> sk_in s = take n bs \<longrightarrow> fst (m s) = Inl (SystemError (sk_read_code s)))"

lemma truncation_fails_Nil [simp]: "truncation_fails m []"
  by (simp add: truncation_fails_def)

lemma truncation_fails_sock_read: "length bs = n \<Longrightarrow> truncation_fails (sock_read n) bs"
  by (auto simp: truncation_fails_def sock_read_def)

lemma truncation_fails_bind:
  assumes "receives m bs x" and "truncation_fails m bs" and "truncation_fails (f x) cs"
  shows "truncation_fails (io_bind m f) (bs @ cs)"
  unfolding truncation_fails_def
proof (intro allI impI)
  fix s :: socket and n
  assume n: "n < length (bs @ cs)" and s: "sk_in s = take n (bs @ cs)"
  show "fst (io_bind m f s) = Inl (SystemError (sk_read_code s))"
  proof (cases "n < length bs")
    case True
    with s assms(2) have "fst (m s) = Inl (SystemError (sk_read_code s))"
      by (simp add: truncation_fails_def)
    then show ?thesis by (cases "m s") (simp add: io_bind_def)
  next
    case False
    with s have "sk_in s = bs @ take (n - length bs) cs" by simp
    with assms(1) have "m s = (Inr x, s\<lparr>sk_in := take (n - length bs) cs\<rparr>)"
      by (simp add: receives_def)
    moreover have "fst (f x (s\<lparr>sk_in := take (n - length bs) cs\<rparr>)) =
        Inl (SystemError (sk_read_code s))"
      using assms(3) [unfolded truncation_fails_def, rule_format,
          of "n - length bs" "s\<lparr>sk_in := take (n - length bs) cs\<rparr>"] n False
      by simp
    ultimately show ?thesis by (simp add: io_bind_def)
  qed
qed

text \<open>Both at once: the combinators the message formats are built with.\<close>

definition parses :: "'a io \<Rightarrow> u8 list \<Rightarrow> 'a \<Rightarrow> bool" where
  "parses m bs x \<longleftrightarrow> receives m bs x \<and> truncation_fails m bs"

lemma parses_bind: "parses m bs x \<Longrightarrow> parses (f x) cs y \<Longrightarrow> parses (io_bind m f) (bs @ cs) y"
  by (auto simp: parses_def intro: receives_bind truncation_fails_bind)

lemma parses_return [simp]: "parses (io_return x) [] x"
  by (simp add: parses_def)

lemma parses_map: "parses m bs x \<Longrightarrow> parses (io_bind m (\<lambda>x. io_return (f x))) bs (f x)"
  using parses_bind [of m bs x "\<lambda>x. io_return (f x)" "[]"] by simp

lemma parses_sock_read: "length bs = n \<Longrightarrow> parses (sock_read n) bs bs"
  by (simp add: parses_def receives_sock_read truncation_fails_sock_read)

section \<open>The typed operations\<close>

definition pod32 :: "u32 \<Rightarrow> u8 list" where
  "pod32 v = le_bytes 4 (unat v)"

definition pod16 :: "u16 \<Rightarrow> u8 list" where
  "pod16 v = le_bytes 2 (unat v)"

definition str_bytes :: "string \<Rightarrow> u8 list" where
  "str_bytes str = pod32 (word_of_nat (length str)) @ map byte_of_char str"

text \<open>A string the format carries: no embedded zero, and short enough for its length field.\<close>

definition wire_string :: "string \<Rightarrow> bool" where
  "wire_string str \<longleftrightarrow> length str < 2 ^ 32 - 1 \<and> (\<forall>c \<in> set str. byte_of_char c \<noteq> 0)"

lemma length_pod32 [simp]: "length (pod32 v) = 4"
  by (simp add: pod32_def)

lemma length_pod16 [simp]: "length (pod16 v) = 2"
  by (simp add: pod16_def)

lemma sends_writePod32 [wire_simps]: "sends (writePod32 v) (pod32 v)"
  by (simp add: writePod32_def pod32_def)

lemma sends_writePod16 [wire_simps]: "sends (writePod16 v) (pod16 v)"
  by (simp add: writePod16_def pod16_def)

lemma word_of_pod32: "word_of_nat (le_value (pod32 v)) = v"
proof -
  have "unat v < 256 ^ 4" using unsigned_less [of v] by simp
  then show ?thesis by (simp add: pod32_def le_value_le_bytes)
qed

lemma word_of_pod16: "word_of_nat (le_value (pod16 v)) = v"
proof -
  have "unat v < 256 ^ 2" using unsigned_less [of v] by simp
  then show ?thesis by (simp add: pod16_def le_value_le_bytes)
qed

lemma parses_readPod32 [wire_simps]: "parses readPod32 (pod32 v) v"
  using parses_map [OF parses_sock_read [of "pod32 v" 4], of "\<lambda>bs. word_of_nat (le_value bs) :: u32"]
  by (simp add: readPod32_def word_of_pod32)

lemma parses_readPod16 [wire_simps]: "parses readPod16 (pod16 v) v"
  using parses_map [OF parses_sock_read [of "pod16 v" 2], of "\<lambda>bs. word_of_nat (le_value bs) :: u16"]
  by (simp add: readPod16_def word_of_pod16)

lemma unat_length_field: "length str < 2 ^ 32 \<Longrightarrow> unat (word_of_nat (length str) :: u32) = length str"
  by (simp add: unat_of_nat)

lemma sends_writeString [wire_simps]:
  assumes "length str < 2 ^ 32"
  shows "sends (writeString str) (str_bytes str)"
proof -
  let ?len = "word_of_nat (length str) :: u32"
  have "sends (io_bind (writePod32 ?len) (\<lambda>_. sock_write (map byte_of_char str)))
          (pod32 ?len @ map byte_of_char str)"
    by (intro sends_bind sends_writePod32 sends_sock_write)
  then show ?thesis
    by (simp add: writeString_def str_bytes_def Let_def unat_length_field [OF assms])
qed

lemma no_wrap_u32: "unat (len :: u32) < 2 ^ 32 - 1 \<Longrightarrow> unat len < unat (len + 1)"
  by (simp add: unat_word_ariths)

lemma parses_readString_bytes:
  assumes "length bs < 2 ^ 32 - 1"
  shows "parses readString (pod32 (word_of_nat (length bs)) @ bs)
           (map char_of_byte (takeWhile (\<lambda>b. b \<noteq> 0) bs))"
proof -
  let ?len = "word_of_nat (length bs) :: u32"
  have len: "unat ?len = length bs" using assms by (simp add: unat_of_nat)
  have fits: "unat ?len < unat (?len + 1)"
    using assms by (intro no_wrap_u32) (simp only: len)
  show ?thesis unfolding readString_def
  proof (rule parses_bind [OF parses_readPod32])
    show "parses (if unat ?len < unat (?len + 1)
        then io_bind (sock_read (unat ?len))
               (\<lambda>bs. io_return (map char_of_byte (takeWhile (\<lambda>b. b \<noteq> 0) bs)))
        else io_throw OutOfBounds) bs (map char_of_byte (takeWhile (\<lambda>b. b \<noteq> 0) bs))"
      using fits len parses_map [OF parses_sock_read [OF refl, of bs],
          of "\<lambda>bs. map char_of_byte (takeWhile (\<lambda>b. b \<noteq> 0) bs)"]
      by simp
  qed
qed

lemma parses_readString [wire_simps]:
  assumes "wire_string str"
  shows "parses readString (str_bytes str) str"
proof -
  have eq: "takeWhile (\<lambda>b. b \<noteq> 0) (map byte_of_char str) = map byte_of_char str"
    using assms by (intro takeWhile_all) (auto simp: wire_string_def)
  have "length (map byte_of_char str) < 2 ^ 32 - 1"
    using assms by (simp add: wire_string_def)
  then show ?thesis
    using parses_readString_bytes [of "map byte_of_char str"]
    by (simp only: eq str_bytes_def length_map map_char_of_byte_of_char)
qed

end
