(* ===== verification/Messages.thy ===== *)
theory Messages
  imports Sockets
begin

text \<open>
  \<open>core/messages\<close>: the client and server message classes, their type codes, the factories
  \<open>ClientMsg::create\<close> and \<open>ServerMsg::create\<close>, the virtual \<open>read\<close> and \<open>write\<close> of each class, and the framed
  exchange both ends of a connection use. A member the constructor leaves unwritten is \<open>None\<close>.
\<close>

section \<open>Messages to clients\<close>

datatype client_message_type =
    AddDrawable | AddAudible | TransDrawable | TransAudible | DelDrawable | DelAudible

fun client_type_code :: "client_message_type \<Rightarrow> u32" where
  "client_type_code AddDrawable = 0"
| "client_type_code AddAudible = 1"
| "client_type_code TransDrawable = 2"
| "client_type_code TransAudible = 3"
| "client_type_code DelDrawable = 4"
| "client_type_code DelAudible = 5"

datatype client_msg =
    ClientAddDrawableMsg oid string
  | ClientAddAudibleMsg oid string
  | ClientTransDrawableMsg oid "float_bits list option"
  | ClientTransAudibleMsg oid "float_bits list option"
  | ClientDelDrawableMsg oid
  | ClientDelAudibleMsg oid

fun client_type :: "client_msg \<Rightarrow> client_message_type" where
  "client_type (ClientAddDrawableMsg _ _) = AddDrawable"
| "client_type (ClientAddAudibleMsg _ _) = AddAudible"
| "client_type (ClientTransDrawableMsg _ _) = TransDrawable"
| "client_type (ClientTransAudibleMsg _ _) = TransAudible"
| "client_type (ClientDelDrawableMsg _) = DelDrawable"
| "client_type (ClientDelAudibleMsg _) = DelAudible"

fun client_objid :: "client_msg \<Rightarrow> oid" where
  "client_objid (ClientAddDrawableMsg i _) = i"
| "client_objid (ClientAddAudibleMsg i _) = i"
| "client_objid (ClientTransDrawableMsg i _) = i"
| "client_objid (ClientTransAudibleMsg i _) = i"
| "client_objid (ClientDelDrawableMsg i) = i"
| "client_objid (ClientDelAudibleMsg i) = i"

text \<open>
  The parameter structures with their default arguments, and the constructors; a null transform pointer
  copies nothing, which leaves the matrix of the message without a value.
\<close>

record add_object_params =
  ap_objid :: oid
  ap_template :: string

record trans_object_params =
  tp_objid :: oid
  tp_transform :: "float_bits list option"

definition default_add_params [simp]: "default_add_params = \<lparr>ap_objid = 0, ap_template = []\<rparr>"
definition default_trans_params [simp]: "default_trans_params = \<lparr>tp_objid = 0, tp_transform = None\<rparr>"

definition new_add_drawable [simp]: "new_add_drawable p = ClientAddDrawableMsg (ap_objid p) (ap_template p)"
definition new_add_audible [simp]: "new_add_audible p = ClientAddAudibleMsg (ap_objid p) (ap_template p)"
definition new_trans_drawable [simp]: "new_trans_drawable p = ClientTransDrawableMsg (tp_objid p) (tp_transform p)"
definition new_trans_audible [simp]: "new_trans_audible p = ClientTransAudibleMsg (tp_objid p) (tp_transform p)"

definition client_create :: "u32 \<Rightarrow> client_msg option" where
  "client_create t =
     (if t = client_type_code AddAudible then Some (new_add_audible default_add_params)
      else if t = client_type_code AddDrawable then Some (new_add_drawable default_add_params)
      else if t = client_type_code TransAudible then Some (new_trans_audible default_trans_params)
      else if t = client_type_code TransDrawable then Some (new_trans_drawable default_trans_params)
      else if t = client_type_code DelAudible then Some (ClientDelAudibleMsg 0)
      else if t = client_type_code DelDrawable then Some (ClientDelDrawableMsg 0)
      else None)"

text \<open>\<open>stream.read(m_transform, 64)\<close> and \<open>stream.write(m_transform, 64)\<close>: sixteen floats as raw bytes.\<close>

fun split_floats :: "nat \<Rightarrow> u8 list \<Rightarrow> float_bits list" where
  "split_floats 0 bs = []"
| "split_floats (Suc n) bs = word_of_nat (le_value (take 4 bs)) # split_floats n (drop 4 bs)"

definition transform_bytes :: "float_bits list \<Rightarrow> u8 list" where
  "transform_bytes fs = concat (map pod32 fs)"

definition read_transform :: "float_bits list io" where
  "read_transform = io_bind (sock_read 64) (\<lambda>bs. io_return (split_floats 16 bs))"

fun write_transform :: "float_bits list option \<Rightarrow> unit io" where
  "write_transform None = io_throw Indeterminate"
| "write_transform (Some fs) = sock_write (transform_bytes fs)"

definition add_object_read :: "(oid \<times> string) io" where
  "add_object_read =
     io_bind readPod32 (\<lambda>i. io_bind readString (\<lambda>t. io_return (i, t)))"

definition add_object_write :: "oid \<Rightarrow> string \<Rightarrow> unit io" where
  "add_object_write i t = io_bind (writePod32 i) (\<lambda>_. writeString t)"

definition trans_object_read :: "(oid \<times> float_bits list) io" where
  "trans_object_read =
     io_bind readPod32 (\<lambda>i. io_bind read_transform (\<lambda>m. io_return (i, m)))"

definition trans_object_write :: "oid \<Rightarrow> float_bits list option \<Rightarrow> unit io" where
  "trans_object_write i m = io_bind (writePod32 i) (\<lambda>_. write_transform m)"

definition del_object_read [simp]: "del_object_read = readPod32"

definition del_object_write [simp]: "del_object_write i = writePod32 i"

text \<open>\<open>msg->read(stream)\<close> overwrites the members of an object of the class \<open>create\<close> chose.\<close>

fun client_read :: "client_msg \<Rightarrow> client_msg io" where
  "client_read (ClientAddDrawableMsg _ _) =
     io_bind add_object_read (\<lambda>(i, t). io_return (ClientAddDrawableMsg i t))"
| "client_read (ClientAddAudibleMsg _ _) =
     io_bind add_object_read (\<lambda>(i, t). io_return (ClientAddAudibleMsg i t))"
| "client_read (ClientTransDrawableMsg _ _) =
     io_bind trans_object_read (\<lambda>(i, m). io_return (ClientTransDrawableMsg i (Some m)))"
| "client_read (ClientTransAudibleMsg _ _) =
     io_bind trans_object_read (\<lambda>(i, m). io_return (ClientTransAudibleMsg i (Some m)))"
| "client_read (ClientDelDrawableMsg _) =
     io_bind del_object_read (\<lambda>i. io_return (ClientDelDrawableMsg i))"
| "client_read (ClientDelAudibleMsg _) =
     io_bind del_object_read (\<lambda>i. io_return (ClientDelAudibleMsg i))"

fun client_write :: "client_msg \<Rightarrow> unit io" where
  "client_write (ClientAddDrawableMsg i t) = add_object_write i t"
| "client_write (ClientAddAudibleMsg i t) = add_object_write i t"
| "client_write (ClientTransDrawableMsg i m) = trans_object_write i m"
| "client_write (ClientTransAudibleMsg i m) = trans_object_write i m"
| "client_write (ClientDelDrawableMsg i) = del_object_write i"
| "client_write (ClientDelAudibleMsg i) = del_object_write i"

text \<open>
  The exchange: the sender writes \<open>type()\<close> as a \<open>uint32_t\<close> and then the members; the receiver reads the
  code, asks the factory for an object and lets it read itself. An unknown code gives a null pointer.
\<close>

definition client_send :: "client_msg \<Rightarrow> unit io" where
  "client_send msg =
     io_bind (writePod32 (client_type_code (client_type msg))) (\<lambda>_. client_write msg)"

definition client_receive :: "client_msg option io" where
  "client_receive =
     io_bind readPod32 (\<lambda>t.
       case client_create t of
         None \<Rightarrow> io_return None
       | Some msg \<Rightarrow> io_bind (client_read msg) (\<lambda>m. io_return (Some m)))"

section \<open>Messages to the server\<close>

text \<open>\<open>ServerInputMsg::State\<close>: one bit per key.\<close>

definition StrafeLeft :: u16 where "StrafeLeft = push_bit 0 1"
definition StrafeRight :: u16 where "StrafeRight = push_bit 1 1"
definition WalkForward :: u16 where "WalkForward = push_bit 2 1"
definition WalkReverse :: u16 where "WalkReverse = push_bit 3 1"
definition TurnLeft :: u16 where "TurnLeft = push_bit 4 1"
definition TurnRight :: u16 where "TurnRight = push_bit 5 1"
definition Jump :: u16 where "Jump = push_bit 6 1"
definition Shoot :: u16 where "Shoot = push_bit 7 1"

lemmas input_state_defs =
  StrafeLeft_def StrafeRight_def WalkForward_def WalkReverse_def TurnLeft_def TurnRight_def
  Jump_def Shoot_def

text \<open>
  The three public classes carry the sending client. The others are the messages the physics posts to
  itself, declared in an anonymous namespace of \<open>server/bullet/btphysics.cpp\<close> with codes from
  \<open>SubsystemInternalStart\<close> on; \<open>'f\<close> is the type of their matrix entries.
\<close>

datatype 'f server_msg =
    ServerShutdownMsg ptr
  | ServerInputMsg ptr "u16 option"
  | ServerLoadPlayerMsg ptr string
  | AddPhysObjMsg oid string "'f list"
  | AddCharObjMsg oid string "'f list"
  | DelPhysObjMsg oid
  | DelCharObjMsg oid
  | ForceStateMsg oid u16

definition ShutdownMessage :: u32 where "ShutdownMessage = 0"
definition InputMessage :: u32 where "InputMessage = 1"
definition LoadPlayer :: u32 where "LoadPlayer = 2"
definition SubsystemInternalStart :: u32 where "SubsystemInternalStart = 3"
definition SubsystemInternalEnd :: u32 where
  "SubsystemInternalEnd = SubsystemInternalStart + 0x200"

lemmas server_codes =
  ShutdownMessage_def InputMessage_def LoadPlayer_def SubsystemInternalStart_def
  SubsystemInternalEnd_def

fun server_type :: "'f server_msg \<Rightarrow> u32" where
  "server_type (ServerShutdownMsg _) = ShutdownMessage"
| "server_type (ServerInputMsg _ _) = InputMessage"
| "server_type (ServerLoadPlayerMsg _ _) = LoadPlayer"
| "server_type (AddPhysObjMsg _ _ _) = SubsystemInternalStart"
| "server_type (AddCharObjMsg _ _ _) = SubsystemInternalStart + 1"
| "server_type (DelPhysObjMsg _) = SubsystemInternalStart + 2"
| "server_type (DelCharObjMsg _) = SubsystemInternalStart + 3"
| "server_type (ForceStateMsg _ _) = SubsystemInternalStart + 4"

text \<open>\<open>m_sender\<close>; the internal messages pass 0 to the base constructor.\<close>

fun server_sender :: "'f server_msg \<Rightarrow> ptr" where
  "server_sender (ServerShutdownMsg c) = c"
| "server_sender (ServerInputMsg c _) = c"
| "server_sender (ServerLoadPlayerMsg c _) = c"
| "server_sender (AddPhysObjMsg _ _ _) = 0"
| "server_sender (AddCharObjMsg _ _ _) = 0"
| "server_sender (DelPhysObjMsg _) = 0"
| "server_sender (DelCharObjMsg _) = 0"
| "server_sender (ForceStateMsg _ _) = 0"

text \<open>The constructors; the one of an input message leaves \<open>m_state\<close> without a value.\<close>

definition new_shutdown [simp]: "new_shutdown cli = ServerShutdownMsg cli"
definition new_input [simp]: "new_input cli = ServerInputMsg cli None"
definition new_load_player [simp]: "new_load_player cli = ServerLoadPlayerMsg cli []"

definition server_create :: "u32 \<Rightarrow> ptr \<Rightarrow> 'f server_msg option" where
  "server_create t cli =
     (if t = ShutdownMessage then Some (new_shutdown cli)
      else if t = InputMessage then Some (new_input cli)
      else if t = LoadPlayer then Some (new_load_player cli)
      else None)"

text \<open>The members of each class, read and written; a shutdown message has none.\<close>

definition shutdown_read [simp]: "shutdown_read = io_return ()"
definition shutdown_write [simp]: "shutdown_write = io_return ()"

definition input_read :: "u16 io" where
  [simp]: "input_read = readPod16"

fun input_write :: "u16 option \<Rightarrow> unit io" where
  "input_write (Some st) = writePod16 st"
| "input_write None = io_throw Indeterminate"

definition load_player_read [simp]: "load_player_read = readString"
definition load_player_write [simp]: "load_player_write t = writeString t"

fun server_read :: "'f server_msg \<Rightarrow> 'f server_msg io" where
  "server_read (ServerShutdownMsg c) = io_bind shutdown_read (\<lambda>_. io_return (ServerShutdownMsg c))"
| "server_read (ServerInputMsg c _) =
     io_bind input_read (\<lambda>st. io_return (ServerInputMsg c (Some st)))"
| "server_read (ServerLoadPlayerMsg c _) =
     io_bind load_player_read (\<lambda>t. io_return (ServerLoadPlayerMsg c t))"
| "server_read msg = io_return msg"

fun server_write :: "'f server_msg \<Rightarrow> unit io" where
  "server_write (ServerShutdownMsg _) = shutdown_write"
| "server_write (ServerInputMsg _ st) = input_write st"
| "server_write (ServerLoadPlayerMsg _ t) = load_player_write t"
| "server_write msg = io_return ()"

definition server_send :: "'f server_msg \<Rightarrow> unit io" where
  "server_send msg = io_bind (writePod32 (server_type msg)) (\<lambda>_. server_write msg)"

definition server_receive :: "ptr \<Rightarrow> 'f server_msg option io" where
  "server_receive cli =
     io_bind readPod32 (\<lambda>t.
       case server_create t cli of
         None \<Rightarrow> io_return None
       | Some msg \<Rightarrow> io_bind (server_read msg) (\<lambda>m. io_return (Some m)))"

section \<open>The byte format\<close>

fun client_payload :: "client_msg \<Rightarrow> u8 list" where
  "client_payload (ClientAddDrawableMsg i t) = pod32 i @ str_bytes t"
| "client_payload (ClientAddAudibleMsg i t) = pod32 i @ str_bytes t"
| "client_payload (ClientTransDrawableMsg i m) = pod32 i @ transform_bytes (the m)"
| "client_payload (ClientTransAudibleMsg i m) = pod32 i @ transform_bytes (the m)"
| "client_payload (ClientDelDrawableMsg i) = pod32 i"
| "client_payload (ClientDelAudibleMsg i) = pod32 i"

definition client_bytes :: "client_msg \<Rightarrow> u8 list" where
  "client_bytes msg = pod32 (client_type_code (client_type msg)) @ client_payload msg"

fun server_payload :: "'f server_msg \<Rightarrow> u8 list" where
  "server_payload (ServerInputMsg _ st) = pod16 (the st)"
| "server_payload (ServerLoadPlayerMsg _ t) = str_bytes t"
| "server_payload msg = []"

definition server_bytes :: "'f server_msg \<Rightarrow> u8 list" where
  "server_bytes msg = pod32 (server_type msg) @ server_payload msg"

text \<open>The messages the format carries, and what the receiving end makes of their sender.\<close>

fun transform_ok :: "float_bits list option \<Rightarrow> bool" where
  "transform_ok None = False"
| "transform_ok (Some fs) = (length fs = 16)"

fun client_sendable :: "client_msg \<Rightarrow> bool" where
  "client_sendable (ClientAddDrawableMsg _ t) = wire_string t"
| "client_sendable (ClientAddAudibleMsg _ t) = wire_string t"
| "client_sendable (ClientTransDrawableMsg _ m) = transform_ok m"
| "client_sendable (ClientTransAudibleMsg _ m) = transform_ok m"
| "client_sendable (ClientDelDrawableMsg _) = True"
| "client_sendable (ClientDelAudibleMsg _) = True"

fun server_sendable :: "'f server_msg \<Rightarrow> bool" where
  "server_sendable (ServerShutdownMsg _) = True"
| "server_sendable (ServerInputMsg _ st) = (st \<noteq> None)"
| "server_sendable (ServerLoadPlayerMsg _ t) = wire_string t"
| "server_sendable _ = False"

fun from_client :: "ptr \<Rightarrow> 'f server_msg \<Rightarrow> 'f server_msg" where
  "from_client c (ServerShutdownMsg _) = ServerShutdownMsg c"
| "from_client c (ServerInputMsg _ st) = ServerInputMsg c st"
| "from_client c (ServerLoadPlayerMsg _ t) = ServerLoadPlayerMsg c t"
| "from_client c msg = msg"

section \<open>Every class reads back what it writes\<close>

lemma split_floats_pod32: "split_floats (length fs) (transform_bytes fs) = fs"
  by (induction fs) (auto simp: transform_bytes_def word_of_pod32)

lemma length_transform_bytes [simp]: "length (transform_bytes fs) = 4 * length fs"
  by (induction fs) (auto simp: transform_bytes_def)

lemma parses_read_transform [wire_simps]:
  "length fs = 16 \<Longrightarrow> parses read_transform (transform_bytes fs) fs"
  using parses_map [OF parses_sock_read [of "transform_bytes fs" 64], of "split_floats 16"]
    split_floats_pod32 [of fs]
  by (simp add: read_transform_def)

lemma parses_add_object_read:
  "wire_string t \<Longrightarrow> parses add_object_read (pod32 i @ str_bytes t) (i, t)"
  unfolding add_object_read_def
  by (rule parses_bind [OF parses_readPod32 parses_map [OF parses_readString]])

lemma parses_trans_object_read:
  "length fs = 16 \<Longrightarrow> parses trans_object_read (pod32 i @ transform_bytes fs) (i, fs)"
  unfolding trans_object_read_def
  by (rule parses_bind [OF parses_readPod32 parses_map [OF parses_read_transform]])

lemma wire_string_length: "wire_string t \<Longrightarrow> length t < 2 ^ 32"
  by (simp add: wire_string_def)

lemma sends_client_write: "client_sendable msg \<Longrightarrow> sends (client_write msg) (client_payload msg)"
proof (cases msg rule: client_payload.cases)
  case (3 i m)
  assume "client_sendable msg"
  with 3 show ?thesis
    by (cases m) (auto simp: trans_object_write_def intro: sends_bind sends_writePod32)
next
  case (4 i m)
  assume "client_sendable msg"
  with 4 show ?thesis
    by (cases m) (auto simp: trans_object_write_def intro: sends_bind sends_writePod32)
qed (auto simp: add_object_write_def
      intro!: sends_bind sends_writePod32 sends_writeString wire_string_length)

fun client_fresh :: "client_message_type \<Rightarrow> client_msg" where
  "client_fresh AddDrawable = ClientAddDrawableMsg 0 []"
| "client_fresh AddAudible = ClientAddAudibleMsg 0 []"
| "client_fresh TransDrawable = ClientTransDrawableMsg 0 None"
| "client_fresh TransAudible = ClientTransAudibleMsg 0 None"
| "client_fresh DelDrawable = ClientDelDrawableMsg 0"
| "client_fresh DelAudible = ClientDelAudibleMsg 0"

lemma client_create_code [wire_simps]:
  "client_create (client_type_code ty) = Some (client_fresh ty)"
  by (cases ty) (simp_all add: client_create_def)

lemma parses_pair_map:
  "parses m bs (a, b) \<Longrightarrow> parses (io_bind m (\<lambda>(i, t). io_return (g i t))) bs (g a b)"
  using parses_map [of m bs "(a, b)" "\<lambda>(i, t). g i t"] by (simp add: case_prod_unfold)

lemmas parses_members =
  parses_map [OF parses_readPod32] parses_map [OF parses_readPod16] parses_map [OF parses_readString]
  parses_pair_map [OF parses_add_object_read] parses_pair_map [OF parses_trans_object_read]

lemma transform_ok_cases: "transform_ok m \<Longrightarrow> (\<And>fs. m = Some fs \<Longrightarrow> length fs = 16 \<Longrightarrow> P) \<Longrightarrow> P"
  by (cases m) auto

lemma parses_client_read:
  "client_sendable msg \<Longrightarrow>
    parses (client_read (client_fresh (client_type msg))) (client_payload msg) msg"
  by (cases msg) (auto elim!: transform_ok_cases intro: parses_members)

lemma sends_client_send [wire_simps]:
  "client_sendable msg \<Longrightarrow> sends (client_send msg) (client_bytes msg)"
  unfolding client_send_def client_bytes_def
  by (intro sends_bind sends_writePod32 sends_client_write)

lemma parses_client_receive [wire_simps]:
  assumes "client_sendable msg"
  shows "parses client_receive (client_bytes msg) (Some msg)"
  unfolding client_receive_def client_bytes_def
  by (rule parses_bind [OF parses_readPod32])
    (simp add: client_create_code parses_map [OF parses_client_read [OF assms]])

lemma sends_server_write:
  "server_sendable msg \<Longrightarrow> sends (server_write msg) (server_payload msg)"
  by (cases msg)
    (auto intro: sends_writePod16 sends_writeString wire_string_length sends_return)

lemma sends_server_send [wire_simps]:
  "server_sendable msg \<Longrightarrow> sends (server_send msg) (server_bytes msg)"
  unfolding server_send_def server_bytes_def
  by (intro sends_bind sends_writePod32 sends_server_write)

fun server_fresh :: "ptr \<Rightarrow> 'f server_msg \<Rightarrow> 'f server_msg" where
  "server_fresh c (ServerInputMsg _ _) = ServerInputMsg c None"
| "server_fresh c (ServerLoadPlayerMsg _ _) = ServerLoadPlayerMsg c []"
| "server_fresh c _ = ServerShutdownMsg c"

lemma server_create_type [wire_simps]:
  "server_sendable msg \<Longrightarrow> server_create (server_type msg) c = Some (server_fresh c msg)"
  by (cases msg) (simp_all add: server_create_def server_codes)

lemma parses_server_read:
  "server_sendable msg \<Longrightarrow>
    parses (server_read (server_fresh c msg)) (server_payload msg) (from_client c msg)"
  by (cases msg) (auto intro: parses_members)

lemma parses_server_receive [wire_simps]:
  assumes "server_sendable msg"
  shows "parses (server_receive c) (server_bytes msg) (Some (from_client c msg))"
  unfolding server_receive_def server_bytes_def
  by (rule parses_bind [OF parses_readPod32])
    (simp add: server_create_type [OF assms] parses_map [OF parses_server_read [OF assms]])

section \<open>A connection carries a stream of messages\<close>

fun send_all :: "('m \<Rightarrow> unit io) \<Rightarrow> 'm list \<Rightarrow> unit io" where
  "send_all snd_msg [] = io_return ()"
| "send_all snd_msg (m # ms) = io_bind (snd_msg m) (\<lambda>_. send_all snd_msg ms)"

fun receive_all :: "'m option io \<Rightarrow> nat \<Rightarrow> 'm option list io" where
  "receive_all rcv 0 = io_return []"
| "receive_all rcv (Suc n) =
     io_bind rcv (\<lambda>m. io_bind (receive_all rcv n) (\<lambda>ms. io_return (m # ms)))"

text \<open>
  The contract of a framed protocol: a sender and a receiver that agree on a byte format for the
  messages they can carry; \<open>view\<close> is what the receiving end sees of a message.
\<close>

locale framed_protocol =
  fixes snd_msg :: "'m \<Rightarrow> unit io"
    and rcv_msg :: "'m option io"
    and format :: "'m \<Rightarrow> u8 list"
    and carried :: "'m \<Rightarrow> bool"
    and view :: "'m \<Rightarrow> 'm"
  assumes sends_format: "carried m \<Longrightarrow> sends (snd_msg m) (format m)"
    and parses_format: "carried m \<Longrightarrow> parses rcv_msg (format m) (Some (view m))"
begin

lemma send_all_stream:
  "list_all carried ms \<Longrightarrow> sends (send_all snd_msg ms) (concat (map format ms))"
proof (induction ms)
  case Nil
  show ?case by (simp add: sends_return)
next
  case (Cons m ms)
  then show ?case by (simp add: sends_bind sends_format)
qed

lemma receive_all_stream:
  "list_all carried ms \<Longrightarrow>
    parses (receive_all rcv_msg (length ms)) (concat (map format ms)) (map (\<lambda>m. Some (view m)) ms)"
proof (induction ms)
  case (Cons m ms)
  then have "parses (receive_all rcv_msg (length ms)) (concat (map format ms)) (map (\<lambda>m. Some (view m)) ms)"
    by simp
  then have "parses (io_bind (receive_all rcv_msg (length ms)) (\<lambda>ms'. io_return (Some (view m) # ms')))
      (concat (map format ms)) (Some (view m) # map (\<lambda>m. Some (view m)) ms)"
    by (rule parses_map)
  with Cons.prems show ?case
    by (simp add: parses_bind [OF parses_format])
qed simp

lemma stream_roundtrip:
  assumes "list_all carried ms" and "sk_room s = None" and "sk_out s = []"
    and "sk_in t = sk_out (snd (send_all snd_msg ms s)) @ rest"
  shows "receive_all rcv_msg (length ms) t = (Inr (map (\<lambda>m. Some (view m)) ms), t\<lparr>sk_in := rest\<rparr>)"
proof -
  have "send_all snd_msg ms s = sock_write (concat (map format ms)) s"
    using send_all_stream [OF assms(1)] by (simp add: sends_def)
  with assms(2,3) have "sk_out (snd (send_all snd_msg ms s)) = concat (map format ms)"
    by (simp add: sock_write_def)
  with receive_all_stream [OF assms(1)] assms(4) show ?thesis
    by (simp add: parses_def receives_def)
qed

lemma cut_stream_fails:
  assumes "list_all carried ms" and "n < length (concat (map format ms))"
    and "sk_in t = take n (concat (map format ms))"
  shows "fst (receive_all rcv_msg (length ms) t) = Inl (SystemError (sk_read_code t))"
  using receive_all_stream [OF assms(1)] assms(2,3)
  by (auto simp: parses_def truncation_fails_def)

end

interpretation to_client: framed_protocol client_send client_receive client_bytes client_sendable id
  by unfold_locales (auto intro: sends_client_send parses_client_receive)

interpretation to_server: framed_protocol
  server_send "server_receive c" server_bytes server_sendable "from_client c" for c
  by unfold_locales (auto intro: sends_server_send parses_server_receive)

section \<open>What the factory makes of a code a peer sends\<close>

lemma server_create_public:
  "server_create t c = Some m \<Longrightarrow>
    m \<in> {ServerShutdownMsg c, ServerInputMsg c None, ServerLoadPlayerMsg c []} \<and> server_type m = t"
  by (auto simp: server_create_def server_codes split: if_splits)

lemma server_read_public:
  assumes "server_sender m = c" and "server_type m < SubsystemInternalStart"
    and "server_read m s = (Inr m', s')"
  shows "server_sender m' = c \<and> server_type m' = server_type m"
  using assms
  by (cases m) (auto simp: io_bind_def io_return_def server_codes split: prod.splits sum.splits)

end
