(* ===== verification/MsgQueue.thy ===== *)
theory MsgQueue
  imports Prelude "HOL-Library.Multiset"
begin

text \<open>
  \<open>core/util/queue.hpp\<close> as its clients see it: the sequential meaning of \<open>push\<close> and \<open>try_pop\<close> of both
  implementations, the contract they share, the order each gives, and the loop
  \<open>while (queue.try_pop(msg)) handle(msg)\<close> of the client and of the physics thread. That the concurrent
  implementations have this meaning is shown in \<open>LocklessQueue\<close> and \<open>LockedQueue\<close>.
\<close>

section \<open>Sequential meaning\<close>

text \<open>\<open>locklessQueue\<close>: a linked list, first element first; \<open>push\<close> links the new node in front.\<close>

definition lockless_push :: "'a \<Rightarrow> 'a list \<Rightarrow> 'a list" where
  "lockless_push t q = t # q"

fun lockless_try_pop :: "'a list \<Rightarrow> ('a \<times> 'a list) option" where
  "lockless_try_pop [] = None"
| "lockless_try_pop (item # rest) = Some (item, rest)"

text \<open>\<open>lockedQueue\<close>: a \<open>std::deque\<close>, \<open>push_back\<close> and \<open>pop_front\<close>.\<close>

definition locked_push :: "'a \<Rightarrow> 'a list \<Rightarrow> 'a list" where
  "locked_push t q = q @ [t]"

fun locked_try_pop :: "'a list \<Rightarrow> ('a \<times> 'a list) option" where
  "locked_try_pop [] = None"
| "locked_try_pop (front # rest) = Some (front, rest)"

text \<open>\<open>queue\<close>: without \<open>QNT_USE_LOCKED_QUEUE\<close>, which no build file sets, the lockless one.\<close>

definition queue_push :: "'a \<Rightarrow> 'a list \<Rightarrow> 'a list" where
  "queue_push = lockless_push"

definition queue_try_pop :: "'a list \<Rightarrow> ('a \<times> 'a list) option" where
  "queue_try_pop = lockless_try_pop"

text \<open>\<open>while (m_msg_queue.try_pop(msg)) handle(msg);\<close>\<close>

partial_function (option) drain ::
    "('q \<Rightarrow> ('m \<times> 'q) option) \<Rightarrow> ('m \<Rightarrow> 's \<Rightarrow> fault + 's) \<Rightarrow> 'q \<Rightarrow> 's \<Rightarrow> ((fault + 's) \<times> 'q) option"
where
  "drain try_pop handle q s =
     (case try_pop q of
        None \<Rightarrow> Some (Inr s, q)
      | Some (m, q') \<Rightarrow>
          (case handle m s of
             Inl e \<Rightarrow> Some (Inl e, q')
           | Inr s' \<Rightarrow> drain try_pop handle q' s'))"

section \<open>The contract\<close>

text \<open>
  \<open>pending q\<close> lists the elements in the order the next calls of \<open>try_pop\<close> return them.
\<close>

locale message_queue =
  fixes push :: "'m \<Rightarrow> 'q \<Rightarrow> 'q"
    and try_pop :: "'q \<Rightarrow> ('m \<times> 'q) option"
    and pending :: "'q \<Rightarrow> 'm list"
  assumes try_pop_None: "try_pop q = None \<longleftrightarrow> pending q = []"
    and try_pop_Some: "try_pop q = Some (m, q') \<Longrightarrow> pending q = m # pending q'"
    and push_pending: "mset (pending (push m q)) = add_mset m (mset (pending q))"
begin

text \<open>The loop returns, having handled every pending message exactly once, in order.\<close>

lemma drain_total:
  assumes "fold_res handle (pending q) s = Inr s'"
  shows "\<exists>q'. drain try_pop handle q s = Some (Inr s', q') \<and> pending q' = []"
  using assms
proof (induction "pending q" arbitrary: q s)
  case Nil
  then have "try_pop q = None" by (simp add: try_pop_None)
  with Nil show ?case by (auto simp: drain.simps [of try_pop])
next
  case (Cons m ms)
  then obtain m' q' where pop: "try_pop q = Some (m', q')"
    by (metis list.distinct(1) option.exhaust surj_pair try_pop_None)
  with Cons.hyps(2) have m: "m' = m" and ms: "pending q' = ms"
    using try_pop_Some [OF pop] by auto
  from Cons.prems Cons.hyps(2) [symmetric] obtain s1 where
    s1: "handle m s = Inr s1" and rest: "fold_res handle (pending q') s1 = Inr s'"
    using ms by (auto simp: res_bind_eq_Inr)
  from Cons.hyps(1) [OF ms [symmetric] rest] pop m s1 show ?case
    by (auto simp: drain.simps [of try_pop handle q])
qed

lemma drain_fold:
  "\<exists>q'. drain try_pop (\<lambda>m s. Inr (h m s)) q s = Some (Inr (fold h (pending q) s), q') \<and>
     pending q' = []"
  by (rule drain_total) (simp add: fold_res_Inr)

lemma push_members: "set (pending (push m q)) = insert m (set (pending q))"
  using push_pending [of m q] by (metis set_mset_add_mset_insert set_mset_mset)

lemma pushes_members: "set (pending (fold push ms q)) = set ms \<union> set (pending q)"
  by (induction ms arbitrary: q) (auto simp: push_members)

end

text \<open>The two orders a queue can have.\<close>

locale fifo_queue = message_queue +
  assumes push_last: "pending (push m q) = pending q @ [m]"
begin

lemma pushes_in_order: "pending (fold push ms q) = pending q @ ms"
  by (induction ms arbitrary: q) (auto simp: push_last)

end

locale lifo_queue = message_queue +
  assumes push_first: "pending (push m q) = m # pending q"
begin

lemma pushes_reversed: "pending (fold push ms q) = rev ms @ pending q"
  by (induction ms arbitrary: q) (auto simp: push_first)

end

interpretation lockless: lifo_queue lockless_push lockless_try_pop id
proof
  show "lockless_try_pop q = None \<longleftrightarrow> id q = []" for q :: "'a list"
    by (cases q) auto
  show "lockless_try_pop q = Some (m, q') \<Longrightarrow> id q = m # id q'" for q q' and m :: 'a
    by (cases q) auto
qed (auto simp: lockless_push_def)

interpretation locked: fifo_queue locked_push locked_try_pop id
proof
  show "locked_try_pop q = None \<longleftrightarrow> id q = []" for q :: "'a list"
    by (cases q) auto
  show "locked_try_pop q = Some (m, q') \<Longrightarrow> id q = m # id q'" for q q' and m :: 'a
    by (cases q) auto
qed (auto simp: locked_push_def)

interpretation msg_queue: lifo_queue queue_push queue_try_pop id
  unfolding queue_push_def queue_try_pop_def by (rule lockless.lifo_queue_axioms)

section \<open>Properties\<close>

text \<open>
  The container behind every message queue of the default build is a stack: after pushing a
  sequence of messages, the loop that empties the queue handles them in the reverse order, each
  exactly once, before anything that was already there, and it leaves the queue empty.
\<close>

lemma default_queue_reverses_batch:
  "drain queue_try_pop (\<lambda>m s. Inr (s @ [m])) (fold queue_push ms q) [] =
     Some (Inr (rev ms @ q), [])"
proof -
  have "fold (\<lambda>m s. s @ [m]) xs s = s @ xs" for xs s :: "'a list"
    by (induction xs arbitrary: s) auto
  with msg_queue.drain_fold [of "\<lambda>m s. s @ [m]" "fold queue_push ms q" "[]"] show ?thesis
    by (simp add: msg_queue.pushes_reversed [simplified])
qed

text \<open>
  With \<open>QNT_USE_LOCKED_QUEUE\<close> the same loop handles the messages in the order of the pushes, after
  those already there.
\<close>

lemma locked_queue_keeps_order:
  "drain locked_try_pop (\<lambda>m s. Inr (s @ [m])) (fold locked_push ms q) [] =
     Some (Inr (q @ ms), [])"
proof -
  have "fold (\<lambda>m s. s @ [m]) xs s = s @ xs" for xs s :: "'a list"
    by (induction xs arbitrary: s) auto
  with locked.drain_fold [of "\<lambda>m s. s @ [m]" "fold locked_push ms q" "[]"] show ?thesis
    by (simp add: locked.pushes_in_order [simplified])
qed

end
