(* ===== verification/Glm.thy ===== *)
theory Glm
  imports Main
begin

text \<open>
  The parts of the bundled \<open>glm\<close> the server calls: \<open>vec3\<close>, \<open>vec4\<close>, \<open>mat4\<close>, \<open>quat\<close>, \<open>translate\<close>,
  \<open>mat4_cast\<close>, the product of matrices and \<open>value_ptr\<close>. They are templates over the scalar type, and so
  are the definitions here: they use the operations of the scalar type \<open>'f\<close> in the order the code does
  and assume no law of them, so they stand for \<open>float\<close> as well. Theorems that need exact arithmetic ask
  for a ring.
\<close>

section \<open>Vectors and matrices\<close>

datatype 'f vec3 = Vec3 (v3x: 'f) (v3y: 'f) (v3z: 'f)

datatype 'f vec4 = Vec4 (v4x: 'f) (v4y: 'f) (v4z: 'f) (v4w: 'f)

text \<open>Columns first, as in \<open>glm\<close>.\<close>

datatype 'f mat4 = Mat4 (col0: "'f vec4") (col1: "'f vec4") (col2: "'f vec4") (col3: "'f vec4")

datatype 'f quat = Quat (qx: 'f) (qy: 'f) (qz: 'f) (qw: 'f)

fun vec4_add :: "'f::plus vec4 \<Rightarrow> 'f vec4 \<Rightarrow> 'f vec4" where
  "vec4_add (Vec4 a b c d) (Vec4 a' b' c' d') = Vec4 (a + a') (b + b') (c + c') (d + d')"

fun vec4_scale :: "'f::times vec4 \<Rightarrow> 'f \<Rightarrow> 'f vec4" where
  "vec4_scale (Vec4 a b c d) s = Vec4 (a * s) (b * s) (c * s) (d * s)"

definition mat4_identity :: "'f::{zero,one} mat4" where
  "mat4_identity =
     Mat4 (Vec4 1 0 0 0) (Vec4 0 1 0 0) (Vec4 0 0 1 0) (Vec4 0 0 0 1)"

text \<open>\<open>m[0] * v[0] + m[1] * v[1] + m[2] * v[2] + m[3]\<close> as the new last column.\<close>

fun translate :: "'f::{plus,times} mat4 \<Rightarrow> 'f vec3 \<Rightarrow> 'f mat4" where
  "translate (Mat4 m0 m1 m2 m3) (Vec3 x y z) =
     Mat4 m0 m1 m2
       (vec4_add (vec4_add (vec4_add (vec4_scale m0 x) (vec4_scale m1 y)) (vec4_scale m2 z)) m3)"

definition combine :: "'f::{plus,times} mat4 \<Rightarrow> 'f vec4 \<Rightarrow> 'f vec4" where
  "combine m b =
     vec4_add (vec4_add (vec4_add (vec4_scale (col0 m) (v4x b)) (vec4_scale (col1 m) (v4y b)))
       (vec4_scale (col2 m) (v4z b))) (vec4_scale (col3 m) (v4w b))"

definition mat4_mul :: "'f::{plus,times} mat4 \<Rightarrow> 'f mat4 \<Rightarrow> 'f mat4" where
  "mat4_mul a b =
     Mat4 (combine a (col0 b)) (combine a (col1 b)) (combine a (col2 b)) (combine a (col3 b))"

text \<open>\<open>value_ptr\<close>: the sixteen entries in memory order.\<close>

fun vec4_list :: "'f vec4 \<Rightarrow> 'f list" where
  "vec4_list (Vec4 a b c d) = [a, b, c, d]"

definition value_ptr :: "'f mat4 \<Rightarrow> 'f list" where
  "value_ptr m = vec4_list (col0 m) @ vec4_list (col1 m) @ vec4_list (col2 m) @ vec4_list (col3 m)"

section \<open>Quaternions\<close>

text \<open>The default constructor, and the one of four scalars: its parameters are \<open>w\<close>, \<open>x\<close>, \<open>y\<close>, \<open>z\<close>.\<close>

definition quat_default :: "'f::{zero,one} quat" where
  "quat_default = Quat 0 0 0 1"

definition quat_of_wxyz :: "'f \<Rightarrow> 'f \<Rightarrow> 'f \<Rightarrow> 'f \<Rightarrow> 'f quat" where
  "quat_of_wxyz w x y z = Quat x y z w"

text \<open>\<open>mat4_cast(q) = mat4(mat3_cast(q))\<close>; the literal 2 is converted to the scalar type.\<close>

definition two :: "'f::{one,plus}" where
  "two = 1 + 1"

fun mat4_cast :: "'f::{zero,one,plus,minus,times} quat \<Rightarrow> 'f mat4" where
  "mat4_cast (Quat x y z w) =
     Mat4
       (Vec4 (1 - two * y * y - two * z * z) (two * x * y + two * w * z) (two * x * z - two * w * y) 0)
       (Vec4 (two * x * y - two * w * z) (1 - two * x * x - two * z * z) (two * y * z + two * w * x) 0)
       (Vec4 (two * x * z + two * w * y) (two * y * z - two * w * x) (1 - two * x * x - two * y * y) 0)
       (Vec4 0 0 0 1)"

section \<open>Laws over a ring\<close>

lemma length_value_ptr [simp]: "length (value_ptr m) = 16"
  by (cases m rule: mat4.exhaust; cases "col0 m"; cases "col1 m"; cases "col2 m"; cases "col3 m")
    (simp add: value_ptr_def)

lemma translate_identity:
  "translate mat4_identity (Vec3 x y z) =
     Mat4 (Vec4 1 0 0 0) (Vec4 0 1 0 0) (Vec4 0 0 1 0) (Vec4 (x::'f::comm_ring_1) y z 1)"
  by (simp add: mat4_identity_def)

text \<open>A translation times an affine matrix moves its origin and keeps its axes.\<close>

lemma translate_mul:
  "mat4_mul (translate mat4_identity (Vec3 x y z))
     (Mat4 (Vec4 a0 a1 a2 0) (Vec4 b0 b1 b2 0) (Vec4 c0 c1 c2 0) (Vec4 0 0 0 1)) =
   Mat4 (Vec4 a0 a1 a2 0) (Vec4 b0 b1 b2 0) (Vec4 c0 c1 c2 0) (Vec4 (x::'f::comm_ring_1) y z 1)"
  by (simp add: mat4_mul_def combine_def mat4_identity_def)

lemma mat4_cast_default: "mat4_cast quat_default = (mat4_identity :: 'f::comm_ring_1 mat4)"
  by (simp add: quat_default_def mat4_identity_def)

fun dot4 :: "'f::{plus,times} vec4 \<Rightarrow> 'f vec4 \<Rightarrow> 'f" where
  "dot4 (Vec4 a b c d) (Vec4 a' b' c' d') = a * a' + b * b' + c * c' + d * d'"

definition quat_norm2 :: "'f::{plus,times} quat \<Rightarrow> 'f" where
  "quat_norm2 q = qx q * qx q + qy q * qy q + qz q * qz q + qw q * qw q"

text \<open>Columns that are orthonormal: a rotation or a reflection.\<close>

definition orthonormal :: "'f::{zero,one,plus,times} mat4 \<Rightarrow> bool" where
  "orthonormal m \<longleftrightarrow>
     dot4 (col0 m) (col0 m) = 1 \<and> dot4 (col1 m) (col1 m) = 1 \<and> dot4 (col2 m) (col2 m) = 1 \<and>
     dot4 (col0 m) (col1 m) = 0 \<and> dot4 (col0 m) (col2 m) = 0 \<and> dot4 (col1 m) (col2 m) = 0"

lemma mat4_cast_orthonormal:
  assumes "quat_norm2 q = (1 :: 'f::comm_ring_1)"
  shows "orthonormal (mat4_cast q)"
proof (cases q)
  case (Quat x y z w)
  have n: "x * x + y * y + z * z + w * w = 1" using assms Quat by (simp add: quat_norm2_def)
  let ?n = "x * x + y * y + z * z + w * w" and ?m = "mat4_cast (Quat x y z w)"
  have "dot4 (col0 ?m) (col0 ?m) = 1 + 4 * (y * y + z * z) * (?n - 1)"
    and "dot4 (col1 ?m) (col1 ?m) = 1 + 4 * (x * x + z * z) * (?n - 1)"
    and "dot4 (col2 ?m) (col2 ?m) = 1 + 4 * (x * x + y * y) * (?n - 1)"
    and "dot4 (col0 ?m) (col1 ?m) = 4 * x * y * (1 - ?n)"
    and "dot4 (col0 ?m) (col2 ?m) = 4 * x * z * (1 - ?n)"
    and "dot4 (col1 ?m) (col2 ?m) = 4 * y * z * (1 - ?n)"
    by (simp_all add: two_def algebra_simps)
  then show ?thesis by (simp add: orthonormal_def Quat n)
qed

end
