(* ===== verification/Physics.thy ===== *)
theory Physics
  imports StdMap Messages MsgQueue Glm
begin

unbundle bit_operations_syntax

text \<open>
  \<open>server/bullet/btphysics.hpp\<close> and the part of \<open>btphysics.cpp\<close> that does not call back into the server:
  the state of \<open>BtPhysics\<close>, the operations of \<open>PhysicsIface\<close> that post messages, the direct one, and
  \<open>updateCharacterObjects\<close>. The Bullet library is a parameter: a record of the calls the code makes on
  it, over a world state \<open>'w\<close> and vectors \<open>'v\<close>. A body, ghost object or controller created with \<open>new\<close> is
  named by the handle the creating call returns.
\<close>

section \<open>The calls made on Bullet\<close>

text \<open>
  \<open>bt_add_plane normal matrix\<close> stands for the construction of a static plane body up to
  \<open>addRigidBody\<close>, \<open>bt_add_character matrix\<close> for that of shape, ghost object and controller up to
  \<open>addAction\<close>, and the \<open>remove\<close> calls for their removal and deletion. \<open>bt_axis h i\<close> is the normalised row
  \<open>i\<close> of the basis of the object's world transform, \<open>bt_turn h b\<close> the rotation of the basis by 0.01 (by
  -0.01 when \<open>b\<close> is false), \<open>bt_speed\<close> the multiplication by \<open>7.f/30.f\<close>, \<open>bt_step\<close> the call of
  \<open>stepSimulation\<close>, \<open>bt_gl_matrix\<close> the sixteen floats \<open>getOpenGLMatrix\<close> writes.
\<close>

record ('f, 'v, 'w) bullet =
  bt_add_plane :: "int \<times> int \<times> int \<Rightarrow> 'f list \<Rightarrow> 'w \<Rightarrow> nat \<times> 'w"
  bt_remove_plane :: "nat \<Rightarrow> 'w \<Rightarrow> 'w"
  bt_add_character :: "'f list \<Rightarrow> 'w \<Rightarrow> nat \<times> 'w"
  bt_remove_character :: "nat \<Rightarrow> 'w \<Rightarrow> 'w"
  bt_can_jump :: "nat \<Rightarrow> 'w \<Rightarrow> bool"
  bt_axis :: "nat \<Rightarrow> nat \<Rightarrow> 'w \<Rightarrow> 'v"
  bt_zero :: 'v
  bt_plus :: "'v \<Rightarrow> 'v \<Rightarrow> 'v"
  bt_minus :: "'v \<Rightarrow> 'v \<Rightarrow> 'v"
  bt_speed :: "'v \<Rightarrow> 'v"
  bt_turn :: "nat \<Rightarrow> bool \<Rightarrow> 'w \<Rightarrow> 'w"
  bt_jump :: "nat \<Rightarrow> 'w \<Rightarrow> 'w"
  bt_set_walk :: "nat \<Rightarrow> 'v \<Rightarrow> 'w \<Rightarrow> 'w"
  bt_step :: "'w \<Rightarrow> 'w"
  bt_gl_matrix :: "nat \<Rightarrow> 'w \<Rightarrow> float_bits list"

section \<open>State\<close>

record character =
  ch_handle :: nat
  ch_state :: u16

record ('f, 'w) physics =
  ph_objects :: "(oid, nat) std_map"
  ph_characters :: "(oid, character) std_map"
  ph_queue :: "'f server_msg list"
  ph_world :: 'w

text \<open>The table of plane templates.\<close>

definition planes :: "(string \<times> (int \<times> int \<times> int)) list" where
  "planes = [(''Floor'', (0, 0, 1)), (''LWall'', (1, 0, 0)), (''RWall'', (-1, 0, 0))]"

section \<open>Operations of PhysicsIface\<close>

definition ph_pushMessage :: "'f server_msg \<Rightarrow> ('f, 'w) physics \<Rightarrow> ('f, 'w) physics" where
  "ph_pushMessage msg p = p\<lparr>ph_queue := queue_push msg (ph_queue p)\<rparr>"

definition addPhysical ::
    "oid \<Rightarrow> string \<Rightarrow> 'f list \<Rightarrow> bool \<Rightarrow> ('f, 'w) physics \<Rightarrow> ('f, 'w) physics" where
  "addPhysical i tmp mat isCharacter p =
     (if isCharacter then ph_pushMessage (AddCharObjMsg i tmp mat) p
      else ph_pushMessage (AddPhysObjMsg i tmp mat) p)"

definition delPhysical :: "oid \<Rightarrow> bool \<Rightarrow> ('f, 'w) physics \<Rightarrow> ('f, 'w) physics" where
  "delPhysical i isCharacter p =
     (if isCharacter then ph_pushMessage (DelCharObjMsg i) p
      else ph_pushMessage (DelPhysObjMsg i) p)"

definition setInputState :: "oid \<Rightarrow> u16 \<Rightarrow> ('f, 'w) physics \<Rightarrow> ('f, 'w) physics" where
  "setInputState i st p = ph_pushMessage (ForceStateMsg i st) p"

definition setInputStateCallback :: "oid \<Rightarrow> u16 \<Rightarrow> ('f, 'w) physics \<Rightarrow> ('f, 'w) physics" where
  "setInputStateCallback i st p =
     (case map_find i (ph_characters p) of
        None \<Rightarrow> p
      | Some ch \<Rightarrow> p\<lparr>ph_characters := map_put i (ch\<lparr>ch_state := st\<rparr>) (ph_characters p)\<rparr>)"

section \<open>Moving the characters\<close>

definition pressed :: "u16 \<Rightarrow> u16 \<Rightarrow> bool" where
  "pressed st key \<longleftrightarrow> st AND key \<noteq> 0"

text \<open>The four conditional updates of \<open>direction\<close>, in the order of the code.\<close>

definition walk_direction :: "('f, 'v, 'w) bullet \<Rightarrow> u16 \<Rightarrow> nat \<Rightarrow> 'w \<Rightarrow> 'v" where
  "walk_direction B st h w =
     (let forward = bt_axis B h 2 w; side = bt_axis B h 0 w;
          d0 = bt_zero B;
          d1 = (if pressed st StrafeLeft then bt_minus B d0 side else d0);
          d2 = (if pressed st StrafeRight then bt_plus B d1 side else d1);
          d3 = (if pressed st WalkForward then bt_plus B d2 forward else d2)
      in if pressed st WalkReverse then bt_minus B d3 forward else d3)"

definition update_character :: "('f, 'v, 'w) bullet \<Rightarrow> character \<Rightarrow> 'w \<Rightarrow> 'w" where
  "update_character B ch w =
     (let h = ch_handle ch; st = ch_state ch in
      if \<not> bt_can_jump B h w then w
      else
        let direction = walk_direction B st h w;
            w1 = (if pressed st TurnLeft then bt_turn B h True w else w);
            w2 = (if pressed st TurnRight then bt_turn B h False w1 else w1);
            w3 = (if pressed st Jump \<and> bt_can_jump B h w2 then bt_jump B h w2 else w2)
        in bt_set_walk B h (bt_speed B direction) w3)"

definition updateCharacterObjects :: "('f, 'v, 'w) bullet \<Rightarrow> ('f, 'w) physics \<Rightarrow> ('f, 'w) physics" where
  "updateCharacterObjects B p =
     p\<lparr>ph_world := fold (\<lambda>(_, ch) w. update_character B ch w) (ph_characters p) (ph_world p)\<rparr>"

section \<open>Lemmas\<close>

lemmas physics_post_defs = addPhysical_def delPhysical_def setInputState_def ph_pushMessage_def

lemma ph_post_frame [simp]:
  "ph_characters (addPhysical i t m b p) = ph_characters p"
  "ph_objects (addPhysical i t m b p) = ph_objects p"
  "ph_world (addPhysical i t m b p) = ph_world p"
  "ph_characters (delPhysical i b p) = ph_characters p"
  "ph_objects (delPhysical i b p) = ph_objects p"
  "ph_world (delPhysical i b p) = ph_world p"
  "ph_characters (ph_pushMessage msg p) = ph_characters p"
  by (simp_all add: physics_post_defs)

lemma ph_queue_post [simp]:
  "ph_queue (ph_pushMessage msg p) = msg # ph_queue p"
  "ph_queue (addPhysical i t m b p) = (if b then AddCharObjMsg i t m else AddPhysObjMsg i t m) # ph_queue p"
  "ph_queue (delPhysical i b p) = (if b then DelCharObjMsg i else DelPhysObjMsg i) # ph_queue p"
  by (simp_all add: physics_post_defs queue_push_def lockless_push_def)

lemma setInputStateCallback_frame [simp]:
  "ph_objects (setInputStateCallback i st p) = ph_objects p"
  "ph_queue (setInputStateCallback i st p) = ph_queue p"
  "ph_world (setInputStateCallback i st p) = ph_world p"
  by (simp_all add: setInputStateCallback_def split: option.split)

lemma setInputStateCallback_ok [simp, inv_intros]:
  "map_ok (ph_characters p) \<Longrightarrow> map_ok (ph_characters (setInputStateCallback i st p))"
  by (simp add: setInputStateCallback_def split: option.split)

lemma setInputStateCallback_find:
  assumes "map_ok (ph_characters p)"
  shows "map_find j (ph_characters (setInputStateCallback i st p)) =
    (if j = i then map_option (ch_state_update (\<lambda>_. st)) (map_find j (ph_characters p))
     else map_find j (ph_characters p))"
  using assms by (auto simp: setInputStateCallback_def map_find_put split: option.split)

lemma setInputStateCallback_handles:
  assumes "map_ok (ph_characters p)"
  shows "map_option ch_handle (map_find j (ph_characters (setInputStateCallback i st p))) =
    map_option ch_handle (map_find j (ph_characters p))"
  by (simp add: setInputStateCallback_find [OF assms] option.map_comp o_def)

lemma update_characters_frame [simp]:
  "ph_characters (updateCharacterObjects B p) = ph_characters p"
  "ph_objects (updateCharacterObjects B p) = ph_objects p"
  "ph_queue (updateCharacterObjects B p) = ph_queue p"
  by (simp_all add: updateCharacterObjects_def)

end
