(* ===== verification/LocalServer.thy ===== *)
theory LocalServer
  imports Physics
begin

text \<open>
  \<open>server/localserver.hpp\<close> and \<open>localserver.cpp\<close>, without the loading of the world (theory
  \<open>WorldLoading\<close>): the server's state, the management of clients, the identifier counter, the loading of
  players, the tick callbacks, the distribution of transforms, and the server thread's loop. Every
  operation that holds \<open>m_clients_mutex\<close> is one step here.
\<close>

section \<open>State\<close>

text \<open>
  The fields are the class's members. \<open>srv_live\<close>, \<open>srv_sent\<close> and \<open>srv_closed\<close> describe the surroundings:
  which client objects exist, the calls of \<open>ClientIface::pushMessage\<close> made so far, oldest first, and the
  calls of \<open>serverClosed\<close>. A call on a client that does not exist is a fault.
\<close>

record ('f, 'w) server =
  m_clients :: "(ptr, oid) std_map"
  m_lobby_clients :: "ptr list"
  m_player_spawn :: "'f mat4"
  m_next_id :: u32
  m_baddies :: "(string \<times> oid) list"
  m_ticks :: u32
  m_physics :: "('f, 'w) physics"
  srv_live :: "ptr list"
  srv_sent :: "(ptr \<times> client_msg) list"
  srv_closed :: "ptr list"

text \<open>The constructor, with the members \<open>run\<close> needs before its loop.\<close>

definition server_init :: "'w \<Rightarrow> ('f::{zero,one}, 'w) server" where
  "server_init w =
     \<lparr>m_clients = [], m_lobby_clients = [], m_player_spawn = mat4_identity, m_next_id = 1,
      m_baddies = [], m_ticks = 0,
      m_physics = \<lparr>ph_objects = [], ph_characters = [], ph_queue = [], ph_world = w\<rparr>,
      srv_live = [], srv_sent = [], srv_closed = []\<rparr>"

section \<open>Calls on clients\<close>

definition call_client :: "ptr \<Rightarrow> ('f, 'w) server \<Rightarrow> fault + ('f, 'w) server" where
  "call_client c s =
     (if c = 0 then Inl NullDereference
      else if c \<notin> set (srv_live s) then Inl UseAfterFree
      else Inr s)"

definition push_client :: "ptr \<Rightarrow> client_msg \<Rightarrow> ('f, 'w) server \<Rightarrow> fault + ('f, 'w) server" where
  "push_client c msg s =
     res_bind (call_client c s) (\<lambda>s. Inr (s\<lparr>srv_sent := srv_sent s @ [(c, msg)]\<rparr>))"

definition close_client :: "ptr \<Rightarrow> ('f, 'w) server \<Rightarrow> fault + ('f, 'w) server" where
  "close_client c s =
     res_bind (call_client c s) (\<lambda>s. Inr (s\<lparr>srv_closed := srv_closed s @ [c]\<rparr>))"

definition push_all :: "(ptr \<times> client_msg) list \<Rightarrow> ('f, 'w) server \<Rightarrow> fault + ('f, 'w) server" where
  "push_all = fold_res (\<lambda>(c, msg). push_client c msg)"

section \<open>Client management\<close>

definition addClient :: "ptr \<Rightarrow> ('f, 'w) server \<Rightarrow> fault + ('f, 'w) server" where
  "addClient c s =
     res_bind (push_all (map (\<lambda>(_, i). (c, ClientAddDrawableMsg i ''Player'')) (m_clients s)) s) (\<lambda>s.
     res_bind (push_all (map (\<lambda>(templ, i). (c, ClientAddDrawableMsg i templ)) (m_baddies s)) s) (\<lambda>s.
     Inr (s\<lparr>m_lobby_clients := set_insert c (m_lobby_clients s)\<rparr>)))"

text \<open>The clients a message to everybody goes to: the players in address order, then the lobby.\<close>

definition everybody :: "('f, 'w) server \<Rightarrow> ptr list" where
  "everybody s = map fst (m_clients s) @ m_lobby_clients s"

definition removeClient :: "ptr \<Rightarrow> ('f, 'w) server \<Rightarrow> fault + ('f, 'w) server" where
  "removeClient c s =
     (let (client_id, clients) = map_index 0 c (m_clients s);
          s = s\<lparr>m_clients := map_erase c clients, m_lobby_clients := set_erase c (m_lobby_clients s)\<rparr>
      in if client_id \<noteq> 0
         then push_all (map (\<lambda>d. (d, ClientDelDrawableMsg client_id)) (everybody s))
                (s\<lparr>m_physics := delPhysical client_id True (m_physics s)\<rparr>)
         else Inr s)"

definition makeClientPrivileged :: "ptr \<Rightarrow> ('f, 'w) server \<Rightarrow> ('f, 'w) server" where
  "makeClientPrivileged c s = s"

definition server_isLocal :: "('f, 'w) server \<Rightarrow> bool" where
  "server_isLocal s = True"

text \<open>\<open>getClientId\<close> reads \<open>m_clients[cli]\<close>: an unknown client is entered with identifier 0.\<close>

definition getClientId :: "ptr \<Rightarrow> ('f, 'w) server \<Rightarrow> oid \<times> ('f, 'w) server" where
  "getClientId c s =
     (let (i, clients) = map_index 0 c (m_clients s) in (i, s\<lparr>m_clients := clients\<rparr>))"

section \<open>Identifiers and players\<close>

definition getNextIdentifier :: "('f, 'w) server \<Rightarrow> oid \<times> ('f, 'w) server" where
  "getNextIdentifier s = (m_next_id s, s\<lparr>m_next_id := m_next_id s + 1\<rparr>)"

definition loadPlayer :: "ptr \<Rightarrow> string \<Rightarrow> ('f, 'w) server \<Rightarrow> fault + ('f, 'w) server" where
  "loadPlayer client templ s =
     (let s = s\<lparr>m_lobby_clients := set_erase client (m_lobby_clients s)\<rparr>;
          (i, s) = getNextIdentifier s;
          s = s\<lparr>m_physics := addPhysical i templ (value_ptr (m_player_spawn s)) True (m_physics s)\<rparr>;
          s = s\<lparr>m_clients := map_insert client i (m_clients s)\<rparr>
      in push_all (map (\<lambda>(d, _). (d, ClientAddDrawableMsg i templ)) (m_clients s)) s)"

section \<open>Calls made by the physics thread\<close>

definition pushClientTransforms ::
    "(oid \<times> float_bits list) list \<Rightarrow> ('f, 'w) server \<Rightarrow> fault + ('f, 'w) server" where
  "pushClientTransforms ct s =
     fold_res (\<lambda>(i, mat) s. push_all (map (\<lambda>c. (c, ClientTransDrawableMsg i (Some mat))) (everybody s)) s)
       ct s"

definition runTickCallbacks :: "('f, 'w) server \<Rightarrow> ('f, 'w) server" where
  "runTickCallbacks s =
     (let ticks = m_ticks s + 1;
          ticks = (if ticks = 40 then 0 else ticks);
          state = (if ticks < 20 then StrafeLeft else StrafeRight)
      in s\<lparr>m_ticks := ticks,
           m_physics := fold (\<lambda>(_, i). setInputStateCallback i state) (m_baddies s) (m_physics s)\<rparr>)"

section \<open>The server thread\<close>

text \<open>
  The body of the loop of \<open>run\<close>: the new value of \<open>looping\<close> and the state. The messages the physics posts
  to itself never come here; they fall under \<open>default\<close>.
\<close>

fun server_dispatch :: "'f server_msg \<Rightarrow> ('f, 'w) server \<Rightarrow> fault + (bool \<times> ('f, 'w) server)" where
  "server_dispatch (ServerShutdownMsg c) s = Inr (False, s)"
| "server_dispatch (ServerInputMsg c st) s =
     Inr (True, s\<lparr>m_physics := ph_pushMessage (ServerInputMsg c st) (m_physics s)\<rparr>)"
| "server_dispatch (ServerLoadPlayerMsg c t) s =
     res_bind (loadPlayer c t s) (\<lambda>s. Inr (True, s))"
| "server_dispatch _ s = Inr (True, s)"

text \<open>
  The loop over the messages \<open>wait_pop\<close> returns. It ends with the first shutdown message; the flag tells
  whether it has ended, the list holds the messages it has not taken.
\<close>

fun server_loop :: "'f server_msg list \<Rightarrow> ('f, 'w) server \<Rightarrow>
    fault + (bool \<times> 'f server_msg list \<times> ('f, 'w) server)" where
  "server_loop [] s = Inr (False, [], s)"
| "server_loop (msg # msgs) s =
     res_bind (server_dispatch msg s) (\<lambda>(looping, s).
       if looping then server_loop msgs s else Inr (True, msgs, s))"

text \<open>After the loop: every client, players first, is told that the server has closed.\<close>

definition server_close :: "('f, 'w) server \<Rightarrow> fault + ('f, 'w) server" where
  "server_close s = fold_res close_client (everybody s) s"

section \<open>What the pushes do\<close>

lemma push_client_live:
  "c \<noteq> 0 \<Longrightarrow> c \<in> set (srv_live s) \<Longrightarrow> push_client c msg s = Inr (s\<lparr>srv_sent := srv_sent s @ [(c, msg)]\<rparr>)"
  by (simp add: push_client_def call_client_def)

lemma push_all_live:
  "\<forall>(c, msg) \<in> set ms. c \<noteq> 0 \<and> c \<in> set (srv_live s) \<Longrightarrow>
    push_all ms s = Inr (s\<lparr>srv_sent := srv_sent s @ ms\<rparr>)"
  unfolding push_all_def
  by (induction ms arbitrary: s) (auto simp: push_client_live)

lemma push_all_Inr:
  "push_all ms s = Inr s' \<Longrightarrow> s' = s\<lparr>srv_sent := srv_sent s @ ms\<rparr>"
  unfolding push_all_def
proof (induction ms arbitrary: s)
  case (Cons p ms)
  then obtain s1 where "push_client (fst p) (snd p) s = Inr s1"
    and rest: "fold_res (\<lambda>(c, msg). push_client c msg) ms s1 = Inr s'"
    by (auto simp: case_prod_unfold res_bind_eq_Inr)
  then have "s1 = s\<lparr>srv_sent := srv_sent s @ [p]\<rparr>"
    by (auto simp: push_client_def call_client_def split: if_splits)
  with Cons.IH [OF rest] show ?case by simp
qed simp

text \<open>A message for an object that is gone, or for the null pointer, stops the loop with a fault.\<close>

lemma push_all_dead:
  "(c, msg) \<in> set ms \<Longrightarrow> c \<notin> set (srv_live s) \<Longrightarrow> \<exists>e. push_all ms s = Inl e"
  unfolding push_all_def
proof (induction ms arbitrary: s)
  case (Cons p ms)
  show ?case
  proof (cases "push_client (fst p) (snd p) s")
    case (Inr s')
    then have "srv_live s' = srv_live s" and "fst p \<in> set (srv_live s)"
      by (auto simp: push_client_def call_client_def split: if_splits)
    with Cons Inr show ?thesis by (cases p) auto
  qed (simp add: case_prod_unfold)
qed simp

text \<open>The clients the server knows are live objects; the condition under which nothing faults.\<close>

definition clients_live :: "('f, 'w) server \<Rightarrow> bool" where
  "clients_live s \<longleftrightarrow> (\<forall>c \<in> set (everybody s). c \<noteq> 0 \<and> c \<in> set (srv_live s))"

definition server_ok :: "('f, 'w) server \<Rightarrow> bool" where
  "server_ok s \<longleftrightarrow> map_ok (m_clients s) \<and> set_ok (m_lobby_clients s) \<and>
     map_ok (ph_characters (m_physics s)) \<and> map_ok (ph_objects (m_physics s))"

lemma in_everybody: "c \<in> set (everybody s) \<longleftrightarrow> map_find c (m_clients s) \<noteq> None \<or> c \<in> set (m_lobby_clients s)"
  by (auto simp: everybody_def map_find_None_iff)

lemma everybody_post [simp]:
  "everybody (s\<lparr>m_physics := p\<rparr>) = everybody s"
  "everybody (s\<lparr>srv_sent := x\<rparr>) = everybody s"
  "everybody (s\<lparr>m_next_id := n\<rparr>) = everybody s"
  by (simp_all add: everybody_def)

lemma push_everybody:
  "clients_live s \<Longrightarrow> push_all (map (\<lambda>c. (c, msg)) (everybody s)) s =
    Inr (s\<lparr>srv_sent := srv_sent s @ map (\<lambda>c. (c, msg)) (everybody s)\<rparr>)"
  by (rule push_all_live) (auto simp: clients_live_def)

section \<open>Each operation on live clients\<close>

definition live_client :: "ptr \<Rightarrow> ('f, 'w) server \<Rightarrow> bool" where
  "live_client c s \<longleftrightarrow> c \<noteq> 0 \<and> c \<in> set (srv_live s)"

text \<open>What a newly added client is told: a drawable for every player and every baddie.\<close>

definition announcements :: "('f, 'w) server \<Rightarrow> client_msg list" where
  "announcements s =
     map (\<lambda>(_, i). ClientAddDrawableMsg i ''Player'') (m_clients s) @
     map (\<lambda>(templ, i). ClientAddDrawableMsg i templ) (m_baddies s)"

lemma addClient_live:
  assumes "live_client c s"
  shows "addClient c s = Inr (s\<lparr>srv_sent := srv_sent s @ map (Pair c) (announcements s),
    m_lobby_clients := set_insert c (m_lobby_clients s)\<rparr>)"
  using assms
  by (simp add: addClient_def push_all_live live_client_def announcements_def case_prod_unfold o_def)

lemma removeClient_live:
  assumes "clients_live s"
  shows "removeClient c s =
    (let s' = s\<lparr>m_clients := map_erase c (m_clients s),
                m_lobby_clients := set_erase c (m_lobby_clients s)\<rparr>
     in Inr (case map_find c (m_clients s) of
          None \<Rightarrow> s'
        | Some i \<Rightarrow>
            if i = 0 then s'
            else s'\<lparr>m_physics := delPhysical i True (m_physics s),
                    srv_sent := srv_sent s @ map (\<lambda>d. (d, ClientDelDrawableMsg i)) (everybody s')\<rparr>))"
proof -
  let ?s = "s\<lparr>m_clients := map_erase c (m_clients s), m_lobby_clients := set_erase c (m_lobby_clients s)\<rparr>"
  have live: "clients_live (?s\<lparr>m_physics := p\<rparr>)" for p
    using assms by (auto simp: clients_live_def everybody_def set_map_erase)
  show ?thesis
  proof (cases "map_find c (m_clients s)")
    case None
    then show ?thesis by (simp add: removeClient_def map_index_def Let_def)
  next
    case (Some i)
    then show ?thesis
      using push_everybody [OF live [of "delPhysical i True (m_physics s)"], of "ClientDelDrawableMsg i"]
      by (simp add: removeClient_def map_index_def Let_def)
  qed
qed

text \<open>The state a loaded player leaves before the announcement.\<close>

definition with_player :: "ptr \<Rightarrow> string \<Rightarrow> ('f, 'w) server \<Rightarrow> ('f, 'w) server" where
  "with_player c templ s =
     s\<lparr>m_lobby_clients := set_erase c (m_lobby_clients s),
       m_next_id := m_next_id s + 1,
       m_physics := addPhysical (m_next_id s) templ (value_ptr (m_player_spawn s)) True (m_physics s),
       m_clients := map_insert c (m_next_id s) (m_clients s)\<rparr>"

lemma loadPlayer_push:
  "loadPlayer c templ s =
     push_all (map (\<lambda>(d, _). (d, ClientAddDrawableMsg (m_next_id s) templ))
       (m_clients (with_player c templ s))) (with_player c templ s)"
  by (simp add: loadPlayer_def getNextIdentifier_def with_player_def Let_def)

lemma map_insert_keys: "fst ` set (map_insert k v m) = insert k (fst ` set m)"
  by (auto simp: map_insert_def map_find_None_iff)

lemma loadPlayer_live:
  assumes "clients_live s" and "live_client c s"
  shows "loadPlayer c templ s = Inr ((with_player c templ s)\<lparr>srv_sent := srv_sent s @
    map (\<lambda>(d, _). (d, ClientAddDrawableMsg (m_next_id s) templ)) (m_clients (with_player c templ s))\<rparr>)"
proof -
  have "d \<noteq> 0 \<and> d \<in> set (srv_live s)" if "(d, i) \<in> set (map_insert c (m_next_id s) (m_clients s))" for d i
  proof -
    from that have "d \<in> insert c (fst ` set (m_clients s))"
      using map_insert_keys [of c "m_next_id s" "m_clients s"] by force
    with assms show ?thesis by (auto simp: live_client_def clients_live_def everybody_def)
  qed
  then show ?thesis
    unfolding loadPlayer_push by (subst push_all_live) (auto simp: with_player_def)
qed

lemma pushClientTransforms_live:
  assumes "clients_live s"
  shows "pushClientTransforms ct s = Inr (s\<lparr>srv_sent := srv_sent s @
    concat (map (\<lambda>(i, mat). map (\<lambda>c. (c, ClientTransDrawableMsg i (Some mat))) (everybody s)) ct)\<rparr>)"
  using assms unfolding pushClientTransforms_def
proof (induction ct arbitrary: s)
  case (Cons p ct)
  obtain i mat where p: "p = (i, mat)" by (cases p)
  have "clients_live (s\<lparr>srv_sent := x\<rparr>)" for x
    using Cons.prems by (simp add: clients_live_def)
  with Cons show ?case by (simp add: p push_everybody)
qed simp

section \<open>The server under all its threads\<close>

text \<open>
  One step is one call under the clients mutex, by whichever thread makes it: the network thread creates
  a client object, adds it, removes it and deletes it; the server thread loads players and forwards
  input; the physics thread looks identifiers up, distributes transforms and runs the tick callbacks.
\<close>

datatype server_op =
    OpCreate ptr
  | OpAdd ptr
  | OpRemove ptr
  | OpDelete ptr
  | OpLoad ptr string
  | OpGetId ptr
  | OpTransforms "(oid \<times> float_bits list) list"
  | OpTick

fun server_step :: "server_op \<Rightarrow> ('f, 'w) server \<Rightarrow> fault + ('f, 'w) server" where
  "server_step (OpCreate c) s = Inr (s\<lparr>srv_live := set_insert c (srv_live s)\<rparr>)"
| "server_step (OpAdd c) s = addClient c s"
| "server_step (OpRemove c) s = removeClient c s"
| "server_step (OpDelete c) s = Inr (s\<lparr>srv_live := set_erase c (srv_live s)\<rparr>)"
| "server_step (OpLoad c t) s = loadPlayer c t s"
| "server_step (OpGetId c) s = Inr (snd (getClientId c s))"
| "server_step (OpTransforms ct) s = pushClientTransforms ct s"
| "server_step OpTick s = Inr (runTickCallbacks s)"

definition server_steps :: "server_op list \<Rightarrow> ('f, 'w) server \<Rightarrow> fault + ('f, 'w) server" where
  "server_steps = fold_res server_step"

lemma server_steps_simps [simp]:
  "server_steps [] s = Inr s"
  "server_steps (x # ops) s = res_bind (server_step x s) (server_steps ops)"
  by (simp_all add: server_steps_def)

text \<open>The changes of a step that succeeds, whoever is alive.\<close>

lemma step_add: "server_step (OpAdd c) s = Inr s' \<Longrightarrow>
    \<exists>x. s' = s\<lparr>srv_sent := x, m_lobby_clients := set_insert c (m_lobby_clients s)\<rparr>"
  by (auto simp: addClient_def res_bind_eq_Inr dest!: push_all_Inr)

lemma step_remove: "server_step (OpRemove c) s = Inr s' \<Longrightarrow>
    \<exists>x p. (p = m_physics s \<or> (\<exists>i. p = delPhysical i True (m_physics s))) \<and>
      s' = s\<lparr>m_clients := map_erase c (m_clients s), m_lobby_clients := set_erase c (m_lobby_clients s),
        m_physics := p, srv_sent := x\<rparr>"
proof -
  assume step: "server_step (OpRemove c) s = Inr s'"
  let ?s = "s\<lparr>m_clients := map_erase c (m_clients s), m_lobby_clients := set_erase c (m_lobby_clients s)\<rparr>"
  have "s' = ?s \<or> (\<exists>i x. s' = ?s\<lparr>m_physics := delPhysical i True (m_physics s), srv_sent := x\<rparr>)"
    using step
    by (auto simp: removeClient_def map_index_def Let_def split: option.splits if_splits dest!: push_all_Inr)
  then show ?thesis
  proof
    assume "s' = ?s"
    then show ?thesis by (intro exI [of _ "srv_sent s"] exI [of _ "m_physics s"]) simp
  qed blast
qed

lemma step_load: "server_step (OpLoad c t) s = Inr s' \<Longrightarrow> \<exists>x. s' = (with_player c t s)\<lparr>srv_sent := x\<rparr>"
  by (auto simp: loadPlayer_push dest!: push_all_Inr)

lemma step_transforms: "server_step (OpTransforms ct) s = Inr s' \<Longrightarrow> \<exists>x. s' = s\<lparr>srv_sent := x\<rparr>"
proof (simp add: pushClientTransforms_def)
  assume run: "fold_res (\<lambda>(i, mat) s. push_all (map (\<lambda>c. (c, ClientTransDrawableMsg i (Some mat))) (everybody s)) s)
      ct s = Inr s'"
  show ?thesis
  proof (rule fold_res_invariant [OF run, where I = "\<lambda>u. \<exists>x. u = s\<lparr>srv_sent := x\<rparr>"])
    show "\<exists>x. s = s\<lparr>srv_sent := x\<rparr>" by (rule exI [of _ "srv_sent s"]) simp
  qed (auto dest!: push_all_Inr)
qed

lemma tick_frame [simp]:
  "m_clients (runTickCallbacks s) = m_clients s"
  "m_lobby_clients (runTickCallbacks s) = m_lobby_clients s"
  "m_next_id (runTickCallbacks s) = m_next_id s"
  "m_baddies (runTickCallbacks s) = m_baddies s"
  "srv_live (runTickCallbacks s) = srv_live s"
  "srv_sent (runTickCallbacks s) = srv_sent s"
  "srv_closed (runTickCallbacks s) = srv_closed s"
  "everybody (runTickCallbacks s) = everybody s"
  by (simp_all add: runTickCallbacks_def Let_def everybody_def)

lemma getClientId_state:
  "snd (getClientId c s) =
     (if map_find c (m_clients s) = None then s\<lparr>m_clients := map_put c 0 (m_clients s)\<rparr> else s)"
  by (auto simp: getClientId_def map_index_def split: option.split)

lemma with_player_simps [simp]:
  "m_clients (with_player c t s) = map_insert c (m_next_id s) (m_clients s)"
  "m_lobby_clients (with_player c t s) = set_erase c (m_lobby_clients s)"
  "m_next_id (with_player c t s) = m_next_id s + 1"
  "m_baddies (with_player c t s) = m_baddies s"
  "m_physics (with_player c t s) =
     addPhysical (m_next_id s) t (value_ptr (m_player_spawn s)) True (m_physics s)"
  "srv_live (with_player c t s) = srv_live s"
  "srv_sent (with_player c t s) = srv_sent s"
  by (simp_all add: with_player_def)

lemma callbacks_frame [simp]:
  "ph_objects (fold (\<lambda>(_, i). setInputStateCallback i st) bs p) = ph_objects p"
  "ph_queue (fold (\<lambda>(_, i). setInputStateCallback i st) bs p) = ph_queue p"
  "ph_world (fold (\<lambda>(_, i). setInputStateCallback i st) bs p) = ph_world p"
  by (induction bs arbitrary: p) (auto simp: case_prod_unfold)

lemma callbacks_ok [simp]:
  "map_ok (ph_characters p) \<Longrightarrow>
    map_ok (ph_characters (fold (\<lambda>(_, i). setInputStateCallback i st) bs p))"
  by (induction bs arbitrary: p) (auto simp: case_prod_unfold)

lemma server_ok_step:
  assumes step: "server_step op s = Inr s'" and ok: "server_ok s"
  shows "server_ok s'"
proof (cases op)
  case (OpAdd c)
  with step step_add [of c s s'] ok show ?thesis by (auto simp: server_ok_def)
next
  case (OpRemove c)
  with step step_remove [of c s s'] ok show ?thesis by (auto simp: server_ok_def)
next
  case (OpLoad c t)
  with step step_load [of c t s s'] ok show ?thesis by (auto simp: server_ok_def)
next
  case (OpTransforms ct)
  with step step_transforms [of ct s s'] ok show ?thesis by (auto simp: server_ok_def)
next
  case OpTick
  with step ok show ?thesis
    by (auto simp: server_ok_def runTickCallbacks_def Let_def)
next
  case (OpGetId c)
  with step ok show ?thesis by (auto simp: server_ok_def getClientId_state)
qed (use step ok in \<open>auto simp: server_ok_def\<close>)

section \<open>Identifiers\<close>

text \<open>
  Identifiers in use are below the counter; a nonzero one belongs to one player or one baddie. A client
  entered by \<open>getClientId\<close> has identifier 0, which is nobody's.
\<close>

definition ids_inv :: "('f, 'w) server \<Rightarrow> bool" where
  "ids_inv s \<longleftrightarrow>
     0 < unat (m_next_id s) \<and>
     (\<forall>c i. map_find c (m_clients s) = Some i \<longrightarrow> unat i < unat (m_next_id s)) \<and>
     (\<forall>t i. (t, i) \<in> set (m_baddies s) \<longrightarrow> i \<noteq> 0 \<and> unat i < unat (m_next_id s)) \<and>
     (\<forall>c d i. map_find c (m_clients s) = Some i \<and> map_find d (m_clients s) = Some i \<and> i \<noteq> 0 \<longrightarrow> c = d) \<and>
     (\<forall>c t i. map_find c (m_clients s) = Some i \<longrightarrow> (t, i) \<notin> set (m_baddies s))"

lemma ids_invI:
  assumes "0 < unat (m_next_id s)"
    and "\<And>c i. map_find c (m_clients s) = Some i \<Longrightarrow> unat i < unat (m_next_id s)"
    and "\<And>t i. (t, i) \<in> set (m_baddies s) \<Longrightarrow> i \<noteq> 0 \<and> unat i < unat (m_next_id s)"
    and "\<And>c d i. map_find c (m_clients s) = Some i \<Longrightarrow> map_find d (m_clients s) = Some i \<Longrightarrow> i \<noteq> 0 \<Longrightarrow> c = d"
    and "\<And>c t i. map_find c (m_clients s) = Some i \<Longrightarrow> (t, i) \<notin> set (m_baddies s)"
  shows "ids_inv s"
  using assms unfolding ids_inv_def by blast

lemma ids_invD:
  assumes "ids_inv s"
  shows "0 < unat (m_next_id s)"
    and "map_find c (m_clients s) = Some i \<Longrightarrow> unat i < unat (m_next_id s)"
    and "(t, i) \<in> set (m_baddies s) \<Longrightarrow> i \<noteq> 0 \<and> unat i < unat (m_next_id s)"
    and "map_find c (m_clients s) = Some i \<Longrightarrow> map_find d (m_clients s) = Some i \<Longrightarrow> i \<noteq> 0 \<Longrightarrow> c = d"
    and "map_find c (m_clients s) = Some i \<Longrightarrow> (t, i) \<notin> set (m_baddies s)"
  using assms unfolding ids_inv_def by blast+

lemma ids_inv_frame [simp]:
  "ids_inv (s\<lparr>m_lobby_clients := l\<rparr>) = ids_inv s"
  "ids_inv (s\<lparr>srv_sent := x\<rparr>) = ids_inv s"
  "ids_inv (s\<lparr>srv_live := y\<rparr>) = ids_inv s"
  "ids_inv (s\<lparr>m_physics := p\<rparr>) = ids_inv s"
  "ids_inv (runTickCallbacks s) = ids_inv s"
  by (simp_all add: ids_inv_def)

lemma ids_inv_load:
  assumes inv: "ids_inv s" and ok: "map_ok (m_clients s)" and room: "unat (m_next_id s) + 1 < 2 ^ 32"
  shows "ids_inv (with_player c t s)"
proof (rule ids_invI)
  note D = ids_invD [OF inv]
  have next_id: "unat (m_next_id s + 1) = unat (m_next_id s) + 1" using room by (rule unat_inc_u32)
  have found: "map_find d (m_clients s) = Some i \<or> (d = c \<and> i = m_next_id s)"
    if "map_find d (m_clients (with_player c t s)) = Some i" for d i
    using that ok by (auto simp: map_find_insert split: if_splits)
  show "0 < unat (m_next_id (with_player c t s))" using next_id by simp
  show "unat i < unat (m_next_id (with_player c t s))"
    if "map_find d (m_clients (with_player c t s)) = Some i" for d i
    using found [OF that] D(2) [of d i] next_id by auto
  show "i \<noteq> 0 \<and> unat i < unat (m_next_id (with_player c t s))"
    if "(tm, i) \<in> set (m_baddies (with_player c t s))" for tm i
    using that D(3) [of tm i] next_id by auto
  show "d = e" if "map_find d (m_clients (with_player c t s)) = Some i"
    "map_find e (m_clients (with_player c t s)) = Some i" "i \<noteq> 0" for d e i
    using found [OF that(1)] found [OF that(2)] D(2) [of d i] D(2) [of e i] D(4) [of d i e] that(3) by auto
  show "(tm, i) \<notin> set (m_baddies (with_player c t s))"
    if "map_find d (m_clients (with_player c t s)) = Some i" for d tm i
    using found [OF that] D(5) [of d i tm] D(3) [of tm i] by auto
qed

lemma ids_inv_erase: "ids_inv s \<Longrightarrow> ids_inv (s\<lparr>m_clients := map_erase c (m_clients s)\<rparr>)"
  unfolding ids_inv_def by (auto simp: map_find_erase split: if_splits)

lemma ids_inv_lookup:
  assumes "ids_inv s" and "map_ok (m_clients s)" and "map_find c (m_clients s) = None"
  shows "ids_inv (s\<lparr>m_clients := map_put c 0 (m_clients s)\<rparr>)"
proof (rule ids_invI)
  note D = ids_invD [OF assms(1)]
  have found: "map_find d (m_clients s) = Some i \<or> i = 0"
    if "map_find d (map_put c 0 (m_clients s)) = Some i" for d i
    using that assms(2) by (auto simp: map_find_put split: if_splits)
  let ?s = "s\<lparr>m_clients := map_put c 0 (m_clients s)\<rparr>"
  show "0 < unat (m_next_id ?s)" using D(1) by simp
  show "unat i < unat (m_next_id ?s)" if "map_find d (m_clients ?s) = Some i" for d i
    using found [of d i] that D(1) D(2) [of d i] by auto
  show "i \<noteq> 0 \<and> unat i < unat (m_next_id ?s)" if "(t, i) \<in> set (m_baddies ?s)" for t i
    using that D(3) [of t i] by auto
  show "d = e" if "map_find d (m_clients ?s) = Some i" "map_find e (m_clients ?s) = Some i" "i \<noteq> 0" for d e i
    using found [of d i] found [of e i] that D(4) [of d i e] by auto
  show "(t, i) \<notin> set (m_baddies ?s)" if "map_find d (m_clients ?s) = Some i" for d t i
    using found [of d i] that D(3) [of t 0] D(5) [of d i t] by auto
qed

fun is_load :: "server_op \<Rightarrow> bool" where
  "is_load (OpLoad _ _) = True"
| "is_load _ = False"

lemma ids_step:
  assumes step: "server_step op s = Inr s'" and ok: "server_ok s" and inv: "ids_inv s"
    and room: "is_load op \<Longrightarrow> unat (m_next_id s) + 1 < 2 ^ 32"
  shows "ids_inv s' \<and> unat (m_next_id s') = unat (m_next_id s) + (if is_load op then 1 else 0)"
proof (cases op)
  case (OpAdd c)
  with step step_add [of c s s'] obtain x where
    "s' = s\<lparr>srv_sent := x, m_lobby_clients := set_insert c (m_lobby_clients s)\<rparr>" by auto
  with inv OpAdd show ?thesis by simp
next
  case (OpRemove c)
  with step step_remove [of c s s'] obtain x p where
    s': "s' = s\<lparr>m_clients := map_erase c (m_clients s), m_lobby_clients := set_erase c (m_lobby_clients s),
        m_physics := p, srv_sent := x\<rparr>" by auto
  have "s' = s\<lparr>m_clients := map_erase c (m_clients s)\<rparr>\<lparr>m_lobby_clients := set_erase c (m_lobby_clients s),
        m_physics := p, srv_sent := x\<rparr>" using s' by simp
  with ids_inv_erase [OF inv, of c] OpRemove show ?thesis by simp
next
  case (OpLoad c t)
  with step obtain x where s': "s' = (with_player c t s)\<lparr>srv_sent := x\<rparr>" using step_load by blast
  have "ids_inv (with_player c t s)"
    using ids_inv_load [OF inv] ok room OpLoad by (simp add: server_ok_def)
  with s' room OpLoad show ?thesis by (simp add: unat_inc_u32)
next
  case (OpTransforms ct)
  with step step_transforms [of ct s s'] obtain x where "s' = s\<lparr>srv_sent := x\<rparr>" by auto
  with inv OpTransforms show ?thesis by simp
next
  case OpTick
  with step inv show ?thesis by auto
next
  case (OpGetId c)
  with step inv ok ids_inv_lookup [of s c] show ?thesis
    by (auto simp: getClientId_state server_ok_def)
qed (use step inv in auto)

lemma ids_steps:
  assumes "server_steps ops s = Inr s'" and "server_ok s" and "ids_inv s"
    and "unat (m_next_id s) + length (filter is_load ops) < 2 ^ 32"
  shows "server_ok s' \<and> ids_inv s' \<and> unat (m_next_id s') = unat (m_next_id s) + length (filter is_load ops)"
  using assms
proof (induction ops arbitrary: s)
  case (Cons x ops)
  then obtain s1 where step: "server_step x s = Inr s1" and rest: "server_steps ops s1 = Inr s'"
    by (auto simp: res_bind_eq_Inr)
  have ok1: "server_ok s1" using server_ok_step [OF step Cons.prems(2)] .
  have ids1: "ids_inv s1 \<and> unat (m_next_id s1) = unat (m_next_id s) + (if is_load x then 1 else 0)"
    using Cons.prems(4) by (intro ids_step [OF step Cons.prems(2,3)]) auto
  then have "unat (m_next_id s1) + length (filter is_load ops) < 2 ^ 32"
    using Cons.prems(4) by (auto split: if_splits)
  with Cons.IH [OF rest ok1] ids1 show ?case by auto
qed simp

lemma server_init_inv: "server_ok (server_init w)" "ids_inv (server_init w)" "clients_live (server_init w)"
  by (simp_all add: server_ok_def ids_inv_def clients_live_def everybody_def server_init_def)

section \<open>Dangling clients\<close>

text \<open>
  The discipline under which no call reaches a client that is gone: messages and lookups on behalf of a
  client are handled while it exists, and it is deleted only when the server no longer lists it.
\<close>

fun op_disciplined :: "server_op \<Rightarrow> ('f, 'w) server \<Rightarrow> bool" where
  "op_disciplined (OpAdd c) s = live_client c s"
| "op_disciplined (OpLoad c t) s = live_client c s"
| "op_disciplined (OpGetId c) s = live_client c s"
| "op_disciplined (OpDelete c) s = (c \<notin> set (everybody s))"
| "op_disciplined _ s = True"

fun disciplined :: "server_op list \<Rightarrow> ('f, 'w) server \<Rightarrow> bool" where
  "disciplined [] s = True"
| "disciplined (x # ops) s =
     (op_disciplined x s \<and> (case server_step x s of Inl _ \<Rightarrow> True | Inr s' \<Rightarrow> disciplined ops s'))"

lemma clients_liveI:
  "(\<And>c. c \<in> set (everybody s) \<Longrightarrow> c \<noteq> 0 \<and> c \<in> set (srv_live s)) \<Longrightarrow> clients_live s"
  by (simp add: clients_live_def)

lemma everybody_put: "set (everybody (s\<lparr>m_clients := map_put c i (m_clients s)\<rparr>)) = insert c (set (everybody s))"
  by (auto simp: everybody_def)

lemma everybody_player: "set (everybody (with_player c t s)) \<subseteq> insert c (set (everybody s))"
  using map_insert_keys [of c "m_next_id s" "m_clients s"]
  by (fastforce simp: everybody_def with_player_def)

lemma clients_live_step:
  assumes live: "clients_live s" and op: "op_disciplined x s"
  shows "\<exists>s'. server_step x s = Inr s' \<and> clients_live s'"
proof (cases x)
  case (OpAdd c)
  with live op show ?thesis
    by (auto simp: addClient_live clients_live_def live_client_def everybody_def)
next
  case (OpRemove c)
  with live show ?thesis
    by (auto simp: removeClient_live clients_live_def everybody_def Let_def set_map_erase split: option.splits)
next
  case (OpDelete c)
  with live op show ?thesis
    by (auto simp: clients_live_def everybody_def)
next
  case (OpLoad c t)
  with live op have "server_step x s = Inr ((with_player c t s)\<lparr>srv_sent := srv_sent s @
      map (\<lambda>(d, _). (d, ClientAddDrawableMsg (m_next_id s) t)) (m_clients (with_player c t s))\<rparr>)"
    by (simp only: server_step.simps loadPlayer_live op_disciplined.simps)
  moreover have "clients_live (with_player c t s)"
  proof (rule clients_liveI)
    fix d
    assume "d \<in> set (everybody (with_player c t s))"
    then have "d = c \<or> d \<in> set (everybody s)" using everybody_player [of c t s] by auto
    with live op OpLoad show "d \<noteq> 0 \<and> d \<in> set (srv_live (with_player c t s))"
      by (auto simp: clients_live_def live_client_def)
  qed
  ultimately show ?thesis by (simp add: clients_live_def)
next
  case (OpGetId c)
  with live op everybody_put [of c 0 s] show ?thesis
    by (auto simp: getClientId_state clients_live_def live_client_def)
next
  case (OpTransforms ct)
  with live show ?thesis by (simp add: pushClientTransforms_live clients_live_def)
qed (use live in \<open>auto simp: clients_live_def everybody_def\<close>)

lemma disciplined_run:
  "clients_live s \<Longrightarrow> disciplined ops s \<Longrightarrow> \<exists>s'. server_steps ops s = Inr s' \<and> clients_live s'"
proof (induction ops arbitrary: s)
  case (Cons x ops)
  then obtain s1 where "server_step x s = Inr s1" and "clients_live s1"
    using clients_live_step [of s x] by auto
  with Cons show ?case by simp
qed simp

section \<open>Properties\<close>

text \<open>
  Identifiers are never shared: after any sequence of client, player and physics calls that loads
  fewer than \<open>2^32 - 1\<close> players, every identifier in use is below the counter, a nonzero identifier
  belongs to one client only, and no client has the identifier of a baddie; the containers keep their
  order invariant.
\<close>

lemma server_identifiers_unique:
  assumes "server_steps ops (server_init w) = Inr s" and "length (filter is_load ops) < 2 ^ 32 - 1"
  shows "server_ok s \<and>
    (\<forall>c d i. map_find c (m_clients s) = Some i \<and> map_find d (m_clients s) = Some i \<and> i \<noteq> 0 \<longrightarrow> c = d) \<and>
    (\<forall>c i. map_find c (m_clients s) = Some i \<longrightarrow>
      unat i < unat (m_next_id s) \<and> i \<notin> snd ` set (m_baddies s))"
proof -
  have "unat (m_next_id (server_init w)) + length (filter is_load ops) < 2 ^ 32"
    using assms(2) by (simp add: server_init_def)
  from ids_steps [OF assms(1) server_init_inv(1,2) this] have "server_ok s" and inv: "ids_inv s" by auto
  moreover note ids_invD(2,4,5) [OF inv]
  ultimately show ?thesis by fastforce
qed

lemma server_identifiers_unique_witness:
  "\<exists>s. server_steps [OpCreate 8, OpCreate 9, OpAdd 8, OpAdd 9, OpLoad 9 ''Player'', OpLoad 8 ''Player'']
       (server_init () :: (int, unit) server) = Inr s \<and>
     map_find 8 (m_clients s) = Some 2 \<and> map_find 9 (m_clients s) = Some 1 \<and> server_ok s"
proof -
  let ?ops = "[OpCreate 8, OpCreate 9, OpAdd 8, OpAdd 9, OpLoad 9 ''Player'', OpLoad 8 ''Player'']"
  obtain s where run: "server_steps ?ops (server_init () :: (int, unit) server) = Inr s"
    and "map_find 8 (m_clients s) = Some 2" "map_find 9 (m_clients s) = Some 1"
    by (simp add: server_init_def addClient_def loadPlayer_def getNextIdentifier_def Let_def
        push_all_def push_client_def call_client_def set_insert_def set_erase_def map_insert_def
        map_find_Cons)
  moreover have "server_ok s" using server_identifiers_unique [OF run] by simp
  ultimately show ?thesis by blast
qed

end
