(* ===== verification/ServerProperties.thy ===== *)
theory ServerProperties
  imports LocalServer
begin

text \<open>
  What \<open>LocalServer\<close> guarantees to its clients and its physics, and where it does not: announcements,
  players, removal, transforms, the strafing of the baddies, the end of the server loop, and the messages
  that outlive their sender.
\<close>

section \<open>Memory safety of the client list\<close>



text \<open>
  The discipline is not enforced. A client whose player request, or whose input, is still queued when
  its connection is removed and the client object deleted makes the server use the deleted object: the
  request at once, the input at the next distribution of transforms, because \<open>getClientId\<close> enters the
  unknown pointer into the client map.
\<close>

lemma stale_message_uses_deleted_client:
  assumes "c \<noteq> 0"
  shows "server_steps [OpCreate c, OpAdd c, OpRemove c, OpDelete c, OpLoad c templ] (server_init w) =
      Inl UseAfterFree \<and>
    server_steps [OpCreate c, OpAdd c, OpRemove c, OpDelete c, OpGetId c, OpTransforms [(i, mat)]]
      (server_init w) = Inl UseAfterFree"
  using assms
  by (simp_all add: server_init_def addClient_def removeClient_def loadPlayer_def getNextIdentifier_def
      getClientId_def pushClientTransforms_def everybody_def map_index_def map_insert_def map_erase_def
      set_insert_def set_erase_def push_all_def push_client_def call_client_def)

lemma stale_message_uses_deleted_client_witness:
  "server_steps [OpCreate 8, OpAdd 8, OpRemove 8, OpDelete 8, OpLoad 8 ''Player'']
     (server_init () :: (int, unit) server) = Inl UseAfterFree"
  by (rule stale_message_uses_deleted_client [THEN conjunct1]) simp

section \<open>Announcements and players\<close>

text \<open>
  Adding a client tells it, and nobody else, of every player and then every baddie, once each and in
  the order of the containers; the client joins the lobby and nothing else changes.
\<close>

lemma add_client_announces_world:
  assumes "live_client c s"
  shows "addClient c s = Inr (s\<lparr>
      srv_sent := srv_sent s @ map (Pair c) (announcements s),
      m_lobby_clients := set_insert c (m_lobby_clients s)\<rparr>)"
  using assms by (rule addClient_live)

lemma add_client_announces_world_witness:
  "\<exists>s :: (int, unit) server. live_client 8 s \<and>
     map_option srv_sent (case addClient 8 s of Inl _ \<Rightarrow> None | Inr s' \<Rightarrow> Some s') =
       Some [(8, ClientAddDrawableMsg 3 ''Player''), (8, ClientAddDrawableMsg 1 ''Baddie'')]"
proof -
  let ?s = "(server_init () :: (int, unit) server)
    \<lparr>srv_live := [8, 9], m_clients := [(9, 3)], m_baddies := [(''Baddie'', 1)]\<rparr>"
  have l: "live_client 8 ?s" by (simp add: live_client_def)
  from add_client_announces_world [OF this] l show ?thesis
    by (intro exI [of _ ?s]) (simp add: announcements_def server_init_def)
qed



text \<open>
  A client the map already lists, because it has a player or because \<open>getClientId\<close> has entered it with
  identifier 0, keeps its old identifier when it asks for a player: the new character is queued under an
  identifier that no client has, so neither input nor removal of any client will ever reach it.
\<close>

lemma repeated_load_orphans_character:
  assumes "clients_live s" and "live_client c s" and "server_ok s" and "ids_inv s"
    and "map_find c (m_clients s) = Some i"
  shows "\<exists>s'. loadPlayer c templ s = Inr s' \<and> m_clients s' = m_clients s \<and>
    ph_queue (m_physics s') =
      AddCharObjMsg (m_next_id s) templ (value_ptr (m_player_spawn s)) # ph_queue (m_physics s) \<and>
    (\<forall>d. map_find d (m_clients s') \<noteq> Some (m_next_id s))"
proof -
  have "map_find d (m_clients s) \<noteq> Some (m_next_id s)" for d
    using ids_invD(2) [OF assms(4), of d "m_next_id s"] by auto
  with loadPlayer_live [OF assms(1,2), of templ] assms(5) show ?thesis
    by (simp add: map_insert_def)
qed

lemma repeated_load_orphans_character_witness:
  "\<exists>(s :: (int, unit) server) s'. loadPlayer 9 ''Player'' s = Inr s' \<and> map_find 9 (m_clients s') = Some 3 \<and>
    AddCharObjMsg 4 ''Player'' (value_ptr mat4_identity) \<in> set (ph_queue (m_physics s'))"
proof -
  let ?s = "(server_init () :: (int, unit) server)
    \<lparr>srv_live := [9], m_clients := [(9, 3)], m_next_id := 4\<rparr>"
  have "clients_live ?s" "live_client 9 ?s" "server_ok ?s" "map_find 9 (m_clients ?s) = Some 3"
    by (auto simp: clients_live_def live_client_def server_ok_def everybody_def server_init_def
        map_ok_def map_find_Cons)
  moreover have "ids_inv ?s" by (simp add: ids_inv_def server_init_def map_find_Cons)
  ultimately obtain s' where "loadPlayer 9 ''Player'' ?s = Inr s'" "m_clients s' = m_clients ?s"
    "ph_queue (m_physics s') = AddCharObjMsg 4 ''Player'' (value_ptr mat4_identity) # ph_queue (m_physics ?s)"
    using repeated_load_orphans_character [of ?s 9 3 "''Player''"] by (auto simp: server_init_def)
  then show ?thesis by (intro exI [of _ ?s] exI [of _ s']) (simp add: map_find_Cons)
qed



text \<open>
  A client that joins, gets a player and leaves again leaves nothing behind in the client map or the
  lobby, and the physics is asked to add and then to delete one and the same character.
\<close>

lemma join_play_leave_restores:
  assumes "clients_live s" and "live_client c s" and "server_ok s" and "ids_inv s"
    and "c \<notin> set (everybody s)"
  shows "\<exists>s'. server_steps [OpAdd c, OpLoad c templ, OpRemove c] s = Inr s' \<and>
    m_clients s' = m_clients s \<and> m_lobby_clients s' = m_lobby_clients s \<and>
    ph_queue (m_physics s') =
      DelCharObjMsg (m_next_id s) # AddCharObjMsg (m_next_id s) templ (value_ptr (m_player_spawn s)) #
      ph_queue (m_physics s)"
proof -
  let ?s1 = "s\<lparr>srv_sent := srv_sent s @ map (Pair c) (announcements s),
      m_lobby_clients := set_insert c (m_lobby_clients s)\<rparr>"
  have add: "addClient c s = Inr ?s1" using assms(2) by (rule addClient_live)
  have live1: "clients_live ?s1" and c1: "live_client c ?s1"
    using assms(1,2) by (auto simp: clients_live_def live_client_def everybody_def)
  obtain s2 where s2: "loadPlayer c templ ?s1 = Inr s2" and s2_eq:
    "s2 = (with_player c templ ?s1)\<lparr>srv_sent := srv_sent ?s1 @ map (\<lambda>(d, _).
        (d, ClientAddDrawableMsg (m_next_id ?s1) templ)) (m_clients (with_player c templ ?s1))\<rparr>"
    using loadPlayer_live [OF live1 c1] by blast
  have none: "map_find c (m_clients s) = None" and lobby: "c \<notin> set (m_lobby_clients s)"
    using assms(5) by (auto simp: in_everybody)
  have "\<exists>s'. server_step (OpLoad c templ) ?s1 = Inr s' \<and> clients_live s'"
    using live1 c1 by (intro clients_live_step) auto
  with s2 have live2: "clients_live s2" by simp
  have found: "map_find c (m_clients s2) = Some (m_next_id s)"
    using none assms(3) by (simp add: s2_eq map_find_insert server_ok_def)
  have next_id: "m_next_id s \<noteq> 0" using ids_invD(1) [OF assms(4)] by auto
  have erase: "map_erase c (m_clients s2) = m_clients s"
    using none by (simp add: s2_eq map_insert_def map_erase_absent)
  have lob: "set_erase c (m_lobby_clients s2) = m_lobby_clients s"
    using lobby by (auto simp: s2_eq set_insert_def set_erase_def filter_insort_triv filter_id_conv)
  from removeClient_live [OF live2, of c] found next_id erase lob
  have "\<exists>s'. removeClient c s2 = Inr s' \<and> m_clients s' = m_clients s \<and> m_lobby_clients s' = m_lobby_clients s \<and>
      ph_queue (m_physics s') = DelCharObjMsg (m_next_id s) # ph_queue (m_physics s2)"
    by (simp add: Let_def)
  with add s2 show ?thesis by (auto simp: s2_eq)
qed

lemma join_play_leave_restores_witness:
  "\<exists>s'. server_steps [OpAdd 8, OpLoad 8 ''Player'', OpRemove 8]
      ((server_init () :: (int, unit) server)\<lparr>srv_live := [8]\<rparr>) = Inr s' \<and> m_clients s' = []"
proof -
  let ?s = "(server_init () :: (int, unit) server)\<lparr>srv_live := [8]\<rparr>"
  have "clients_live ?s" "live_client 8 ?s" "server_ok ?s" "8 \<notin> set (everybody ?s)"
    by (auto simp: clients_live_def live_client_def server_ok_def everybody_def server_init_def)
  moreover have "ids_inv ?s" using server_init_inv(2) [of "()"] by simp
  ultimately show ?thesis
    using join_play_leave_restores [of ?s 8 "''Player''"] by (auto simp: server_init_def)
qed

section \<open>The physics callbacks\<close>

text \<open>The messages a client has been sent; a client that is a player is not in the lobby.\<close>

definition messages_to :: "ptr \<Rightarrow> ('f, 'w) server \<Rightarrow> client_msg list" where
  "messages_to c s = map snd (filter (\<lambda>p. fst p = c) (srv_sent s))"

definition separate :: "('f, 'w) server \<Rightarrow> bool" where
  "separate s \<longleftrightarrow> (\<forall>c \<in> set (m_lobby_clients s). map_find c (m_clients s) = None)"

lemma distinct_everybody: "server_ok s \<Longrightarrow> separate s \<Longrightarrow> distinct (everybody s)"
  using map_ok_distinct [of "m_clients s"]
  by (auto simp: server_ok_def everybody_def set_ok_def separate_def map_find_None_iff)

lemma filter_pairs_distinct:
  "distinct xs \<Longrightarrow> c \<in> set xs \<Longrightarrow> filter (\<lambda>p. fst p = c) (map (\<lambda>d. (d, m)) xs) = [(c, m)]"
  by (induction xs) (auto simp: filter_empty_conv)

lemma filter_transforms:
  assumes "distinct xs" and "c \<in> set xs"
  shows "map snd (filter (\<lambda>p. fst p = c) (concat (map (\<lambda>(i, mat). map (\<lambda>d. (d, f i mat)) xs) ct))) =
    map (\<lambda>(i, mat). f i mat) ct"
  by (induction ct) (auto simp: filter_pairs_distinct [OF assms])

text \<open>
  A distribution of transforms reaches every client, player or lobby, exactly once per object, with
  the objects in the order of the list, and changes nothing else in the server.
\<close>

lemma transforms_reach_everybody:
  assumes "clients_live s" and "server_ok s" and "separate s"
  shows "\<exists>s'. pushClientTransforms ct s = Inr s' \<and> s' = s\<lparr>srv_sent := srv_sent s'\<rparr> \<and>
    (\<forall>c. messages_to c s' = messages_to c s @
      (if c \<in> set (everybody s) then map (\<lambda>(i, mat). ClientTransDrawableMsg i (Some mat)) ct else []))"
proof -
  let ?new = "concat (map (\<lambda>(i, mat). map (\<lambda>c. (c, ClientTransDrawableMsg i (Some mat))) (everybody s)) ct)"
  have "filter (\<lambda>p. fst p = c) ?new = []" if "c \<notin> set (everybody s)" for c
    using that by (induction ct) (auto simp: filter_empty_conv)
  then show ?thesis
    using pushClientTransforms_live [OF assms(1), of ct]
      filter_transforms [OF distinct_everybody [OF assms(2,3)], of _ "\<lambda>i mat. ClientTransDrawableMsg i (Some mat)" ct]
    by (simp add: messages_to_def)
qed

lemma transforms_reach_everybody_witness:
  "\<exists>(s :: (int, unit) server) s'. pushClientTransforms [(3, [1, 2])] s = Inr s' \<and>
    messages_to 7 s' = [ClientTransDrawableMsg 3 (Some [1, 2])] \<and>
    messages_to 9 s' = [ClientTransDrawableMsg 3 (Some [1, 2])]"
proof -
  let ?s = "(server_init () :: (int, unit) server)
    \<lparr>srv_live := [7, 9], m_clients := [(9, 3)], m_lobby_clients := [7]\<rparr>"
  have "clients_live ?s" "server_ok ?s" "separate ?s"
    by (auto simp: clients_live_def server_ok_def separate_def everybody_def server_init_def
        map_ok_def set_ok_def map_find_Cons)
  from transforms_reach_everybody [OF this, of "[(3, [1, 2])]"] show ?thesis
    by (fastforce simp: messages_to_def everybody_def server_init_def)
qed

text \<open>The strafing direction of the baddies after \<open>n\<close> more ticks from tick \<open>k\<close>.\<close>

definition baddie_state :: "nat \<Rightarrow> u16" where
  "baddie_state k = (if k mod 40 < 20 then StrafeLeft else StrafeRight)"

lemma tick_counter:
  assumes "unat (m_ticks s) < 40"
  shows "unat (m_ticks (runTickCallbacks s)) = (unat (m_ticks s) + 1) mod 40"
proof -
  have inc: "unat (m_ticks s + 1) = unat (m_ticks s) + 1" using assms by (intro unat_inc_u32) simp
  show ?thesis
  proof (cases "m_ticks s + 1 = 40")
    case True
    then have "unat (m_ticks s) + 1 = 40" using inc by simp
    with True show ?thesis by (simp add: runTickCallbacks_def)
  next
    case False
    then have "unat (m_ticks s + 1) \<noteq> unat (40 :: u32)" using word_unat_eq_iff by blast
    then have "unat (m_ticks s) + 1 \<noteq> 40" using inc by simp
    with assms False inc show ?thesis by (simp add: runTickCallbacks_def Let_def)
  qed
qed

lemma callbacks_find:
  "map_ok (ph_characters p) \<Longrightarrow>
    map_find j (ph_characters (fold (\<lambda>(_, i). setInputStateCallback i st) bs p)) =
      (if j \<in> snd ` set bs then map_option (ch_state_update (\<lambda>_. st)) (map_find j (ph_characters p))
       else map_find j (ph_characters p))"
  by (induction bs arbitrary: p)
    (auto simp: setInputStateCallback_find case_prod_unfold option.map_comp o_def image_iff)

lemma tick_state:
  assumes "unat (m_ticks s) < 40"
  shows "ph_characters (m_physics (runTickCallbacks s)) =
    ph_characters (fold (\<lambda>(_, i). setInputStateCallback i (baddie_state (unat (m_ticks s) + 1)))
      (m_baddies s) (m_physics s))"
proof -
  have "unat (m_ticks (runTickCallbacks s)) = (unat (m_ticks s) + 1) mod 40"
    using assms by (rule tick_counter)
  moreover have "ph_characters (m_physics (runTickCallbacks s)) =
    ph_characters (fold (\<lambda>(_, i). setInputStateCallback i
      (if m_ticks (runTickCallbacks s) < 20 then StrafeLeft else StrafeRight)) (m_baddies s) (m_physics s))"
    by (simp add: runTickCallbacks_def Let_def)
  ultimately show ?thesis by (simp add: baddie_state_def word_less_nat_alt)
qed

text \<open>
  The tick counter runs through 0 to 39 and starts again, and after any positive number of ticks every
  baddie's character has the input of its phase, left for the first twenty ticks of a period and right
  for the other twenty; every other character keeps its input.
\<close>

lemma baddies_strafe_periodically:
  assumes "unat (m_ticks s) < 40" and "server_ok s"
  shows "let s' = (runTickCallbacks ^^ Suc n) s; k = unat (m_ticks s) + Suc n in
    unat (m_ticks s') = k mod 40 \<and>
    (\<forall>j. map_find j (ph_characters (m_physics s')) =
      (if j \<in> snd ` set (m_baddies s)
       then map_option (ch_state_update (\<lambda>_. baddie_state k)) (map_find j (ph_characters (m_physics s)))
       else map_find j (ph_characters (m_physics s))))"
proof (induction n)
  case 0
  show ?case
    using tick_counter [OF assms(1)] tick_state [OF assms(1)] assms(2)
    by (simp add: callbacks_find server_ok_def)
next
  case (Suc n)
  let ?s = "(runTickCallbacks ^^ Suc n) s"
  have frame: "m_baddies ((runTickCallbacks ^^ k) s) = m_baddies s" for k
    by (induction k) auto
  have ok: "server_ok ((runTickCallbacks ^^ k) s)" for k
    by (induction k) (use assms(2) server_ok_step [of OpTick] in auto)
  from Suc have ticks: "unat (m_ticks ?s) = (unat (m_ticks s) + Suc n) mod 40" by (simp only: Let_def)
  then have less: "unat (m_ticks ?s) < 40" by simp
  have phase: "baddie_state (unat (m_ticks ?s) + 1) = baddie_state (unat (m_ticks s) + Suc (Suc n))"
    unfolding ticks by (simp add: baddie_state_def mod_simps)
  have "unat (m_ticks (runTickCallbacks ?s)) = (unat (m_ticks s) + Suc (Suc n)) mod 40"
    using tick_counter [OF less] ticks by (simp add: mod_simps)
  moreover have "map_find j (ph_characters (m_physics (runTickCallbacks ?s))) =
      (if j \<in> snd ` set (m_baddies s)
       then map_option (ch_state_update (\<lambda>_. baddie_state (unat (m_ticks s) + Suc (Suc n))))
         (map_find j (ph_characters (m_physics ?s)))
       else map_find j (ph_characters (m_physics ?s)))" for j
    using tick_state [OF less] ok [of "Suc n"] frame [of "Suc n"] phase
    by (simp add: callbacks_find server_ok_def)
  ultimately show ?case
    using Suc by (simp add: Let_def option.map_comp o_def)
qed

lemma baddies_strafe_periodically_witness:
  "\<exists>s :: (int, unit) server. unat (m_ticks s) < 40 \<and>
    map_option ch_state (map_find 1 (ph_characters (m_physics ((runTickCallbacks ^^ Suc 24) s)))) =
      Some StrafeRight"
proof -
  let ?s = "(server_init () :: (int, unit) server)
    \<lparr>m_baddies := [(''Baddie'', 1)],
     m_physics := \<lparr>ph_objects = [], ph_characters = [(1, \<lparr>ch_handle = 5, ch_state = 0\<rparr>)],
       ph_queue = [], ph_world = ()\<rparr>\<rparr>"
  have "unat (m_ticks ?s) < 40" "server_ok ?s"
    by (auto simp: server_ok_def server_init_def map_ok_def)
  from this(1) baddies_strafe_periodically [OF this, of 24] show ?thesis
    by (intro exI [of _ ?s]) (simp add: Let_def baddie_state_def map_find_Cons server_init_def)
qed

section \<open>The server loop\<close>

text \<open>
  The server thread's loop handles the messages in order up to and including the first shutdown
  message, whoever sent it, takes nothing after it, and goes on otherwise.
\<close>

lemma server_loop_ends_at_first_shutdown:
  assumes "\<forall>m \<in> set ms. server_type m \<noteq> ShutdownMessage" and "server_loop ms s = Inr (ended, left, s')"
  shows "\<not> ended \<and> left = [] \<and>
    server_loop (ms @ ServerShutdownMsg c # later) s = Inr (True, later, s')"
  using assms
proof (induction ms arbitrary: s)
  case (Cons m ms)
  from Cons.prems(2) obtain looping s1 where d: "server_dispatch m s = Inr (looping, s1)"
    by (auto simp: res_bind_eq_Inr)
  with Cons.prems(1) have "looping"
    by (cases m) (auto simp: res_bind_eq_Inr)
  from Cons.IH [of s1] Cons.prems d \<open>looping\<close> show ?case by auto
qed simp

lemma server_loop_ends_at_first_shutdown_witness:
  "\<exists>s'. server_loop ([ServerInputMsg 9 (Some 1)] @ ServerShutdownMsg 4 # [ServerShutdownMsg 5])
      (server_init () :: (int, unit) server) = Inr (True, [ServerShutdownMsg 5], s')"
proof -
  have "\<forall>m \<in> set [ServerInputMsg 9 (Some 1)]. server_type m \<noteq> ShutdownMessage"
    by (simp add: server_codes)
  moreover obtain s' where "server_loop [ServerInputMsg 9 (Some 1)] (server_init () :: (int, unit) server) =
      Inr (False, [], s')"
    by simp
  ultimately show ?thesis
    using server_loop_ends_at_first_shutdown [of "[ServerInputMsg 9 (Some 1)]" "server_init ()" False "[]" s' 4
        "[ServerShutdownMsg 5]"] by blast
qed

end
