(* ===== verification/ProtocolProperties.thy ===== *)
theory ProtocolProperties
  imports Messages
begin

text \<open>
  What the message layer of \<open>core/messages\<close> and \<open>core/util/socket.hpp\<close> promises the two ends of a
  connection: streams of messages arrive as sent, a stream that ends early is reported, and what a
  remote peer can and cannot make the receiver do.
\<close>

section \<open>Streams of messages\<close>

text \<open>
  C18: A server that sends any sequence of client messages (strings without zero bytes, transforms
  written) over a connection that accepts them, and a client that receives as many messages from those
  bytes, agree: every message comes back with the same class and the same members, in order, and the
  bytes that follow are left in the stream.
\<close>

theorem client_stream_roundtrip:
  assumes "list_all client_sendable ms" and "sk_room s = None" and "sk_out s = []"
    and "sk_in t = sk_out (snd (send_all client_send ms s)) @ rest"
  shows "receive_all client_receive (length ms) t = (Inr (map Some ms), t\<lparr>sk_in := rest\<rparr>)"
  using to_client.stream_roundtrip [OF assms] by simp

definition open_socket :: socket where
  "open_socket = \<lparr>sk_in = [], sk_read_code = 2, sk_room = None, sk_write_code = 32, sk_out = []\<rparr>"

theorem client_stream_roundtrip_witness:
  "\<exists>bs. receive_all client_receive 2 (open_socket\<lparr>sk_in := bs @ [7]\<rparr>) =
    (Inr [Some (ClientAddDrawableMsg 5 ''Player''), Some (ClientTransDrawableMsg 5 (Some (replicate 16 0x3f800000)))],
     open_socket\<lparr>sk_in := [7]\<rparr>)"
proof -
  let ?ms = "[ClientAddDrawableMsg 5 ''Player'', ClientTransDrawableMsg 5 (Some (replicate 16 0x3f800000))]"
  let ?bs = "sk_out (snd (send_all client_send ?ms open_socket))"
  have "list_all client_sendable ?ms"
    by (simp add: wire_string_def byte_of_char_def)
  then have "receive_all client_receive (length ?ms) (open_socket\<lparr>sk_in := ?bs @ [7]\<rparr>) =
      (Inr (map Some ?ms), (open_socket\<lparr>sk_in := ?bs @ [7]\<rparr>)\<lparr>sk_in := [7]\<rparr>)"
    by (rule client_stream_roundtrip [where s = open_socket and rest = "[7]"])
      (simp_all add: open_socket_def)
  then show ?thesis by (intro exI [of _ ?bs]) (simp add: numeral_2_eq_2)
qed

text \<open>
  C19: The same towards the server, except for the sender: whatever client pointer the messages were
  built with, the receiving \<open>RemoteClient\<close> makes itself the sender of every one of them.
\<close>

theorem server_stream_roundtrip:
  assumes "list_all server_sendable ms" and "sk_room s = None" and "sk_out s = []"
    and "sk_in t = sk_out (snd (send_all server_send ms s)) @ rest"
  shows "receive_all (server_receive c) (length ms) t =
    (Inr (map (\<lambda>m. Some (from_client c m)) ms), t\<lparr>sk_in := rest\<rparr>)"
  using to_server.stream_roundtrip [OF assms] by simp

theorem server_stream_roundtrip_witness:
  "\<exists>bs. receive_all (server_receive 9) 2 (open_socket\<lparr>sk_in := bs\<rparr>) =
    (Inr [Some (ServerInputMsg 9 (Some 3)), Some (ServerLoadPlayerMsg 9 ''Player'' :: int server_msg)],
     open_socket)"
proof -
  let ?ms = "[ServerInputMsg 4 (Some 3), ServerLoadPlayerMsg 5 ''Player'' :: int server_msg]"
  let ?bs = "sk_out (snd (send_all server_send ?ms open_socket))"
  have "list_all server_sendable ?ms"
    by (simp add: wire_string_def byte_of_char_def)
  then have "receive_all (server_receive 9) (length ?ms) (open_socket\<lparr>sk_in := ?bs\<rparr>) =
      (Inr (map (\<lambda>m. Some (from_client 9 m)) ?ms), (open_socket\<lparr>sk_in := ?bs\<rparr>)\<lparr>sk_in := []\<rparr>)"
    by (rule server_stream_roundtrip [where s = open_socket and rest = "[]"])
      (simp_all add: open_socket_def)
  then show ?thesis by (intro exI [of _ ?bs]) (simp add: numeral_2_eq_2 open_socket_def)
qed

lemma le_bytes_eval:
  "le_bytes 4 n = [word_of_nat (n mod 256), word_of_nat (n div 256 mod 256),
     word_of_nat (n div 256 div 256 mod 256), word_of_nat (n div 256 div 256 div 256 mod 256)]"
  "le_bytes 2 n = [word_of_nat (n mod 256), word_of_nat (n div 256 mod 256)]"
proof -
  have "(4::nat) = Suc (Suc (Suc (Suc 0)))" "(2::nat) = Suc (Suc 0)" by simp_all
  then show "le_bytes 4 n = [word_of_nat (n mod 256), word_of_nat (n div 256 mod 256),
     word_of_nat (n div 256 div 256 mod 256), word_of_nat (n div 256 div 256 div 256 mod 256)]"
    "le_bytes 2 n = [word_of_nat (n mod 256), word_of_nat (n div 256 mod 256)]"
    by (simp_all only: le_bytes.simps)
qed

text \<open>
  A connection that ends before the last byte of a sequence of messages never yields the whole
  sequence: both receivers throw the error code of the connection, at whatever byte it was cut.
\<close>

lemma cut_streams_fail:
  assumes "list_all client_sendable ms" and "n < length (concat (map client_bytes ms))"
    and "sk_in t = take n (concat (map client_bytes ms))"
    and "list_all server_sendable (ms' :: 'f server_msg list)" and "k < length (concat (map server_bytes ms'))"
    and "sk_in t' = take k (concat (map server_bytes ms'))"
  shows "fst (receive_all client_receive (length ms) t) = Inl (SystemError (sk_read_code t)) \<and>
    fst (receive_all (server_receive c :: 'f server_msg option io) (length ms') t') = Inl (SystemError (sk_read_code t'))"
  using to_client.cut_stream_fails [OF assms(1-3)] to_server.cut_stream_fails [OF assms(4-6)] by simp

lemma cut_streams_fail_witness:
  "fst (receive_all client_receive 1 (open_socket\<lparr>sk_in := [4, 0, 0, 0, 9, 0]\<rparr>)) = Inl (SystemError 2) \<and>
   fst (receive_all (server_receive 7 :: int server_msg option io) 1 (open_socket\<lparr>sk_in := [1, 0, 0, 0, 9]\<rparr>)) =
     Inl (SystemError 2)"
  using cut_streams_fail [of "[ClientDelDrawableMsg 9]" 6 "open_socket\<lparr>sk_in := [4, 0, 0, 0, 9, 0]\<rparr>"
      "[ServerInputMsg 8 (Some 9) :: int server_msg]" 5 "open_socket\<lparr>sk_in := [1, 0, 0, 0, 9]\<rparr>" 7]
  by (simp add: client_bytes_def server_bytes_def pod32_def pod16_def server_codes open_socket_def
      le_bytes_eval)

section \<open>What a peer can send\<close>

text \<open>
  Whatever bytes a remote client sends, a message the server's side accepts from it names that
  client as its sender and is one of the three public kinds: it cannot speak for another client and
  cannot reach the messages the physics engine posts to itself.
\<close>

lemma remote_messages_are_public:
  assumes "server_receive c s = (Inr (Some m), s')"
  shows "server_sender m = c \<and> server_type m \<in> {ShutdownMessage, InputMessage, LoadPlayer} \<and>
    server_type m < SubsystemInternalStart \<and> server_type m \<notin> server_type `
      {AddPhysObjMsg i t f, AddCharObjMsg i t f, DelPhysObjMsg i, DelCharObjMsg i, ForceStateMsg i st}"
proof -
  from assms obtain t s1 m0 where create: "server_create t c = Some m0"
    and read: "server_read m0 s1 = (Inr m, s')"
    by (auto simp: server_receive_def io_bind_def io_return_def split: prod.splits sum.splits option.splits)
  from server_create_public [OF create] have public: "server_sender m0 = c"
    "server_type m0 < SubsystemInternalStart" "server_type m0 \<in> {ShutdownMessage, InputMessage, LoadPlayer}"
    by (auto simp: server_codes)
  from server_read_public [OF public(1,2) read] public show ?thesis
    by (auto simp: server_codes)
qed

lemma remote_messages_are_public_witness:
  "\<exists>m :: int server_msg.
    fst (server_receive 6 (open_socket\<lparr>sk_in := [1, 0, 0, 0, 64, 0]\<rparr>)) = Inr (Some m) \<and> server_sender m = 6"
proof -
  have "server_receive 6 (open_socket\<lparr>sk_in := [1, 0, 0, 0, 64, 0]\<rparr>) =
      (Inr (Some (ServerInputMsg 6 (Some 64) :: int server_msg)), open_socket)"
    by (simp add: server_receive_def io_bind_def io_return_def readPod32_def readPod16_def sock_read_def
        open_socket_def server_create_def server_codes)
  from remote_messages_are_public [OF this, of 0 "[]" "[]" 0] this show ?thesis
    by (intro exI [of _ "ServerInputMsg 6 (Some 64)"]) simp
qed

text \<open>
  A type code outside the enumeration gives both receivers a null message: they take the four bytes
  of the code from the stream and nothing of what follows it, without an error.
\<close>

lemma unknown_codes_give_null:
  assumes "sk_in s = pod32 t @ rest" and "t \<notin> range client_type_code"
    and "sk_in s' = pod32 u @ rest" and "SubsystemInternalStart \<le> u"
  shows "client_receive s = (Inr None, s\<lparr>sk_in := rest\<rparr>) \<and>
    server_receive c s' = (Inr (None :: 'f server_msg option), s'\<lparr>sk_in := rest\<rparr>)"
proof -
  have "client_create t = None"
    using assms(2) by (metis client_create_def rangeI)
  moreover have "server_create u c = (None :: 'f server_msg option)"
    using assms(4) by (auto simp: server_create_def server_codes word_le_nat_alt)
  moreover have "readPod32 s = (Inr t, s\<lparr>sk_in := rest\<rparr>)" "readPod32 s' = (Inr u, s'\<lparr>sk_in := rest\<rparr>)"
    using parses_readPod32 assms(1,3) by (auto simp: parses_def receives_def)
  ultimately show ?thesis
    by (simp add: client_receive_def server_receive_def io_bind_def io_return_def)
qed

lemma client_code_le_5: "client_type_code ty \<le> 5"
  by (cases ty) simp_all

lemma unknown_codes_give_null_witness:
  "client_receive (open_socket\<lparr>sk_in := pod32 6 @ [1]\<rparr>) = (Inr None, open_socket\<lparr>sk_in := [1]\<rparr>) \<and>
   server_receive 3 (open_socket\<lparr>sk_in := pod32 4 @ [1]\<rparr>) =
     (Inr (None :: int server_msg option), open_socket\<lparr>sk_in := [1]\<rparr>)"
proof -
  have "6 \<notin> range client_type_code"
  proof
    assume "6 \<in> range client_type_code"
    then obtain ty where "6 = client_type_code ty" by auto
    with client_code_le_5 [of ty] show False by simp
  qed
  then show ?thesis
    using unknown_codes_give_null [of "open_socket\<lparr>sk_in := pod32 6 @ [1]\<rparr>" 6 "[1]"
        "open_socket\<lparr>sk_in := pod32 4 @ [1]\<rparr>" 4 3]
    by (simp add: SubsystemInternalStart_def open_socket_def)
qed

section \<open>Received messages are well formed\<close>

lemma io_bind_Inr:
  "io_bind m f s = (Inr y, s') \<longleftrightarrow> (\<exists>x s1. m s = (Inr x, s1) \<and> f x s1 = (Inr y, s'))"
  by (auto simp: io_bind_def split: prod.splits sum.splits)

lemma sock_read_length: "sock_read n s = (Inr bs, s') \<Longrightarrow> length bs = n"
  by (auto simp: sock_read_def split: if_splits)

lemma read_string_wire:
  assumes "readString s = (Inr t, s')"
  shows "wire_string t"
proof -
  from assms obtain len :: u32 and s1 where "(if unat len < unat (len + 1)
      then io_bind (sock_read (unat len)) (\<lambda>bs. io_return (map char_of_byte (takeWhile (\<lambda>b. b \<noteq> 0) bs)))
      else io_throw OutOfBounds) s1 = (Inr t, s')"
    unfolding readString_def io_bind_Inr by blast
  then have len: "unat len < unat (len + 1)"
    and "\<exists>bs. sock_read (unat len) s1 = (Inr bs, s') \<and> t = map char_of_byte (takeWhile (\<lambda>b. b \<noteq> 0) bs)"
    by (auto simp: io_bind_Inr io_return_def io_throw_def split: if_splits)
  then obtain bs where bs: "sock_read (unat len) s1 = (Inr bs, s')"
    and t: "t = map char_of_byte (takeWhile (\<lambda>b. b \<noteq> 0) bs)" by blast
  have "unat len < 2 ^ 32 - 1" using len unsigned_less [of "len + 1", where 'a = nat] by simp
  moreover have "length t \<le> unat len"
    using length_takeWhile_le [of "\<lambda>b. b \<noteq> 0" bs] sock_read_length [OF bs] by (simp add: t)
  moreover have "\<forall>c \<in> set t. byte_of_char c \<noteq> 0" using set_takeWhileD by (fastforce simp: t)
  ultimately show ?thesis by (simp add: wire_string_def)
qed

lemma length_split_floats [simp]: "length (split_floats n bs) = n"
  by (induction n arbitrary: bs) simp_all

lemma client_read_keeps_class:
  assumes "client_read m s = (Inr m', s')"
  shows "client_sendable m' \<and> client_type m' = client_type m"
  using assms
  by (cases m) (auto simp: io_bind_Inr io_return_def add_object_read_def trans_object_read_def
      read_transform_def dest: read_string_wire)

lemma server_read_sendable:
  assumes "server_read m s = (Inr m', s')" and "server_type m < SubsystemInternalStart"
  shows "server_sendable m'"
  using assms
  by (cases m) (auto simp: io_bind_Inr io_return_def server_codes dest: read_string_wire)

lemma client_create_type:
  assumes "client_create t = Some m"
  shows "t = client_type_code (client_type m)"
  using assms by (auto simp: client_create_def split: if_splits)



section \<open>Strings\<close>

text \<open>
  C37: What \<open>readString\<close> makes of any field a peer sends: the bytes up to the first zero, with the whole
  field taken from the stream; except that the largest length makes \<open>len+1\<close> wrap to 0, so that the
  terminator is stored outside the allocated buffer before a byte of the field is read.
\<close>

theorem read_string_of_any_field:
  assumes "length bs < 2 ^ 32 - 1" and "sk_in s = pod32 (word_of_nat (length bs)) @ bs @ rest"
    and "sk_in t = pod32 0xFFFFFFFF @ rest"
  shows "readString s = (Inr (map char_of_byte (takeWhile (\<lambda>b. b \<noteq> 0) bs)), s\<lparr>sk_in := rest\<rparr>) \<and>
    readString t = (Inl OutOfBounds, t\<lparr>sk_in := rest\<rparr>)"
proof -
  have "readPod32 t = (Inr 0xFFFFFFFF, t\<lparr>sk_in := rest\<rparr>)"
    using parses_readPod32 assms(3) by (auto simp: parses_def receives_def)
  then show ?thesis
    using parses_readString_bytes [OF assms(1)] assms(2)
    by (auto simp: parses_def receives_def readString_def io_bind_def io_throw_def)
qed

theorem read_string_of_any_field_witness:
  "fst (readString (open_socket\<lparr>sk_in := [3, 0, 0, 0, 72, 0, 73]\<rparr>)) = Inr ''H'' \<and>
   fst (readString (open_socket\<lparr>sk_in := [255, 255, 255, 255]\<rparr>)) = Inl OutOfBounds"
proof -
  have field: "pod32 (word_of_nat (length [72, 0, 73 :: u8])) = [3, 0, 0, 0]" "pod32 0xFFFFFFFF = [255, 255, 255, 255]"
    by (simp_all add: pod32_def le_bytes_eval)
  show ?thesis
    using read_string_of_any_field [of "[72, 0, 73]" "open_socket\<lparr>sk_in := [3, 0, 0, 0, 72, 0, 73]\<rparr>" "[]"
        "open_socket\<lparr>sk_in := [255, 255, 255, 255]\<rparr>"] field
      char_of_byte_of_char [of "CHR ''H''"]
    by (simp add: byte_of_char_def)
qed

end
