(* ===== verification/LocklessQueue.thy ===== *)
theory LocklessQueue
  imports MsgQueue
begin

text \<open>
  \<open>locklessQueue\<close> of \<open>core/util/queue.hpp\<close> under every interleaving of its threads. A step of a thread is
  one access to shared memory: an allocation, a read of \<open>head->next\<close> or \<open>item->next\<close>, a compare-and-swap,
  or the final read of the value with \<open>delete item\<close>. The allocator may reuse the address of a deleted
  node at once, so the ABA situations of the real heap are there. With one popping thread, which is how
  every queue of the program is used, the structure is a correct and memory-safe stack; with two it is
  neither.
\<close>

section \<open>State and steps\<close>

type_synonym tid = nat

text \<open>
  Where a thread is. \<open>PushLoad p\<close>: \<open>new_head\<close> (at \<open>p\<close>) is filled, the loop of \<open>push\<close> is about to read
  \<open>head->next\<close>. \<open>PushCas p\<close>: about to compare and swap. \<open>PopLoad w\<close>: about to read \<open>head->next\<close>; \<open>w\<close> tells
  \<open>wait_pop\<close> from \<open>try_pop\<close>. \<open>PopNext w item\<close>: about to read \<open>item->next\<close> for the compare-and-swap.
  \<open>PopCas w item next\<close>: about to do it. \<open>PopTake item\<close>: about to copy the value and delete the node.
\<close>

datatype lq_pc =
    LqIdle
  | PushLoad ptr
  | PushCas ptr
  | PopLoad bool
  | PopNext bool ptr
  | PopCas bool ptr ptr
  | PopTake ptr

record 'a lq =
  lq_nodes :: "ptr \<Rightarrow> ('a \<times> ptr) option"
  lq_head :: ptr
  lq_pcs :: "tid \<Rightarrow> lq_pc"

definition lq_init :: "'a lq" where
  "lq_init = \<lparr>lq_nodes = (\<lambda>_. None), lq_head = 0, lq_pcs = (\<lambda>_. LqIdle)\<rparr>"

datatype 'a lq_action = StartPush 'a ptr | StartPop bool | Continue

datatype 'a lq_event =
    Tau
  | Pushed tid 'a
  | Unlinked tid
  | Empty tid
  | Returned tid 'a
  | Faulted tid

abbreviation lq_goto :: "tid \<Rightarrow> lq_pc \<Rightarrow> 'a lq \<Rightarrow> 'a lq" where
  "lq_goto t pc s \<equiv> s\<lparr>lq_pcs := (lq_pcs s)(t := pc)\<rparr>"

text \<open>
  The next step of a thread: \<open>new QueueItem\<close> takes any free address; every dereference of a deleted node
  is \<open>Faulted\<close>.
\<close>

fun lq_continue :: "tid \<Rightarrow> lq_pc \<Rightarrow> 'a lq \<Rightarrow> ('a lq_event \<times> 'a lq) option" where
  "lq_continue t LqIdle s = None"
| "lq_continue t (PushLoad p) s =
     (case lq_nodes s p of
        None \<Rightarrow> Some (Faulted t, s)
      | Some (v, _) \<Rightarrow>
          Some (Tau, lq_goto t (PushCas p) (s\<lparr>lq_nodes := (lq_nodes s)(p \<mapsto> (v, lq_head s))\<rparr>)))"
| "lq_continue t (PushCas p) s =
     (case lq_nodes s p of
        None \<Rightarrow> Some (Faulted t, s)
      | Some (v, nxt) \<Rightarrow>
          if lq_head s = nxt then Some (Pushed t v, lq_goto t LqIdle (s\<lparr>lq_head := p\<rparr>))
          else Some (Tau, lq_goto t (PushLoad p) s))"
| "lq_continue t (PopLoad w) s =
     (if lq_head s = 0
      then (if w then Some (Tau, s) else Some (Empty t, lq_goto t LqIdle s))
      else Some (Tau, lq_goto t (PopNext w (lq_head s)) s))"
| "lq_continue t (PopNext w item) s =
     (case lq_nodes s item of
        None \<Rightarrow> Some (Faulted t, s)
      | Some (_, nxt) \<Rightarrow> Some (Tau, lq_goto t (PopCas w item nxt) s))"
| "lq_continue t (PopCas w item nxt) s =
     (if lq_head s = item then Some (Unlinked t, lq_goto t (PopTake item) (s\<lparr>lq_head := nxt\<rparr>))
      else Some (Tau, lq_goto t (PopLoad w) s))"
| "lq_continue t (PopTake item) s =
     (case lq_nodes s item of
        None \<Rightarrow> Some (Faulted t, s)
      | Some (v, _) \<Rightarrow>
          Some (Returned t v, lq_goto t LqIdle (s\<lparr>lq_nodes := (lq_nodes s)(item := None)\<rparr>)))"

fun lq_exec :: "tid \<Rightarrow> 'a lq_action \<Rightarrow> 'a lq \<Rightarrow> ('a lq_event \<times> 'a lq) option" where
  "lq_exec t (StartPush v p) s =
     (if lq_pcs s t = LqIdle \<and> p \<noteq> 0 \<and> lq_nodes s p = None
      then Some (Tau, lq_goto t (PushLoad p) (s\<lparr>lq_nodes := (lq_nodes s)(p \<mapsto> (v, 0))\<rparr>))
      else None)"
| "lq_exec t (StartPop w) s =
     (if lq_pcs s t = LqIdle then Some (Tau, lq_goto t (PopLoad w) s) else None)"
| "lq_exec t Continue s = lq_continue t (lq_pcs s t) s"

text \<open>The steps in which only the threads of \<open>C\<close> call \<open>wait_pop\<close> or \<open>try_pop\<close>, and the reachable states.\<close>

inductive lq_step :: "tid set \<Rightarrow> 'a lq \<Rightarrow> 'a lq_event \<Rightarrow> 'a lq \<Rightarrow> bool" for C where
  lq_push: "lq_exec t (StartPush v p) s = Some (e, s') \<Longrightarrow> lq_step C s e s'"
| lq_pop: "t \<in> C \<Longrightarrow> lq_exec t (StartPop w) s = Some (e, s') \<Longrightarrow> lq_step C s e s'"
| lq_go: "lq_exec t Continue s = Some (e, s') \<Longrightarrow> lq_step C s e s'"

inductive lq_run :: "tid set \<Rightarrow> 'a lq_event list \<Rightarrow> 'a lq \<Rightarrow> bool" for C where
  lq_start: "lq_run C [] lq_init"
| lq_next: "lq_run C es s \<Longrightarrow> lq_step C s e s' \<Longrightarrow> lq_run C (es @ [e]) s'"

section \<open>What it should do: a stack\<close>

text \<open>
  The abstract state is the stack and, for each thread, the element it has taken off but not returned
  yet. A fault is not a step of the specification.
\<close>

type_synonym 'a stack_spec = "'a list \<times> (tid \<Rightarrow> 'a option)"

fun spec_step :: "'a stack_spec \<Rightarrow> 'a lq_event \<Rightarrow> 'a stack_spec option" where
  "spec_step s Tau = Some s"
| "spec_step (xs, taken) (Pushed t v) = Some (lockless_push v xs, taken)"
| "spec_step (xs, taken) (Unlinked t) =
     (case lockless_try_pop xs of None \<Rightarrow> None | Some (v, xs') \<Rightarrow> Some (xs', taken(t := Some v)))"
| "spec_step (xs, taken) (Empty t) = (if lockless_try_pop xs = None then Some (xs, taken) else None)"
| "spec_step (xs, taken) (Returned t v) =
     (if taken t = Some v then Some (xs, taken(t := None)) else None)"
| "spec_step s (Faulted t) = None"

fun spec_run :: "'a stack_spec \<Rightarrow> 'a lq_event list \<Rightarrow> 'a stack_spec option" where
  "spec_run s [] = Some s"
| "spec_run s (e # es) = (case spec_step s e of None \<Rightarrow> None | Some s' \<Rightarrow> spec_run s' es)"

lemma spec_run_append:
  "spec_run s (es @ fs) = (case spec_run s es of None \<Rightarrow> None | Some s' \<Rightarrow> spec_run s' fs)"
  by (induction es arbitrary: s) (auto split: option.split)

section \<open>The linked list in memory\<close>

fun chain :: "(ptr \<Rightarrow> ('a \<times> ptr) option) \<Rightarrow> ptr \<Rightarrow> ptr list \<Rightarrow> 'a list \<Rightarrow> bool" where
  "chain h p [] xs = (p = 0 \<and> xs = [])"
| "chain h p (q # qs) xs =
     (p = q \<and> p \<noteq> 0 \<and> (\<exists>v n xs'. h p = Some (v, n) \<and> xs = v # xs' \<and> chain h n qs xs'))"

lemma chain_frame: "p \<notin> set qs \<Longrightarrow> chain (h(p := r)) a qs xs \<longleftrightarrow> chain h a qs xs"
  by (induction qs arbitrary: a xs) auto

lemma chain_null: "chain h 0 qs xs \<Longrightarrow> qs = [] \<and> xs = []"
  by (cases qs) auto

lemma chain_nonnull: "chain h p qs xs \<Longrightarrow> p \<noteq> 0 \<Longrightarrow>
    \<exists>qs' v n xs'. qs = p # qs' \<and> h p = Some (v, n) \<and> xs = v # xs' \<and> chain h n qs' xs'"
  by (cases qs) auto

lemma chain_member: "chain h p qs xs \<Longrightarrow> q \<in> set qs \<Longrightarrow> q \<noteq> 0 \<and> h q \<noteq> None"
  by (induction qs arbitrary: p xs) auto

section \<open>Simulation with one popping thread\<close>

text \<open>
  \<open>owned\<close> is the node a thread works on outside the list; \<open>popping\<close> the node a popping thread still expects
  in the list, with the successor it read.
\<close>

fun owned :: "lq_pc \<Rightarrow> ptr set" where
  "owned (PushLoad p) = {p}"
| "owned (PushCas p) = {p}"
| "owned (PopTake p) = {p}"
| "owned _ = {}"

fun expects :: "(ptr \<Rightarrow> ('a \<times> ptr) option) \<Rightarrow> ptr list \<Rightarrow> lq_pc \<Rightarrow> bool" where
  "expects h qs (PopNext w i) = (i \<in> set qs)"
| "expects h qs (PopCas w i n) = (i \<in> set qs \<and> (\<exists>v. h i = Some (v, n)))"
| "expects h qs _ = True"

fun is_popping :: "lq_pc \<Rightarrow> bool" where
  "is_popping (PopLoad _) = True"
| "is_popping (PopNext _ _) = True"
| "is_popping (PopCas _ _ _) = True"
| "is_popping (PopTake _) = True"
| "is_popping _ = False"

fun taken_by :: "(ptr \<Rightarrow> ('a \<times> ptr) option) \<Rightarrow> lq_pc \<Rightarrow> 'a option" where
  "taken_by h (PopTake i) = map_option fst (h i)"
| "taken_by h _ = None"

text \<open>The simulation relation, for the popping thread \<open>c\<close> and the addresses \<open>qs\<close> of the linked nodes.\<close>

definition lq_rel :: "tid \<Rightarrow> ptr list \<Rightarrow> 'a lq \<Rightarrow> 'a stack_spec \<Rightarrow> bool" where
  "lq_rel c qs s a \<longleftrightarrow>
     chain (lq_nodes s) (lq_head s) qs (fst a) \<and> distinct qs \<and>
     (\<forall>t p. p \<in> owned (lq_pcs s t) \<longrightarrow> p \<noteq> 0 \<and> lq_nodes s p \<noteq> None \<and> p \<notin> set qs) \<and>
     (\<forall>t u. t \<noteq> u \<longrightarrow> owned (lq_pcs s t) \<inter> owned (lq_pcs s u) = {}) \<and>
     (\<forall>t. is_popping (lq_pcs s t) \<longrightarrow> t = c) \<and>
     (\<forall>t. expects (lq_nodes s) qs (lq_pcs s t)) \<and>
     (\<forall>t. snd a t = taken_by (lq_nodes s) (lq_pcs s t))"

lemma lq_relI:
  assumes "chain (lq_nodes s) (lq_head s) qs (fst a)" and "distinct qs"
    and "\<And>t p. p \<in> owned (lq_pcs s t) \<Longrightarrow> p \<noteq> 0 \<and> lq_nodes s p \<noteq> None \<and> p \<notin> set qs"
    and "\<And>t u p. t \<noteq> u \<Longrightarrow> p \<in> owned (lq_pcs s t) \<Longrightarrow> p \<notin> owned (lq_pcs s u)"
    and "\<And>t. is_popping (lq_pcs s t) \<Longrightarrow> t = c"
    and "\<And>t. expects (lq_nodes s) qs (lq_pcs s t)"
    and "\<And>t. snd a t = taken_by (lq_nodes s) (lq_pcs s t)"
  shows "lq_rel c qs s a"
  using assms unfolding lq_rel_def by blast

lemma lq_rel_init: "lq_rel c [] lq_init ([], \<lambda>_. None)"
  by (simp add: lq_rel_def lq_init_def)

lemma expects_frame: "p \<notin> set qs \<Longrightarrow> expects (h(p := r)) qs pc = expects h qs pc"
  by (cases pc) auto

lemma taken_frame: "p \<notin> owned pc \<Longrightarrow> taken_by (h(p := r)) pc = taken_by h pc"
  by (cases pc) auto

lemma expects_Cons: "expects h qs pc \<Longrightarrow> expects h (q # qs) pc"
  by (cases pc) auto

lemma not_popping [simp]: "\<not> is_popping pc \<Longrightarrow> expects h qs pc" "\<not> is_popping pc \<Longrightarrow> taken_by h pc = None"
  by (cases pc; simp)+

lemma lq_rel_owned:
  "lq_rel c qs s a \<Longrightarrow> p \<in> owned (lq_pcs s t) \<Longrightarrow> p \<noteq> 0 \<and> lq_nodes s p \<noteq> None \<and> p \<notin> set qs"
  by (simp add: lq_rel_def)

lemma lq_rel_linked: "lq_rel c qs s a \<Longrightarrow> q \<in> set qs \<Longrightarrow> q \<noteq> 0 \<and> lq_nodes s q \<noteq> None"
  unfolding lq_rel_def using chain_member by metis

lemma lq_rel_chain: "lq_rel c qs s a \<Longrightarrow> chain (lq_nodes s) (lq_head s) qs (fst a)"
  by (simp add: lq_rel_def)

lemma lq_rel_popper: "lq_rel c qs s a \<Longrightarrow> is_popping (lq_pcs s t) \<Longrightarrow> t = c"
  by (simp add: lq_rel_def)

lemma lq_rel_expects: "lq_rel c qs s a \<Longrightarrow> expects (lq_nodes s) qs (lq_pcs s t)"
  by (simp add: lq_rel_def)

lemma lq_rel_taken: "lq_rel c qs s a \<Longrightarrow> snd a t = taken_by (lq_nodes s) (lq_pcs s t)"
  by (simp add: lq_rel_def)

lemma lq_rel_exclusive:
  "lq_rel c qs s a \<Longrightarrow> p \<in> owned (lq_pcs s t) \<Longrightarrow> u \<noteq> t \<Longrightarrow> p \<notin> owned (lq_pcs s u)"
  unfolding lq_rel_def by (metis Int_iff empty_iff)

text \<open>
  A write to a node outside the list, together with a move of the thread that owns it (or that has just
  allocated it), keeps the relation.
\<close>

lemma lq_rel_private:
  assumes rel: "lq_rel c qs s a" and p: "p \<notin> set qs" "p \<noteq> 0" and "owned pc = {p}"
    and others: "\<forall>u. u \<noteq> t \<longrightarrow> p \<notin> owned (lq_pcs s u)"
    and pc: "\<not> is_popping pc" "\<not> is_popping (lq_pcs s t)"
  shows "lq_rel c qs (s\<lparr>lq_nodes := (lq_nodes s)(p \<mapsto> vn), lq_pcs := (lq_pcs s)(t := pc)\<rparr>) a"
proof -
  have "taken_by ((lq_nodes s)(p \<mapsto> vn)) (lq_pcs s u) = taken_by (lq_nodes s) (lq_pcs s u)"
    if "u \<noteq> t" for u
    using others that by (simp add: taken_frame)
  with assms show ?thesis
    by (auto simp: lq_rel_def chain_frame expects_frame fun_upd_def [symmetric] split: if_splits)
qed

lemma lq_rel_goto:
  assumes rel: "lq_rel c qs s a" and "owned pc \<subseteq> owned (lq_pcs s t)"
    and "is_popping pc \<Longrightarrow> t = c" and "expects (lq_nodes s) qs pc"
    and "taken_by (lq_nodes s) pc = taken_by (lq_nodes s) (lq_pcs s t)"
  shows "lq_rel c qs (lq_goto t pc s) a"
  using assms unfolding lq_rel_def by (auto split: if_splits; blast)

lemma sim_start_push:
  assumes rel: "lq_rel c qs s a" and ex: "lq_exec t (StartPush v p) s = Some (e, s')"
  shows "e = Tau \<and> lq_rel c qs s' a"
proof -
  from ex have fresh: "lq_nodes s p = None" "p \<noteq> 0" and idle: "lq_pcs s t = LqIdle"
    and e: "e = Tau" and s': "s' = lq_goto t (PushLoad p) (s\<lparr>lq_nodes := (lq_nodes s)(p \<mapsto> (v, 0))\<rparr>)"
    by (auto split: if_splits)
  from fresh have "p \<notin> set qs" and "p \<notin> owned (lq_pcs s u)" for u
    using lq_rel_owned [OF rel] lq_rel_linked [OF rel] by blast+
  with rel fresh idle show ?thesis unfolding s' e
    by (simp add: lq_rel_private)
qed

lemma sim_start_pop:
  assumes "lq_rel c qs s a" and "lq_exec c (StartPop w) s = Some (e, s')"
  shows "e = Tau \<and> lq_rel c qs s' a"
  using assms by (auto intro: lq_rel_goto split: if_splits)

text \<open>The two compare-and-swaps that succeed move a node into or out of the list.\<close>

lemma lq_rel_link:
  assumes rel: "lq_rel c qs s (xs, tk)" and pc: "lq_pcs s t = PushCas p"
    and node: "lq_nodes s p = Some (v, lq_head s)"
  shows "lq_rel c (p # qs) (lq_goto t LqIdle (s\<lparr>lq_head := p\<rparr>)) (v # xs, tk)"
proof -
  have own: "p \<in> owned (lq_pcs s t)" by (simp add: pc)
  have p: "p \<notin> owned (lq_pcs s u)" if "u \<noteq> t" for u
    using lq_rel_exclusive [OF rel own that] .
  have "p \<noteq> 0" and "p \<notin> set qs" using lq_rel_owned [OF rel own] by auto
  let ?s = "lq_goto t LqIdle (s\<lparr>lq_head := p\<rparr>)"
  show ?thesis
  proof (rule lq_relI)
    show "chain (lq_nodes ?s) (lq_head ?s) (p # qs) (fst (v # xs, tk))"
      using lq_rel_chain [OF rel] node \<open>p \<noteq> 0\<close> by simp
    show "distinct (p # qs)" using rel \<open>p \<notin> set qs\<close> by (simp add: lq_rel_def)
    fix u
    show "q \<noteq> 0 \<and> lq_nodes ?s q \<noteq> None \<and> q \<notin> set (p # qs)" if "q \<in> owned (lq_pcs ?s u)" for q
      using that p [of u] lq_rel_owned [OF rel, of q u] by (auto split: if_splits)
    show "q \<notin> owned (lq_pcs ?s w)" if "u \<noteq> w" "q \<in> owned (lq_pcs ?s u)" for q w
      using that lq_rel_exclusive [OF rel, of q u w] by (auto split: if_splits)
    show "u = c" if "is_popping (lq_pcs ?s u)"
      using that lq_rel_popper [OF rel, of u] by (auto split: if_splits)
    show "expects (lq_nodes ?s) (p # qs) (lq_pcs ?s u)"
      using lq_rel_expects [OF rel, of u] by (auto simp: expects_Cons)
    show "snd (v # xs, tk) u = taken_by (lq_nodes ?s) (lq_pcs ?s u)"
      using lq_rel_taken [OF rel, of u] pc by auto
  qed
qed

lemma lq_rel_unlink:
  assumes rel: "lq_rel c qs s (xs, tk)" and pc: "lq_pcs s t = PopCas w i n" and hd: "lq_head s = i"
  obtains v xs' qs' where "xs = v # xs'" and "qs = i # qs'"
    and "lq_rel c qs' (lq_goto t (PopTake i) (s\<lparr>lq_head := n\<rparr>)) (xs', tk(t := Some v))"
proof -
  from lq_rel_expects [OF rel, of t] pc obtain v where i: "i \<in> set qs" "lq_nodes s i = Some (v, n)"
    by auto
  with lq_rel_linked [OF rel] have "i \<noteq> 0" by auto
  with lq_rel_chain [OF rel] hd i(2) obtain qs' xs' where
    q: "qs = i # qs'" "xs = v # xs'" "chain (lq_nodes s) n qs' xs'"
    using chain_nonnull by fastforce
  have t: "t = c" using lq_rel_popper [OF rel, of t] pc by simp
  have others: "\<not> is_popping (lq_pcs s u)" if "u \<noteq> c" for u
    using lq_rel_popper [OF rel] that by blast
  let ?s = "lq_goto t (PopTake i) (s\<lparr>lq_head := n\<rparr>)"
  have "lq_rel c qs' ?s (xs', tk(t := Some v))"
  proof (rule lq_relI)
    show "chain (lq_nodes ?s) (lq_head ?s) qs' (fst (xs', tk(t := Some v)))" using q by simp
    show "distinct qs'" using rel q by (simp add: lq_rel_def)
    have i_free: "i \<notin> owned (lq_pcs s u)" for u
      using lq_rel_owned [OF rel, of i u] i(1) by auto
    have i_rest: "i \<notin> set qs'" using rel q by (simp add: lq_rel_def)
    fix u
    show "p \<noteq> 0 \<and> lq_nodes ?s p \<noteq> None \<and> p \<notin> set qs'" if "p \<in> owned (lq_pcs ?s u)" for p
      using that lq_rel_owned [OF rel, of p u] i \<open>i \<noteq> 0\<close> i_rest q(1) by (auto split: if_splits)
    show "p \<notin> owned (lq_pcs ?s w)" if "u \<noteq> w" "p \<in> owned (lq_pcs ?s u)" for p w
      using that lq_rel_exclusive [OF rel, of p u w] i_free by (auto split: if_splits)
    show "u = c" if "is_popping (lq_pcs ?s u)"
      using that lq_rel_popper [OF rel, of u] t by (auto split: if_splits)
    show "expects (lq_nodes ?s) qs' (lq_pcs ?s u)"
      using others [of u] t by auto
    show "snd (xs', tk(t := Some v)) u = taken_by (lq_nodes ?s) (lq_pcs ?s u)"
      using lq_rel_taken [OF rel, of u] i(2) by auto
  qed
  with q that show ?thesis by blast
qed

lemma lq_rel_delete:
  assumes rel: "lq_rel c qs s (xs, tk)" and pc: "lq_pcs s t = PopTake i"
  shows "lq_rel c qs (lq_goto t LqIdle (s\<lparr>lq_nodes := (lq_nodes s)(i := None)\<rparr>)) (xs, tk(t := None))"
proof -
  have own: "i \<in> owned (lq_pcs s t)" by (simp add: pc)
  have ex: "i \<notin> owned (lq_pcs s u)" if "u \<noteq> t" for u
    using lq_rel_exclusive [OF rel own that] .
  have i: "i \<notin> set qs" using lq_rel_owned [OF rel own] by auto
  have tk: "taken_by ((lq_nodes s)(i := None)) (lq_pcs s u) = taken_by (lq_nodes s) (lq_pcs s u)"
    if "u \<noteq> t" for u using ex [OF that] by (simp add: taken_frame)
  let ?s = "lq_goto t LqIdle (s\<lparr>lq_nodes := (lq_nodes s)(i := None)\<rparr>)"
  show ?thesis
  proof (rule lq_relI)
    show "chain (lq_nodes ?s) (lq_head ?s) qs (fst (xs, tk(t := None)))"
      using lq_rel_chain [OF rel] i by (simp add: chain_frame)
    show "distinct qs" using rel by (simp add: lq_rel_def)
    fix u
    show "p \<noteq> 0 \<and> lq_nodes ?s p \<noteq> None \<and> p \<notin> set qs" if "p \<in> owned (lq_pcs ?s u)" for p
      using that lq_rel_owned [OF rel, of p u] ex [of u] by (auto split: if_splits)
    show "p \<notin> owned (lq_pcs ?s w)" if "u \<noteq> w" "p \<in> owned (lq_pcs ?s u)" for p w
      using that lq_rel_exclusive [OF rel, of p u w] by (auto split: if_splits)
    show "u = c" if "is_popping (lq_pcs ?s u)"
      using that lq_rel_popper [OF rel, of u] by (auto split: if_splits)
    show "expects (lq_nodes ?s) qs (lq_pcs ?s u)"
      using lq_rel_expects [OF rel, of u] i by (auto simp: expects_frame)
    show "snd (xs, tk(t := None)) u = taken_by (lq_nodes ?s) (lq_pcs ?s u)"
      using lq_rel_taken [OF rel, of u] tk [of u] by auto
  qed
qed

text \<open>Every step of a thread is a step of the stack, or changes nothing there.\<close>

lemma sim_continue:
  assumes rel: "lq_rel c qs s a" and ex: "lq_continue t (lq_pcs s t) s = Some (e, s')"
  shows "\<exists>a' qs'. spec_step a e = Some a' \<and> lq_rel c qs' s' a'"
proof -
  obtain xs tk where a: "a = (xs, tk)" by (cases a)
  note owned = lq_rel_owned [OF rel, of _ t]
  show ?thesis
  proof (cases "lq_pcs s t")
    case LqIdle
    with ex show ?thesis by simp
  next
    case (PushLoad p)
    with owned obtain v n where node: "lq_nodes s p = Some (v, n)" and p: "p \<notin> set qs" "p \<noteq> 0" by auto
    with ex PushLoad have e: "e = Tau"
      and s': "s' = lq_goto t (PushCas p) (s\<lparr>lq_nodes := (lq_nodes s)(p \<mapsto> (v, lq_head s))\<rparr>)" by auto
    have "lq_rel c qs s' a" unfolding s'
      using lq_rel_private [OF rel p, of "PushCas p" t] lq_rel_exclusive [OF rel, of p t] PushLoad
      by simp
    with e show ?thesis by auto
  next
    case (PushCas p)
    with owned obtain v n where node: "lq_nodes s p = Some (v, n)" by auto
    show ?thesis
    proof (cases "lq_head s = n")
      case True
      with ex PushCas node have "e = Pushed t v" "s' = lq_goto t LqIdle (s\<lparr>lq_head := p\<rparr>)" by auto
      with lq_rel_link [OF rel [unfolded a] PushCas] node True a show ?thesis
        by (auto simp: lockless_push_def)
    next
      case False
      with ex PushCas node have "e = Tau" "s' = lq_goto t (PushLoad p) s" by auto
      moreover have "lq_rel c qs (lq_goto t (PushLoad p) s) a"
        using PushCas by (intro lq_rel_goto [OF rel]) auto
      ultimately show ?thesis by auto
    qed
  next
    case (PopLoad w)
    have t: "t = c" using lq_rel_popper [OF rel, of t] PopLoad by simp
    show ?thesis
    proof (cases "lq_head s = 0")
      case True
      with lq_rel_chain [OF rel] a have "xs = []" using chain_null by fastforce
      moreover have "lq_rel c qs (lq_goto t LqIdle s) a"
        using PopLoad by (intro lq_rel_goto [OF rel]) auto
      ultimately show ?thesis using ex PopLoad True a rel by (auto split: if_splits)
    next
      case False
      with lq_rel_chain [OF rel] have "lq_head s \<in> set qs" using chain_nonnull by fastforce
      with PopLoad t have "lq_rel c qs (lq_goto t (PopNext w (lq_head s)) s) a"
        by (intro lq_rel_goto [OF rel]) auto
      with ex PopLoad False show ?thesis by auto
    qed
  next
    case (PopNext w i)
    then have t: "t = c" and i: "i \<in> set qs"
      using lq_rel_popper [OF rel, of t] lq_rel_expects [OF rel, of t] by auto
    then obtain v n where node: "lq_nodes s i = Some (v, n)" using lq_rel_linked [OF rel] by fastforce
    with PopNext t i have "lq_rel c qs (lq_goto t (PopCas w i n) s) a"
      by (intro lq_rel_goto [OF rel]) auto
    with ex PopNext node show ?thesis by auto
  next
    case (PopCas w i n)
    then have t: "t = c" using lq_rel_popper [OF rel, of t] by simp
    show ?thesis
    proof (cases "lq_head s = i")
      case True
      obtain v xs' qs' where "xs = v # xs'"
        and "lq_rel c qs' (lq_goto t (PopTake i) (s\<lparr>lq_head := n\<rparr>)) (xs', tk(t := Some v))"
        by (rule lq_rel_unlink [OF rel [unfolded a] PopCas True])
      with ex PopCas True a show ?thesis by auto
    next
      case False
      from PopCas t have "lq_rel c qs (lq_goto t (PopLoad w) s) a"
        by (intro lq_rel_goto [OF rel]) auto
      with ex PopCas False show ?thesis by auto
    qed
  next
    case (PopTake i)
    with owned obtain v n where node: "lq_nodes s i = Some (v, n)" by auto
    with lq_rel_taken [OF rel, of t] PopTake a have "tk t = Some v" by simp
    with ex PopTake node a lq_rel_delete [OF rel [unfolded a] PopTake] show ?thesis by auto
  qed
qed

lemma sim_step:
  assumes "lq_rel c qs s a" and "lq_step {c} s e s'"
  shows "\<exists>a' qs'. spec_step a e = Some a' \<and> lq_rel c qs' s' a'"
  using assms(2)
proof cases
  case (lq_push t v p)
  from sim_start_push [OF assms(1) lq_push] show ?thesis by auto
next
  case (lq_pop t w)
  with sim_start_pop [OF assms(1), of w e s'] show ?thesis by auto
next
  case (lq_go t)
  then show ?thesis using sim_continue [OF assms(1)] by auto
qed

lemma sim_run:
  assumes "lq_run {c} es s"
  shows "\<exists>a qs. spec_run ([], \<lambda>_. None) es = Some a \<and> lq_rel c qs s a"
  using assms
proof (induction rule: lq_run.induct)
  case lq_start
  show ?case using lq_rel_init by auto
next
  case (lq_next es s e s')
  then show ?case
    using sim_step by (fastforce simp: spec_run_append)
qed

section \<open>Conservation\<close>

fun pushed :: "'a lq_event list \<Rightarrow> 'a list" where
  "pushed [] = []"
| "pushed (Pushed t v # es) = v # pushed es"
| "pushed (_ # es) = pushed es"

fun returned :: "'a lq_event list \<Rightarrow> 'a list" where
  "returned [] = []"
| "returned (Returned t v # es) = v # returned es"
| "returned (_ # es) = returned es"

lemma pushed_append [simp]: "pushed (es @ fs) = pushed es @ pushed fs"
  by (induction es rule: pushed.induct) auto

lemma returned_append [simp]: "returned (es @ fs) = returned es @ returned fs"
  by (induction es rule: returned.induct) auto

definition in_hand :: "tid \<Rightarrow> 'a stack_spec \<Rightarrow> 'a multiset" where
  "in_hand c a = mset (fst a) + (case snd a c of None \<Rightarrow> {#} | Some v \<Rightarrow> {#v#})"

lemma unlinked_by:
  "lq_step C s (Unlinked t) s' \<Longrightarrow> \<exists>w i n. lq_pcs s t = PopCas w i n"
  by (auto elim!: lq_step.cases split: if_splits)
    (auto elim!: lq_continue.elims split: if_splits option.splits)

lemma returned_by:
  "lq_step C s (Returned t v) s' \<Longrightarrow> \<exists>i. lq_pcs s t = PopTake i"
  by (auto elim!: lq_step.cases split: if_splits)
    (auto elim!: lq_continue.elims split: if_splits option.splits)

lemma conserve_step:
  assumes rel: "lq_rel c qs s a" and st: "lq_step {c} s e s'" and sp: "spec_step a e = Some a'"
  shows "in_hand c a' + mset (returned [e]) = in_hand c a + mset (pushed [e])"
proof (cases e)
  case (Unlinked t)
  with st unlinked_by [of "{c}" s t s'] obtain w i n where pc: "lq_pcs s t = PopCas w i n" by auto
  then have "t = c" using lq_rel_popper [OF rel, of t] by simp
  moreover have "snd a t = None" using lq_rel_taken [OF rel, of t] pc by simp
  ultimately show ?thesis using Unlinked sp
    by (cases a; cases "fst a") (auto simp: in_hand_def)
next
  case (Returned t v)
  with st returned_by [of "{c}" s t v s'] obtain i where "lq_pcs s t = PopTake i" by auto
  then have "t = c" using lq_rel_popper [OF rel, of t] by simp
  with Returned sp show ?thesis by (cases a) (auto simp: in_hand_def split: if_splits)
qed (use sp in \<open>cases a; auto simp: in_hand_def lockless_push_def split: if_splits\<close>)+

lemma sim_run_conserves:
  assumes "lq_run {c} es s"
  shows "\<exists>a qs. spec_run ([], \<lambda>_. None) es = Some a \<and> lq_rel c qs s a \<and>
    mset (pushed es) = mset (returned es) + in_hand c a"
  using assms
proof (induction rule: lq_run.induct)
  case lq_start
  have "in_hand c ([], \<lambda>_. None) = {#}" by (simp add: in_hand_def)
  then show ?case using lq_rel_init [of c] by (intro exI [of _ "([], \<lambda>_. None)"] exI [of _ "[]"]) simp
next
  case (lq_next es s e s')
  then obtain a qs where a: "spec_run ([], \<lambda>_. None) es = Some a" and rel: "lq_rel c qs s a"
    and mset: "mset (pushed es) = mset (returned es) + in_hand c a" by blast
  from sim_step [OF rel lq_next.hyps(2)] obtain a' qs' where
    a': "spec_step a e = Some a'" and rel': "lq_rel c qs' s' a'" by blast
  from conserve_step [OF rel lq_next.hyps(2) a'] mset
  have "mset (pushed (es @ [e])) = mset (returned (es @ [e])) + in_hand c a'"
    by (simp add: ac_simps)
  with a a' rel' show ?case by (auto simp: spec_run_append)
qed

lemma spec_run_no_fault: "spec_run a es = Some a' \<Longrightarrow> Faulted t \<notin> set es"
  by (induction es arbitrary: a) (auto split: option.splits)

section \<open>Executing an interleaving\<close>

fun lq_exec_all :: "(tid \<times> 'a lq_action) list \<Rightarrow> 'a lq \<Rightarrow> ('a lq_event list \<times> 'a lq) option" where
  "lq_exec_all [] s = Some ([], s)"
| "lq_exec_all ((t, act) # acts) s =
     (case lq_exec t act s of
        None \<Rightarrow> None
      | Some (e, s') \<Rightarrow>
          (case lq_exec_all acts s' of None \<Rightarrow> None | Some (es, s'') \<Rightarrow> Some (e # es, s'')))"

fun pops_in :: "tid set \<Rightarrow> (tid \<times> 'a lq_action) list \<Rightarrow> bool" where
  "pops_in C [] = True"
| "pops_in C ((t, StartPop w) # acts) = (t \<in> C \<and> pops_in C acts)"
| "pops_in C (_ # acts) = pops_in C acts"

lemma lq_exec_step: "lq_exec t act s = Some (e, s') \<Longrightarrow> pops_in C [(t, act)] \<Longrightarrow> lq_step C s e s'"
  by (cases act) (auto intro: lq_step.intros simp del: lq_exec.simps)

lemma lq_run_exec_all:
  assumes "lq_run C es s" and "lq_exec_all acts s = Some (fs, s')" and "pops_in C acts"
  shows "lq_run C (es @ fs) s'"
  using assms
proof (induction acts arbitrary: es s fs)
  case (Cons p acts)
  obtain t act where p: "p = (t, act)" by (cases p)
  with Cons.prems obtain e s1 gs where e: "lq_exec t act s = Some (e, s1)"
    and gs: "lq_exec_all acts s1 = Some (gs, s')" "fs = e # gs"
    by (auto split: option.splits)
  have pops: "pops_in C [(t, act)]" "pops_in C acts"
    using Cons.prems(3) p by (cases act; simp)+
  have "lq_run C (es @ [e]) s1"
    using Cons.prems(1) lq_exec_step [OF e pops(1)] by (rule lq_next)
  from Cons.IH [OF this gs(1) pops(2)] gs(2) show ?case by simp
qed simp

section \<open>Properties\<close>

text \<open>
  C3: With any number of pushing threads and one popping thread, under every interleaving and every reuse
  of freed addresses, the lock-free queue refines the sequential stack: each successful
  compare-and-swap of a push or a pop is the stack's push or pop at that instant, \<open>try_pop\<close> reports empty
  only when the stack is empty, the value a pop returns is the one it took off, and the nodes linked
  from \<open>head\<close> spell the stack.
\<close>

theorem lockless_queue_refines_stack:
  assumes "lq_run {c} es s"
  shows "\<exists>xs taken qs. spec_run ([], \<lambda>_. None) es = Some (xs, taken) \<and>
    chain (lq_nodes s) (lq_head s) qs xs"
  using sim_run [OF assms] lq_rel_chain by fastforce

theorem lockless_queue_refines_stack_witness:
  "\<exists>xs taken qs s. spec_run ([], \<lambda>_. None) [Tau, Tau, Pushed 2 (7::nat)] = Some (xs, taken) \<and>
     chain (lq_nodes (s :: nat lq)) (lq_head s) qs xs"
proof -
  obtain s where "lq_exec_all [(2, StartPush (7::nat) 1), (2, Continue), (2, Continue)] lq_init =
      Some ([Tau, Tau, Pushed 2 7], s)"
    by (simp add: lq_init_def)
  from lq_run_exec_all [OF lq_start [of "{1}"] this]
  have "lq_run {1} [Tau, Tau, Pushed 2 (7::nat)] s" by simp
  from lockless_queue_refines_stack [OF this] obtain xs taken qs where
    "spec_run ([], \<lambda>_. None) [Tau, Tau, Pushed 2 (7::nat)] = Some (xs, taken)"
    "chain (lq_nodes s) (lq_head s) qs xs" by blast
  then show ?thesis by blast
qed

text \<open>
  With one popping thread no step of any interleaving reads or deletes a node that has been deleted,
  and no message is lost, duplicated or invented: the messages pushed are, as a multiset, those
  returned, those still linked and the one a pop has just taken off.
\<close>

lemma lockless_queue_safe_and_conserving:
  assumes "lq_run {c} es s"
  shows "(\<forall>t. Faulted t \<notin> set es) \<and>
    (\<exists>xs taken. spec_run ([], \<lambda>_. None) es = Some (xs, taken) \<and>
      mset (pushed es) = mset (returned es) + in_hand c (xs, taken))"
proof -
  from sim_run_conserves [OF assms] obtain xs taken where
    "spec_run ([], \<lambda>_. None) es = Some (xs, taken)"
    "mset (pushed es) = mset (returned es) + in_hand c (xs, taken)" by fastforce
  then show ?thesis using spec_run_no_fault by blast
qed

lemma lockless_queue_safe_and_conserving_witness:
  "\<exists>s. lq_run {1} [Tau, Tau, Pushed 1 (7::nat), Tau, Tau, Tau, Unlinked 1, Returned 1 7] s \<and>
    (\<forall>t. Faulted t \<notin> set [Tau, Tau, Pushed 1 (7::nat), Tau, Tau, Tau, Unlinked 1, Returned 1 7])"
proof -
  let ?es = "[Tau, Tau, Pushed 1 (7::nat), Tau, Tau, Tau, Unlinked 1, Returned 1 7]"
  let ?acts = "[(1, StartPush (7::nat) 3), (1, Continue), (1, Continue), (1, StartPop False),
      (1, Continue), (1, Continue), (1, Continue), (1, Continue)]"
  obtain s where "lq_exec_all ?acts lq_init = Some (?es, s)"
    by (simp add: lq_init_def)
  from lq_run_exec_all [OF lq_start [of "{1}"] this] have "lq_run {1} ?es s" by simp
  with lockless_queue_safe_and_conserving [OF this] show ?thesis by blast
qed

text \<open>
  The single popping thread is needed: with two, a reachable interleaving makes one of them read the
  \<open>next\<close> field of a node the other has already deleted.
\<close>

lemma lockless_two_poppers_use_after_free:
  "\<exists>es s. lq_run {1, 2} es (s :: nat lq) \<and> Faulted 1 \<in> set es"
proof -
  let ?acts = "[(1, StartPush (7::nat) 3), (1, Continue), (1, Continue),
      (1, StartPop False), (1, Continue),
      (2, StartPop False), (2, Continue), (2, Continue), (2, Continue), (2, Continue),
      (1, Continue)]"
  obtain es s where "lq_exec_all ?acts lq_init = Some (es, s)" and "Faulted 1 \<in> set es"
    by (simp add: lq_init_def)
  moreover have "pops_in {1, 2} ?acts" by simp
  ultimately show ?thesis using lq_run_exec_all [OF lq_start [of "{1, 2}"]] by fastforce
qed

end
