(* ===== verification/LockedQueue.thy ===== *)
theory LockedQueue
  imports MsgQueue
begin

text \<open>
  \<open>lockedQueue\<close> of \<open>core/util/queue.hpp\<close> under every interleaving: a deque behind a mutex, with a condition
  variable that \<open>push\<close> notifies once, and only when the deque was empty. The mutex gives a first-in
  first-out queue to any number of threads. The single notification is enough for one waiting thread
  and not for two.
\<close>

section \<open>State and steps\<close>

text \<open>
  Where a thread is. \<open>LPushBody\<close>, \<open>LPushUnlock\<close>, \<open>LPopTest\<close> and \<open>LPopUnlock\<close> hold the mutex; \<open>LPushUnlock b\<close>
  remembers \<open>was_empty\<close>, \<open>LPopUnlock r\<close> the result. \<open>LAsleep\<close> is inside \<open>m_queue_cond.wait\<close>; a woken thread
  competes for the mutex again and retests, as the loop around \<open>wait\<close> does.
\<close>

datatype 'a lk_pc =
    LIdle
  | LPushLock 'a
  | LPushBody 'a
  | LPushUnlock bool
  | LNotify
  | LPopLock bool
  | LPopTest bool
  | LAsleep
  | LPopUnlock "'a option"

record 'a lk =
  lk_items :: "'a list"
  lk_mutex :: "nat option"
  lk_pcs :: "nat \<Rightarrow> 'a lk_pc"

definition lk_init :: "'a lk" where
  "lk_init = \<lparr>lk_items = [], lk_mutex = None, lk_pcs = (\<lambda>_. LIdle)\<rparr>"

text \<open>
  \<open>LWake u\<close>: \<open>notify_one\<close> chooses the sleeping thread \<open>u\<close>; \<open>LWakeNone\<close>: there is none. \<open>LSpurious\<close>: a wait
  returns without a notification.
\<close>

datatype 'a lk_action = LStartPush 'a | LStartPop bool | LGo | LWake nat | LWakeNone | LSpurious

datatype 'a lk_event = LTau | LPushed nat 'a | LPopped nat 'a | LFoundEmpty nat | LReturned nat "'a option"

abbreviation lk_goto :: "nat \<Rightarrow> 'a lk_pc \<Rightarrow> 'a lk \<Rightarrow> 'a lk" where
  "lk_goto t pc s \<equiv> s\<lparr>lk_pcs := (lk_pcs s)(t := pc)\<rparr>"

fun lk_go :: "nat \<Rightarrow> 'a lk_pc \<Rightarrow> 'a lk \<Rightarrow> ('a lk_event \<times> 'a lk) option" where
  "lk_go t (LPushLock v) s =
     (if lk_mutex s = None then Some (LTau, lk_goto t (LPushBody v) (s\<lparr>lk_mutex := Some t\<rparr>)) else None)"
| "lk_go t (LPushBody v) s =
     Some (LPushed t v,
       lk_goto t (LPushUnlock (lk_items s = [])) (s\<lparr>lk_items := locked_push v (lk_items s)\<rparr>))"
| "lk_go t (LPushUnlock was_empty) s =
     Some (LTau, lk_goto t (if was_empty then LNotify else LIdle) (s\<lparr>lk_mutex := None\<rparr>))"
| "lk_go t (LPopLock w) s =
     (if lk_mutex s = None then Some (LTau, lk_goto t (LPopTest w) (s\<lparr>lk_mutex := Some t\<rparr>)) else None)"
| "lk_go t (LPopTest w) s =
     (case locked_try_pop (lk_items s) of
        None \<Rightarrow>
          if w then Some (LTau, lk_goto t LAsleep (s\<lparr>lk_mutex := None\<rparr>))
          else Some (LFoundEmpty t, lk_goto t (LPopUnlock None) s)
      | Some (v, rest) \<Rightarrow> Some (LPopped t v, lk_goto t (LPopUnlock (Some v)) (s\<lparr>lk_items := rest\<rparr>)))"
| "lk_go t (LPopUnlock r) s = Some (LReturned t r, lk_goto t LIdle (s\<lparr>lk_mutex := None\<rparr>))"
| "lk_go t _ s = None"

fun lk_exec :: "nat \<Rightarrow> 'a lk_action \<Rightarrow> 'a lk \<Rightarrow> ('a lk_event \<times> 'a lk) option" where
  "lk_exec t (LStartPush v) s =
     (case lk_pcs s t of LIdle \<Rightarrow> Some (LTau, lk_goto t (LPushLock v) s) | _ \<Rightarrow> None)"
| "lk_exec t (LStartPop w) s =
     (case lk_pcs s t of LIdle \<Rightarrow> Some (LTau, lk_goto t (LPopLock w) s) | _ \<Rightarrow> None)"
| "lk_exec t LGo s = lk_go t (lk_pcs s t) s"
| "lk_exec t (LWake u) s =
     (case (lk_pcs s t, lk_pcs s u) of
        (LNotify, LAsleep) \<Rightarrow> Some (LTau, lk_goto u (LPopLock True) (lk_goto t LIdle s))
      | _ \<Rightarrow> None)"
| "lk_exec t LWakeNone s =
     (case lk_pcs s t of LNotify \<Rightarrow> Some (LTau, lk_goto t LIdle s) | _ \<Rightarrow> None)"
| "lk_exec t LSpurious s =
     (case lk_pcs s t of LAsleep \<Rightarrow> Some (LTau, lk_goto t (LPopLock True) s) | _ \<Rightarrow> None)"

text \<open>
  The steps in which only the threads of \<open>C\<close> pop; \<open>notify_one\<close> without effect needs that nobody sleeps.
\<close>

definition lk_allowed :: "nat set \<Rightarrow> nat \<Rightarrow> 'a lk_action \<Rightarrow> 'a lk \<Rightarrow> bool" where
  "lk_allowed C t act s \<longleftrightarrow>
     (case act of
        LStartPop w \<Rightarrow> t \<in> C
      | LWakeNone \<Rightarrow> \<forall>u \<in> C. lk_pcs s u \<noteq> LAsleep
      | _ \<Rightarrow> True)"

inductive lk_step :: "nat set \<Rightarrow> 'a lk \<Rightarrow> 'a lk_event \<Rightarrow> 'a lk \<Rightarrow> bool" for C where
  lk_stepI: "lk_allowed C t act s \<Longrightarrow> lk_exec t act s = Some (e, s') \<Longrightarrow> lk_step C s e s'"

inductive lk_run :: "nat set \<Rightarrow> 'a lk_event list \<Rightarrow> 'a lk \<Rightarrow> bool" for C where
  lk_start: "lk_run C [] lk_init"
| lk_next: "lk_run C es s \<Longrightarrow> lk_step C s e s' \<Longrightarrow> lk_run C (es @ [e]) s'"

section \<open>The invariant\<close>

fun holds_mutex :: "'a lk_pc \<Rightarrow> bool" where
  "holds_mutex (LPushBody _) = True"
| "holds_mutex (LPushUnlock _) = True"
| "holds_mutex (LPopTest _) = True"
| "holds_mutex (LPopUnlock _) = True"
| "holds_mutex _ = False"

fun lk_popping :: "'a lk_pc \<Rightarrow> bool" where
  "lk_popping (LPopLock _) = True"
| "lk_popping (LPopTest _) = True"
| "lk_popping LAsleep = True"
| "lk_popping (LPopUnlock _) = True"
| "lk_popping _ = False"

fun will_notify :: "'a lk_pc \<Rightarrow> bool" where
  "will_notify (LPushUnlock b) = b"
| "will_notify LNotify = True"
| "will_notify _ = False"

definition mutex_inv :: "'a lk \<Rightarrow> bool" where
  "mutex_inv s \<longleftrightarrow> (\<forall>t. holds_mutex (lk_pcs s t) \<longleftrightarrow> lk_mutex s = Some t)"

definition poppers_in :: "nat set \<Rightarrow> 'a lk \<Rightarrow> bool" where
  "poppers_in C s \<longleftrightarrow> (\<forall>t. lk_popping (lk_pcs s t) \<longrightarrow> t \<in> C)"

text \<open>A sleeping consumer with something to take always has a notification on its way.\<close>

definition wakeup_inv :: "nat \<Rightarrow> 'a lk \<Rightarrow> bool" where
  "wakeup_inv c s \<longleftrightarrow>
     (lk_pcs s c = LAsleep \<and> lk_items s \<noteq> [] \<longrightarrow> (\<exists>t. will_notify (lk_pcs s t)))"

lemmas lk_invs = mutex_inv_def poppers_in_def wakeup_inv_def

lemma lk_step_cases:
  assumes "lk_step C s e s'"
  obtains (start_push) t v where "lk_pcs s t = LIdle" "e = LTau" "s' = lk_goto t (LPushLock v) s"
  | (start_pop) t w where "t \<in> C" "lk_pcs s t = LIdle" "e = LTau" "s' = lk_goto t (LPopLock w) s"
  | (push_lock) t v where "lk_pcs s t = LPushLock v" "lk_mutex s = None" "e = LTau"
      "s' = lk_goto t (LPushBody v) (s\<lparr>lk_mutex := Some t\<rparr>)"
  | (push_body) t v where "lk_pcs s t = LPushBody v" "e = LPushed t v"
      "s' = lk_goto t (LPushUnlock (lk_items s = [])) (s\<lparr>lk_items := lk_items s @ [v]\<rparr>)"
  | (push_unlock) t b where "lk_pcs s t = LPushUnlock b" "e = LTau"
      "s' = lk_goto t (if b then LNotify else LIdle) (s\<lparr>lk_mutex := None\<rparr>)"
  | (pop_lock) t w where "lk_pcs s t = LPopLock w" "lk_mutex s = None" "e = LTau"
      "s' = lk_goto t (LPopTest w) (s\<lparr>lk_mutex := Some t\<rparr>)"
  | (sleep) t where "lk_pcs s t = LPopTest True" "lk_items s = []" "e = LTau"
      "s' = lk_goto t LAsleep (s\<lparr>lk_mutex := None\<rparr>)"
  | (found_empty) t where "lk_pcs s t = LPopTest False" "lk_items s = []" "e = LFoundEmpty t"
      "s' = lk_goto t (LPopUnlock None) s"
  | (pop) t w v rest where "lk_pcs s t = LPopTest w" "lk_items s = v # rest" "e = LPopped t v"
      "s' = lk_goto t (LPopUnlock (Some v)) (s\<lparr>lk_items := rest\<rparr>)"
  | (pop_unlock) t r where "lk_pcs s t = LPopUnlock r" "e = LReturned t r"
      "s' = lk_goto t LIdle (s\<lparr>lk_mutex := None\<rparr>)"
  | (wake) t u where "lk_pcs s t = LNotify" "lk_pcs s u = LAsleep" "e = LTau"
      "s' = lk_goto u (LPopLock True) (lk_goto t LIdle s)"
  | (wake_none) t where "lk_pcs s t = LNotify" "\<forall>u \<in> C. lk_pcs s u \<noteq> LAsleep" "e = LTau"
      "s' = lk_goto t LIdle s"
  | (spurious) t where "lk_pcs s t = LAsleep" "e = LTau" "s' = lk_goto t (LPopLock True) s"
  using assms
proof cases
  case (lk_stepI t act)
  show ?thesis
  proof (cases act)
    case (LStartPush v)
    with lk_stepI start_push show ?thesis by (auto split: lk_pc.splits)
  next
    case (LStartPop w)
    with lk_stepI start_pop show ?thesis by (auto simp: lk_allowed_def split: lk_pc.splits)
  next
    case (LWake u)
    with lk_stepI wake show ?thesis by (auto split: lk_pc.splits)
  next
    case LWakeNone
    with lk_stepI wake_none show ?thesis by (auto simp: lk_allowed_def split: lk_pc.splits)
  next
    case LSpurious
    with lk_stepI spurious show ?thesis by (auto split: lk_pc.splits)
  next
    case LGo
    with lk_stepI have go: "lk_go t (lk_pcs s t) s = Some (e, s')" by simp
    show ?thesis
    proof (cases "lk_pcs s t")
      case (LPopTest w)
      with go show ?thesis
        by (cases "lk_items s"; cases w) (auto intro: sleep found_empty pop)
    qed (use go in \<open>auto simp: locked_push_def intro: push_lock push_body push_unlock pop_lock pop_unlock
          split: if_splits\<close>)
  qed
qed

lemma mutex_inv_goto:
  assumes "mutex_inv s" and "lk_mutex s2 = lk_mutex s" and "holds_mutex pc = holds_mutex (lk_pcs s t)"
  shows "mutex_inv (s2\<lparr>lk_pcs := (lk_pcs s)(t := pc)\<rparr>)"
  using assms by (simp add: mutex_inv_def)

lemma mutex_inv_acquire:
  assumes "mutex_inv s" and "lk_mutex s = None" and "holds_mutex pc"
  shows "mutex_inv (s\<lparr>lk_mutex := Some t, lk_pcs := (lk_pcs s)(t := pc)\<rparr>)"
  using assms by (simp add: mutex_inv_def)

lemma mutex_inv_release:
  assumes "mutex_inv s" and "holds_mutex (lk_pcs s t)" and "\<not> holds_mutex pc"
  shows "mutex_inv (s\<lparr>lk_mutex := None, lk_pcs := (lk_pcs s)(t := pc)\<rparr>)"
proof -
  from assms(1,2) have "lk_mutex s = Some t" by (simp add: mutex_inv_def)
  with assms show ?thesis by (simp add: mutex_inv_def)
qed

lemma mutex_inv_step:
  assumes "lk_step C s e s'" and inv: "mutex_inv s"
  shows "mutex_inv s'"
  using assms(1)
proof (cases rule: lk_step_cases)
  case (wake t u)
  with mutex_inv_goto [OF inv, of s LIdle t] have "mutex_inv (lk_goto t LIdle s)" by simp
  with wake mutex_inv_goto [of "lk_goto t LIdle s" "lk_goto t LIdle s" "LPopLock True" u]
  show ?thesis by auto
qed (auto intro!: mutex_inv_goto [OF inv] mutex_inv_acquire [OF inv] mutex_inv_release [OF inv])

lemma poppers_in_goto:
  assumes "poppers_in C s" and "lk_popping pc \<Longrightarrow> t \<in> C"
  shows "poppers_in C (s2\<lparr>lk_pcs := (lk_pcs s)(t := pc)\<rparr>)"
  using assms by (simp add: poppers_in_def)

lemma poppers_in_mem: "poppers_in C s \<Longrightarrow> lk_popping (lk_pcs s t) \<Longrightarrow> t \<in> C"
  by (simp add: poppers_in_def)

lemma poppers_in_step:
  assumes "lk_step C s e s'" and inv: "poppers_in C s"
  shows "poppers_in C s'"
  using assms(1)
proof (cases rule: lk_step_cases)
  case (wake t u)
  with poppers_in_mem [OF inv, of u] have "u \<in> C" by simp
  with wake inv show ?thesis by (simp add: poppers_in_def)
qed (use poppers_in_mem [OF inv] in \<open>auto intro!: poppers_in_goto [OF inv]\<close>)

lemma wakeup_inv_goto:
  assumes inv: "wakeup_inv c s" and pcs: "lk_pcs s2 = lk_pcs s"
    and items: "lk_items s2 \<noteq> [] \<Longrightarrow> lk_items s \<noteq> []" and "pc \<noteq> LAsleep"
    and notify: "will_notify (lk_pcs s t) \<Longrightarrow> will_notify pc"
  shows "wakeup_inv c (s2\<lparr>lk_pcs := (lk_pcs s)(t := pc)\<rparr>)"
  unfolding wakeup_inv_def
proof
  let ?s = "s2\<lparr>lk_pcs := (lk_pcs s)(t := pc)\<rparr>"
  assume asleep: "lk_pcs ?s c = LAsleep \<and> lk_items ?s \<noteq> []"
  with \<open>pc \<noteq> LAsleep\<close> pcs have "c \<noteq> t" and "lk_pcs s c = LAsleep"
    by (auto split: if_splits)
  with asleep items inv obtain u where u: "will_notify (lk_pcs s u)"
    by (auto simp: wakeup_inv_def)
  show "\<exists>u. will_notify (lk_pcs ?s u)"
  proof (cases "u = t")
    case True
    with u notify show ?thesis by (intro exI [of _ t]) simp
  next
    case False
    with u pcs show ?thesis by (intro exI [of _ u]) simp
  qed
qed

lemma wakeup_inv_awake: "lk_pcs s c \<noteq> LAsleep \<Longrightarrow> wakeup_inv c s"
  by (simp add: wakeup_inv_def)

lemma wakeup_inv_step:
  assumes "lk_step {c} s e s'" and popper: "poppers_in {c} s" and inv: "wakeup_inv c s"
  shows "wakeup_inv c s'"
  using assms(1)
proof (cases rule: lk_step_cases)
  case (push_body t v)
  show ?thesis
  proof (cases "lk_items s = []")
    case True
    with push_body show ?thesis by (auto simp: wakeup_inv_def)
  next
    case False
    with push_body show ?thesis by (auto intro!: wakeup_inv_goto [OF inv])
  qed
next
  case (sleep t)
  then show ?thesis by (simp add: wakeup_inv_def)
next
  case (wake t u)
  with popper have "u = c" by (auto simp: poppers_in_def)
  with wake show ?thesis by (simp add: wakeup_inv_awake)
next
  case (wake_none t)
  then show ?thesis by (simp add: wakeup_inv_awake)
next
  case (pop t w v rest)
  with popper have "t = c" by (auto simp: poppers_in_def)
  with pop show ?thesis by (simp add: wakeup_inv_awake)
next
  case (spurious t)
  then show ?thesis by (auto intro!: wakeup_inv_goto [OF inv])
qed (auto intro!: wakeup_inv_goto [OF inv])

lemma lk_run_inv:
  "lk_run C es s \<Longrightarrow> mutex_inv s \<and> poppers_in C s"
proof (induction rule: lk_run.induct)
  case lk_start
  show ?case by (simp add: mutex_inv_def poppers_in_def lk_init_def)
next
  case (lk_next es s e s')
  then show ?case using mutex_inv_step poppers_in_step by blast
qed

lemma lk_run_wakeup: "lk_run {c} es s \<Longrightarrow> wakeup_inv c s"
proof (induction rule: lk_run.induct)
  case lk_start
  show ?case by (simp add: wakeup_inv_def lk_init_def)
next
  case (lk_next es s e s')
  then show ?case using wakeup_inv_step lk_run_inv by blast
qed

section \<open>Order of the elements\<close>

fun lpushed :: "'a lk_event list \<Rightarrow> 'a list" where
  "lpushed [] = []"
| "lpushed (LPushed t v # es) = v # lpushed es"
| "lpushed (_ # es) = lpushed es"

fun lpopped :: "'a lk_event list \<Rightarrow> 'a list" where
  "lpopped [] = []"
| "lpopped (LPopped t v # es) = v # lpopped es"
| "lpopped (_ # es) = lpopped es"

lemma lpushed_append [simp]: "lpushed (es @ fs) = lpushed es @ lpushed fs"
  by (induction es rule: lpushed.induct) auto

lemma lpopped_append [simp]: "lpopped (es @ fs) = lpopped es @ lpopped fs"
  by (induction es rule: lpopped.induct) auto

lemma lk_step_order: "lk_step C s e s' \<Longrightarrow> lpopped [e] @ lk_items s' = lk_items s @ lpushed [e]"
  by (erule lk_step_cases) auto

lemma lk_run_order: "lk_run C es s \<Longrightarrow> lpopped es @ lk_items s = lpushed es"
proof (induction rule: lk_run.induct)
  case (lk_next es s e s')
  then have "lpopped (es @ [e]) @ lk_items s' = lpopped es @ (lk_items s @ lpushed [e])"
    using lk_step_order [OF lk_next.hyps(2)] by simp
  also have "\<dots> = lpushed (es @ [e])" using lk_next.IH by simp
  finally show ?case .
qed (simp add: lk_init_def)

section \<open>Executing an interleaving\<close>

fun lk_exec_all :: "(nat \<times> 'a lk_action) list \<Rightarrow> 'a lk \<Rightarrow> ('a lk_event list \<times> 'a lk) option" where
  "lk_exec_all [] s = Some ([], s)"
| "lk_exec_all ((t, act) # acts) s =
     (case lk_exec t act s of
        None \<Rightarrow> None
      | Some (e, s') \<Rightarrow>
          (case lk_exec_all acts s' of None \<Rightarrow> None | Some (es, s'') \<Rightarrow> Some (e # es, s'')))"

text \<open>A schedule whose pops stay in \<open>C\<close> and whose notifications always find a sleeper.\<close>

definition plain_schedule :: "nat set \<Rightarrow> (nat \<times> 'a lk_action) list \<Rightarrow> bool" where
  "plain_schedule C acts \<longleftrightarrow>
     list_all (\<lambda>(t, act). act \<noteq> LWakeNone \<and> (\<forall>w. act = LStartPop w \<longrightarrow> t \<in> C)) acts"

lemma lk_run_exec_all:
  assumes "lk_run C es s" and "lk_exec_all acts s = Some (fs, s')" and "plain_schedule C acts"
  shows "lk_run C (es @ fs) s'"
  using assms
proof (induction acts arbitrary: es s fs)
  case (Cons p acts)
  obtain t act where p: "p = (t, act)" by (cases p)
  with Cons.prems obtain e s1 gs where e: "lk_exec t act s = Some (e, s1)"
    and gs: "lk_exec_all acts s1 = Some (gs, s')" "fs = e # gs"
    by (auto split: option.splits)
  from Cons.prems(3) p have "lk_allowed C t act s" and rest: "plain_schedule C acts"
    by (auto simp: lk_allowed_def plain_schedule_def split: lk_action.splits)
  with e have "lk_step C s e s1" by (intro lk_stepI)
  with Cons.prems(1) have "lk_run C (es @ [e]) s1" by (rule lk_next)
  from Cons.IH [OF this gs(1) rest] gs(2) show ?case by simp
qed simp

section \<open>Properties\<close>

text \<open>
  C28: \<open>lockedQueue\<close> is first-in first-out for any number of pushing and popping threads: under every
  interleaving the elements popped so far, followed by those still in the deque, are the elements
  pushed, in the order of the pushes; and at most one thread is ever between a lock and its unlock.
\<close>

theorem locked_queue_is_fifo:
  assumes "lk_run C es s"
  shows "lpopped es @ lk_items s = lpushed es \<and>
    (\<forall>t u. holds_mutex (lk_pcs s t) \<and> holds_mutex (lk_pcs s u) \<longrightarrow> t = u)"
proof -
  from lk_run_inv [OF assms] have "holds_mutex (lk_pcs s t) \<longleftrightarrow> lk_mutex s = Some t" for t
    by (simp add: mutex_inv_def)
  with lk_run_order [OF assms] show ?thesis by auto
qed

theorem locked_queue_is_fifo_witness:
  "\<exists>s. lk_run {1} [LTau, LTau, LPushed 2 (5::nat), LTau] s \<and>
     lpopped [LTau, LTau, LPushed 2 (5::nat), LTau] @ lk_items s = [5]"
proof -
  let ?es = "[LTau, LTau, LPushed 2 (5::nat), LTau]"
  obtain s where "lk_exec_all [(2, LStartPush (5::nat)), (2, LGo), (2, LGo), (2, LGo)] lk_init = Some (?es, s)"
    by (simp add: lk_init_def locked_push_def)
  from lk_run_exec_all [OF lk_start [of "{1}"] this] have run: "lk_run {1} ?es s"
    by (simp add: plain_schedule_def)
  with locked_queue_is_fifo [OF run] show ?thesis by auto
qed

text \<open>
  C29: With one popping thread no wakeup is lost: whenever that thread sleeps in \<open>wait_pop\<close> while the deque
  holds something, some pushing thread still has its notification to give, and its next step is
  enabled.
\<close>

theorem locked_queue_no_lost_wakeup:
  assumes "lk_run {c} es s" and "lk_pcs s c = LAsleep" and "lk_items s \<noteq> []"
  shows "\<exists>t act. act \<in> {LGo, LWake c} \<and> will_notify (lk_pcs s t) \<and> lk_exec t act s \<noteq> None"
proof -
  from lk_run_wakeup [OF assms(1)] assms(2,3) obtain t where t: "will_notify (lk_pcs s t)"
    by (auto simp: wakeup_inv_def)
  then consider "lk_pcs s t = LPushUnlock True" | "lk_pcs s t = LNotify"
    by (cases "lk_pcs s t") auto
  then show ?thesis
  proof cases
    case 1
    then show ?thesis by (intro exI [of _ t] exI [of _ LGo]) simp
  next
    case 2
    then show ?thesis using assms(2) by (intro exI [of _ t] exI [of _ "LWake c"]) simp
  qed
qed

theorem locked_queue_no_lost_wakeup_witness:
  "\<exists>s t act. lk_run {1} [LTau, LTau, LTau, LTau, LTau, LPushed 2 (5::nat)] s \<and> lk_pcs s 1 = LAsleep \<and>
     act \<in> {LGo, LWake 1} \<and> will_notify (lk_pcs s t) \<and> lk_exec t act s \<noteq> None"
proof -
  let ?es = "[LTau, LTau, LTau, LTau, LTau, LPushed 2 (5::nat)]"
  let ?acts = "[(1, LStartPop True), (1, LGo), (1, LGo), (2, LStartPush (5::nat)), (2, LGo), (2, LGo)]"
  obtain s where ex: "lk_exec_all ?acts lk_init = Some (?es, s)" and c: "lk_pcs s 1 = LAsleep"
    and it: "lk_items s \<noteq> []"
    by (simp add: lk_init_def locked_push_def)
  from lk_run_exec_all [OF lk_start [of "{1}"] ex] have run: "lk_run {1} ?es s"
    by (simp add: plain_schedule_def)
  from locked_queue_no_lost_wakeup [OF run c it] run c show ?thesis by blast
qed

text \<open>
  With two popping threads a wakeup can be lost: both sleep, two pushes give one notification
  because the second finds the deque non-empty, and one consumer sleeps on with an element waiting
  while every other thread is idle.
\<close>

lemma locked_queue_two_poppers_lost_wakeup:
  "\<exists>es s. lk_run {1, 2} es (s :: nat lk) \<and> lk_pcs s 2 = LAsleep \<and> lk_items s \<noteq> [] \<and>
     {t. lk_pcs s t \<noteq> LIdle} = {2}"
proof -
  let ?acts = "[(1, LStartPop True), (1, LGo), (1, LGo), (2, LStartPop True), (2, LGo), (2, LGo),
      (3, LStartPush (5::nat)), (3, LGo), (3, LGo), (3, LGo),
      (4, LStartPush 6), (4, LGo), (4, LGo), (4, LGo),
      (3, LWake 1), (1, LGo), (1, LGo), (1, LGo)]"
  obtain es s where ex: "lk_exec_all ?acts lk_init = Some (es, s)"
    and "lk_pcs s 2 = LAsleep" "lk_items s \<noteq> []" and idle: "\<forall>t. t \<noteq> 2 \<longrightarrow> lk_pcs s t = LIdle"
    by (simp add: lk_init_def locked_push_def)
  moreover from lk_run_exec_all [OF lk_start [of "{1, 2}"] ex] have "lk_run {1, 2} es s"
    by (simp add: plain_schedule_def)
  moreover have "{t. lk_pcs s t \<noteq> LIdle} = {2}" using idle \<open>lk_pcs s 2 = LAsleep\<close> by auto
  ultimately show ?thesis by blast
qed

end
