(* ===== verification/PhysicsTick.thy ===== *)
theory PhysicsTick
  imports LocalServer
begin

text \<open>
  The physics thread of \<open>server/bullet/btphysics.cpp\<close>: \<open>parseMessage\<close>, the body of the loop of \<open>run\<close>, and
  the removal of everything after it. The thread calls back into the server, so its state is the
  server's, of which the physics is a member.
\<close>

section \<open>Handling one message\<close>

definition set_state :: "oid \<Rightarrow> u16 \<Rightarrow> ('f, 'w) server \<Rightarrow> ('f, 'w) server" where
  "set_state i st s = s\<lparr>m_physics := setInputStateCallback i st (m_physics s)\<rparr>"

text \<open>
  \<open>AddPhysMessage\<close>: the first template of the table that has the name; an unknown name is reported and
  nothing is created. The assignment \<open>m_objects[id] = object\<close> overwrites an entry that is there.
\<close>

definition add_plane ::
    "('f, 'v, 'w) bullet \<Rightarrow> oid \<Rightarrow> string \<Rightarrow> 'f list \<Rightarrow> ('f, 'w) physics \<Rightarrow> ('f, 'w) physics" where
  "add_plane B i templ mat p =
     (case map_of planes templ of
        None \<Rightarrow> p
      | Some normal \<Rightarrow>
          let (h, w) = bt_add_plane B normal mat (ph_world p)
          in p\<lparr>ph_world := w, ph_objects := map_put i h (ph_objects p)\<rparr>)"

definition add_character ::
    "('f, 'v, 'w) bullet \<Rightarrow> oid \<Rightarrow> 'f list \<Rightarrow> ('f, 'w) physics \<Rightarrow> ('f, 'w) physics" where
  "add_character B i mat p =
     (let (h, w) = bt_add_character B mat (ph_world p)
      in p\<lparr>ph_world := w,
           ph_characters := map_put i \<lparr>ch_handle = h, ch_state = 0\<rparr> (ph_characters p)\<rparr>)"

text \<open>
  \<open>DelPhysMessage\<close> and \<open>DelCharMessage\<close> read \<open>m_objects[id]\<close>, which gives a null pointer for an unknown
  identifier, erase the entry, and use the pointer.
\<close>

definition del_plane ::
    "('f, 'v, 'w) bullet \<Rightarrow> oid \<Rightarrow> ('f, 'w) physics \<Rightarrow> fault + ('f, 'w) physics" where
  "del_plane B i p =
     res_bind (deref (map_find i (ph_objects p))) (\<lambda>h.
       Inr (p\<lparr>ph_objects := map_erase i (ph_objects p), ph_world := bt_remove_plane B h (ph_world p)\<rparr>))"

definition del_character ::
    "('f, 'v, 'w) bullet \<Rightarrow> oid \<Rightarrow> ('f, 'w) physics \<Rightarrow> fault + ('f, 'w) physics" where
  "del_character B i p =
     res_bind (deref (map_find i (ph_characters p))) (\<lambda>ch.
       Inr (p\<lparr>ph_characters := map_erase i (ph_characters p),
              ph_world := bt_remove_character B (ch_handle ch) (ph_world p)\<rparr>))"

definition in_physics ::
    "(('f, 'w) physics \<Rightarrow> fault + ('f, 'w) physics) \<Rightarrow> ('f, 'w) server \<Rightarrow> fault + ('f, 'w) server" where
  "in_physics f s = res_bind (f (m_physics s)) (\<lambda>p. Inr (s\<lparr>m_physics := p\<rparr>))"

fun parseMessage ::
    "('f, 'v, 'w) bullet \<Rightarrow> 'f server_msg \<Rightarrow> ('f, 'w) server \<Rightarrow> fault + ('f, 'w) server" where
  "parseMessage B (ForceStateMsg i st) s = Inr (set_state i st s)"
| "parseMessage B (ServerInputMsg c st) s =
     (let (i, s) = getClientId c s
      in case st of None \<Rightarrow> Inl Indeterminate | Some st \<Rightarrow> Inr (set_state i st s))"
| "parseMessage B (AddPhysObjMsg i templ mat) s = in_physics (\<lambda>p. Inr (add_plane B i templ mat p)) s"
| "parseMessage B (AddCharObjMsg i templ mat) s = in_physics (\<lambda>p. Inr (add_character B i mat p)) s"
| "parseMessage B (DelPhysObjMsg i) s = in_physics (del_plane B i) s"
| "parseMessage B (DelCharObjMsg i) s = in_physics (del_character B i) s"
| "parseMessage B _ s = Inr s"

section \<open>One tick\<close>

text \<open>
  The loop that empties the queue; \<open>None\<close> would mean that it does not end. Messages other threads push
  while it runs are in the queue of a later tick.
\<close>

definition handle_messages ::
    "('f, 'v, 'w) bullet \<Rightarrow> ('f, 'w) server \<Rightarrow> (fault + ('f, 'w) server) option" where
  "handle_messages B s =
     map_option
       (\<lambda>(r, q). res_bind r (\<lambda>s. Inr (s\<lparr>m_physics := (m_physics s)\<lparr>ph_queue := q\<rparr>\<rparr>)))
       (drain queue_try_pop (parseMessage B) (ph_queue (m_physics s))
         (s\<lparr>m_physics := (m_physics s)\<lparr>ph_queue := []\<rparr>\<rparr>))"

definition transforms :: "('f, 'v, 'w) bullet \<Rightarrow> ('f, 'w) physics \<Rightarrow> (oid \<times> float_bits list) list" where
  "transforms B p = map (\<lambda>(i, ch). (i, bt_gl_matrix B (ch_handle ch) (ph_world p))) (ph_characters p)"

definition simulate :: "('f, 'v, 'w) bullet \<Rightarrow> ('f, 'w) physics \<Rightarrow> ('f, 'w) physics" where
  "simulate B p = (let p = updateCharacterObjects B p in p\<lparr>ph_world := bt_step B (ph_world p)\<rparr>)"

definition physics_tick ::
    "('f, 'v, 'w) bullet \<Rightarrow> ('f, 'w) server \<Rightarrow> (fault + ('f, 'w) server) option" where
  "physics_tick B s =
     map_option
       (\<lambda>r. res_bind r (\<lambda>s.
          let p = simulate B (m_physics s);
              ct = transforms B p
          in pushClientTransforms ct (runTickCallbacks (s\<lparr>m_physics := p\<rparr>))))
       (handle_messages B s)"

text \<open>After the loop: every character and then every plane leaves the world and is deleted.\<close>

definition physics_shutdown :: "('f, 'v, 'w) bullet \<Rightarrow> ('f, 'w) physics \<Rightarrow> ('f, 'w) physics" where
  "physics_shutdown B p =
     p\<lparr>ph_world := fold (\<lambda>(_, h). bt_remove_plane B h) (ph_objects p)
         (fold (\<lambda>(_, ch). bt_remove_character B (ch_handle ch)) (ph_characters p) (ph_world p))\<rparr>"

section \<open>What the messages touch\<close>

lemma add_plane_simps [simp]:
  "ph_characters (add_plane B i t mat p) = ph_characters p"
  "ph_queue (add_plane B i t mat p) = ph_queue p"
  "ph_objects (add_plane B i t mat p) =
     (case map_of planes t of None \<Rightarrow> ph_objects p
      | Some n \<Rightarrow> map_put i (fst (bt_add_plane B n mat (ph_world p))) (ph_objects p))"
  "ph_world (add_plane B i t mat p) =
     (case map_of planes t of None \<Rightarrow> ph_world p | Some n \<Rightarrow> snd (bt_add_plane B n mat (ph_world p)))"
  by (auto simp: add_plane_def Let_def case_prod_unfold split: option.split)

lemma add_character_simps [simp]:
  "ph_objects (add_character B i mat p) = ph_objects p"
  "ph_queue (add_character B i mat p) = ph_queue p"
  "ph_characters (add_character B i mat p) =
     map_put i \<lparr>ch_handle = fst (bt_add_character B mat (ph_world p)), ch_state = 0\<rparr> (ph_characters p)"
  "ph_world (add_character B i mat p) = snd (bt_add_character B mat (ph_world p))"
  by (auto simp: add_character_def Let_def case_prod_unfold)

lemma in_physics_simps [simp]:
  "in_physics (\<lambda>p. Inr (f p)) s = Inr (s\<lparr>m_physics := f (m_physics s)\<rparr>)"
  "in_physics (del_plane B i) s =
     (case map_find i (ph_objects (m_physics s)) of None \<Rightarrow> Inl NullDereference
      | Some h \<Rightarrow> Inr (s\<lparr>m_physics := (m_physics s)\<lparr>
          ph_objects := map_erase i (ph_objects (m_physics s)),
          ph_world := bt_remove_plane B h (ph_world (m_physics s))\<rparr>\<rparr>))"
  "in_physics (del_character B i) s =
     (case map_find i (ph_characters (m_physics s)) of None \<Rightarrow> Inl NullDereference
      | Some ch \<Rightarrow> Inr (s\<lparr>m_physics := (m_physics s)\<lparr>
          ph_characters := map_erase i (ph_characters (m_physics s)),
          ph_world := bt_remove_character B (ch_handle ch) (ph_world (m_physics s))\<rparr>\<rparr>))"
  by (auto simp: in_physics_def del_plane_def del_character_def split: option.split)

section \<open>The loop ends and handles every message once\<close>

lemma queue_pending: "queue_try_pop [] = None" "queue_try_pop (m # q) = Some (m, q)"
  by (simp_all add: queue_try_pop_def)

lemma drain_queue:
  "\<exists>q'. drain queue_try_pop h q s = Some (fold_res h q s, q') \<and> (\<forall>t. fold_res h q s = Inr t \<longrightarrow> q' = [])"
proof (induction q arbitrary: s)
  case Nil
  have "drain queue_try_pop h [] s = Some (Inr s, [])"
    by (subst drain.simps) (simp add: queue_pending)
  then show ?case by simp
next
  case (Cons m q)
  have "drain queue_try_pop h (m # q) s =
      (case h m s of Inl e \<Rightarrow> Some (Inl e, q) | Inr s' \<Rightarrow> drain queue_try_pop h q s')"
    by (subst drain.simps) (simp add: queue_pending)
  with Cons.IH show ?case by (cases "h m s") simp_all
qed

definition without_queue :: "('f, 'w) server \<Rightarrow> ('f, 'w) server" where
  "without_queue s = s\<lparr>m_physics := (m_physics s)\<lparr>ph_queue := []\<rparr>\<rparr>"

lemma handle_messages_fold:
  "handle_messages B s =
     Some (res_bind (fold_res (parseMessage B) (ph_queue (m_physics s)) (without_queue s))
             (\<lambda>s. Inr (without_queue s)))"
proof -
  let ?f = "fold_res (parseMessage B) (ph_queue (m_physics s)) (without_queue s)"
  obtain q where d: "drain queue_try_pop (parseMessage B) (ph_queue (m_physics s)) (without_queue s) =
      Some (?f, q)" and q: "\<forall>t. ?f = Inr t \<longrightarrow> q = []"
    using drain_queue [of "parseMessage B" "ph_queue (m_physics s)" "without_queue s"] by blast
  have "handle_messages B s =
      Some (res_bind ?f (\<lambda>s. Inr (s\<lparr>m_physics := (m_physics s)\<lparr>ph_queue := q\<rparr>\<rparr>)))"
    unfolding handle_messages_def d [unfolded without_queue_def] option.map prod.case without_queue_def ..
  moreover have "res_bind ?f (\<lambda>s. Inr (s\<lparr>m_physics := (m_physics s)\<lparr>ph_queue := q\<rparr>\<rparr>)) =
      res_bind ?f (\<lambda>s. Inr (without_queue s))"
    using q by (cases ?f) (simp_all only: res_bind_simps without_queue_def simp_thms)
  ultimately show ?thesis by (rule trans [OF _ arg_cong [of _ _ Some]])
qed

end
