(* ===== verification/PhysicsProperties.thy ===== *)
theory PhysicsProperties
  imports PhysicsTick
begin

text \<open>
  What a physics tick does: a refinement to the sets of identifiers in the world, the effect of input on
  the characters, the bodies Bullet holds, and what the order of the default queue does to messages
  that belong together.
\<close>

section \<open>Abstraction: the identifiers in the world\<close>

type_synonym id_sets = "oid set \<times> oid set"

definition phys_ids :: "('f, 'w) physics \<Rightarrow> id_sets" where
  "phys_ids p = (fst ` set (ph_objects p), fst ` set (ph_characters p))"

text \<open>What a message does to the identifiers of planes and characters; \<open>None\<close> is the null dereference.\<close>

fun id_effect :: "'f server_msg \<Rightarrow> id_sets \<Rightarrow> id_sets option" where
  "id_effect (AddPhysObjMsg i templ _) (os, cs) =
     Some (if templ \<in> fst ` set planes then insert i os else os, cs)"
| "id_effect (AddCharObjMsg i _ _) (os, cs) = Some (os, insert i cs)"
| "id_effect (DelPhysObjMsg i) (os, cs) = (if i \<in> os then Some (os - {i}, cs) else None)"
| "id_effect (DelCharObjMsg i) (os, cs) = (if i \<in> cs then Some (os, cs - {i}) else None)"
| "id_effect _ ids = Some ids"

fun ids_effect :: "'f server_msg list \<Rightarrow> id_sets \<Rightarrow> id_sets option" where
  "ids_effect [] ids = Some ids"
| "ids_effect (m # ms) ids = (case id_effect m ids of None \<Rightarrow> None | Some ids' \<Rightarrow> ids_effect ms ids')"

text \<open>Input of clients that exist, with the state written.\<close>

fun input_ok :: "'f server_msg \<Rightarrow> ('f, 'w) server \<Rightarrow> bool" where
  "input_ok (ServerInputMsg c st) s = (live_client c s \<and> st \<noteq> None)"
| "input_ok _ s = True"

definition phys_ok :: "('f, 'w) server \<Rightarrow> bool" where
  "phys_ok s \<longleftrightarrow> server_ok s \<and> clients_live s"

lemma setInputStateCallback_keys [simp]:
  "fst ` set (ph_characters (setInputStateCallback i st p)) = fst ` set (ph_characters p)"
proof (cases "map_find i (ph_characters p)")
  case (Some ch)
  then have "i \<in> fst ` set (ph_characters p)" using map_find_None_iff [of i "ph_characters p"] by auto
  with Some show ?thesis by (simp add: setInputStateCallback_def insert_absorb)
qed (simp add: setInputStateCallback_def)

lemma set_map_erase_keys: "fst ` set (map_erase k m) = fst ` set m - {k}"
  by (auto simp: set_map_erase)

lemma map_of_planes: "(map_of planes t = None) = (t \<notin> fst ` set planes)"
  by (rule map_of_eq_None_iff)

lemma phys_ids_ops:
  "phys_ids (setInputStateCallback i st p) = phys_ids p"
  "phys_ids (add_plane B i t mat p) =
     (if t \<in> fst ` set planes then insert i (fst (phys_ids p)) else fst (phys_ids p), snd (phys_ids p))"
  "phys_ids (add_character B i mat p) = (fst (phys_ids p), insert i (snd (phys_ids p)))"
  using map_of_planes [of t] by (auto simp: phys_ids_def split: option.split)

lemma ok_ops:
  assumes "map_ok (ph_objects p)" and "map_ok (ph_characters p)"
  shows "map_ok (ph_objects (add_plane B i t mat p))" "map_ok (ph_characters (add_plane B i t mat p))"
    "map_ok (ph_objects (add_character B i mat p))" "map_ok (ph_characters (add_character B i mat p))"
  using assms by (auto split: option.split)

lemma getClientId_ok:
  assumes "phys_ok s" and "live_client c s"
  shows "phys_ok (snd (getClientId c s))"
  using assms everybody_put [of c 0 s]
  by (auto simp: phys_ok_def getClientId_state server_ok_def clients_live_def live_client_def)

lemma getClientId_frame [simp]:
  "m_physics (snd (getClientId c s)) = m_physics s" "srv_live (snd (getClientId c s)) = srv_live s"
  by (simp_all add: getClientId_state)

lemma phys_ok_physics:
  assumes "phys_ok s" and "map_ok (ph_objects p)" and "map_ok (ph_characters p)"
  shows "phys_ok (s\<lparr>m_physics := p\<rparr>)"
  using assms by (simp add: phys_ok_def server_ok_def clients_live_def)

text \<open>Each message refines its effect on the identifiers and keeps the invariant.\<close>

lemma parse_refines:
  assumes ok: "phys_ok s" and input: "input_ok m s"
  shows "case id_effect m (phys_ids (m_physics s)) of
      None \<Rightarrow> parseMessage B m s = Inl NullDereference
    | Some ids \<Rightarrow> \<exists>s'. parseMessage B m s = Inr s' \<and> phys_ok s' \<and> phys_ids (m_physics s') = ids \<and>
        srv_live s' = srv_live s"
proof -
  have maps: "map_ok (ph_objects (m_physics s))" "map_ok (ph_characters (m_physics s))"
    using ok by (simp_all add: phys_ok_def server_ok_def)
  show ?thesis
  proof (cases m)
    case (ServerInputMsg c st)
    then obtain st' where st: "st = Some st'" and live: "live_client c s" using input by auto
    let ?s = "snd (getClientId c s)" and ?i = "fst (getClientId c s)"
    have "phys_ok (set_state ?i st' ?s)"
      unfolding set_state_def using getClientId_ok [OF ok live] maps by (intro phys_ok_physics) auto
    then show ?thesis
      using ServerInputMsg st by (simp add: Let_def case_prod_unfold set_state_def phys_ids_ops(1))
  next
    case (AddPhysObjMsg i t mat)
    have "phys_ok (s\<lparr>m_physics := add_plane B i t mat (m_physics s)\<rparr>)"
      by (intro phys_ok_physics ok ok_ops maps)
    then show ?thesis using AddPhysObjMsg phys_ids_ops(2) [of B i t mat "m_physics s"]
      by (cases "phys_ids (m_physics s)") simp
  next
    case (AddCharObjMsg i t mat)
    have "phys_ok (s\<lparr>m_physics := add_character B i mat (m_physics s)\<rparr>)"
      by (intro phys_ok_physics ok ok_ops maps)
    then show ?thesis using AddCharObjMsg phys_ids_ops(3) [of B i mat "m_physics s"]
      by (simp add: phys_ids_def)
  next
    case (DelPhysObjMsg i)
    then show ?thesis
      using map_find_None_iff [of i "ph_objects (m_physics s)"] ok maps
      by (auto simp: phys_ids_def set_map_erase_keys phys_ok_physics split: option.split)
  next
    case (DelCharObjMsg i)
    then show ?thesis
      using map_find_None_iff [of i "ph_characters (m_physics s)"] ok maps
      by (auto simp: phys_ids_def set_map_erase_keys phys_ok_physics split: option.split)
  next
    case (ForceStateMsg i st)
    have "phys_ok (set_state i st s)"
      unfolding set_state_def using ok maps by (intro phys_ok_physics) auto
    then show ?thesis using ForceStateMsg by (simp add: set_state_def phys_ids_ops(1) phys_ids_def)
  qed (use ok in \<open>auto simp: phys_ids_def\<close>)
qed

lemma fold_parse_refines:
  assumes "phys_ok s" and "\<forall>m \<in> set ms. input_ok m s"
  shows "case ids_effect ms (phys_ids (m_physics s)) of
      None \<Rightarrow> fold_res (parseMessage B) ms s = Inl NullDereference
    | Some ids \<Rightarrow> \<exists>s'. fold_res (parseMessage B) ms s = Inr s' \<and> phys_ok s' \<and>
        phys_ids (m_physics s') = ids \<and> srv_live s' = srv_live s"
  using assms
proof (induction ms arbitrary: s)
  case (Cons m ms)
  show ?case
  proof (cases "id_effect m (phys_ids (m_physics s))")
    case None
    then show ?thesis using parse_refines [of s m B] Cons.prems by simp
  next
    case (Some ids)
    then obtain s1 where s1: "parseMessage B m s = Inr s1" "phys_ok s1" "phys_ids (m_physics s1) = ids"
      "srv_live s1 = srv_live s"
      using parse_refines [of s m B] Cons.prems by auto
    have "input_ok m' s1 = input_ok m' s" for m' :: "'a server_msg"
      using s1(4) by (cases m') (simp_all add: live_client_def)
    with Cons.IH [of s1] Cons.prems s1 Some show ?thesis by (cases "ids_effect ms ids") simp_all
  qed
qed simp

lemma parse_frame:
  "parseMessage B m s = Inr s' \<Longrightarrow>
    srv_sent s' = srv_sent s \<and> m_baddies s' = m_baddies s \<and> m_lobby_clients s' = m_lobby_clients s \<and>
    srv_closed s' = srv_closed s"
  by (cases m)
    (auto simp: set_state_def Let_def case_prod_unfold getClientId_state split: option.splits if_splits)

lemma fold_parse_frame:
  assumes "fold_res (parseMessage B) ms s = Inr s'"
  shows "srv_sent s' = srv_sent s \<and> m_baddies s' = m_baddies s \<and> m_lobby_clients s' = m_lobby_clients s \<and>
    srv_closed s' = srv_closed s"
  by (rule fold_res_invariant [OF assms, where I = "\<lambda>t. srv_sent t = srv_sent s \<and> m_baddies t = m_baddies s \<and>
      m_lobby_clients t = m_lobby_clients s \<and> srv_closed t = srv_closed s"]) (use parse_frame in force)+

lemma simulate_frame [simp]:
  "ph_characters (simulate B p) = ph_characters p" "ph_objects (simulate B p) = ph_objects p"
  "ph_queue (simulate B p) = ph_queue p" "phys_ids (simulate B p) = phys_ids p"
  by (simp_all add: simulate_def phys_ids_def Let_def)

lemma callbacks_keys [simp]:
  "phys_ids (fold (\<lambda>(_, i). setInputStateCallback i st) bs p) = phys_ids p"
  by (induction bs arbitrary: p) (auto simp: phys_ids_ops(1))

lemma runTickCallbacks_phys:
  "phys_ok s \<Longrightarrow> phys_ok (runTickCallbacks s)"
  "phys_ids (m_physics (runTickCallbacks s)) = phys_ids (m_physics s)"
  "ph_queue (m_physics (runTickCallbacks s)) = ph_queue (m_physics s)"
  using server_ok_step [of OpTick s]
  by (auto simp: phys_ok_def clients_live_def) (simp_all add: runTickCallbacks_def Let_def)

lemma phys_ok_without_queue: "phys_ok (without_queue s) = phys_ok s"
  by (simp add: phys_ok_def server_ok_def clients_live_def without_queue_def)

lemma without_queue_simps [simp]:
  "phys_ids (m_physics (without_queue s)) = phys_ids (m_physics s)"
  "srv_live (without_queue s) = srv_live s" "srv_sent (without_queue s) = srv_sent s"
  "srv_closed (without_queue s) = srv_closed s"
  "m_baddies (without_queue s) = m_baddies s" "m_clients (without_queue s) = m_clients s"
  "ph_queue (m_physics (without_queue s)) = []"
  "ph_characters (m_physics (without_queue s)) = ph_characters (m_physics s)"
  by (simp_all add: without_queue_def phys_ids_def)

text \<open>The messages one distribution of transforms pushes.\<close>

definition trans_messages :: "(oid \<times> float_bits list) list \<Rightarrow> ptr list \<Rightarrow> (ptr \<times> client_msg) list" where
  "trans_messages ct cs = concat (map (\<lambda>(i, mat). map (\<lambda>c. (c, ClientTransDrawableMsg i (Some mat))) cs) ct)"

text \<open>A tick after the messages have been handled.\<close>

lemma tick_after_messages:
  assumes "phys_ok s"
  shows "\<exists>s'. (let p = simulate B (m_physics s)
      in pushClientTransforms (transforms B p) (runTickCallbacks (s\<lparr>m_physics := p\<rparr>))) = Inr s' \<and>
    phys_ok s' \<and> phys_ids (m_physics s') = phys_ids (m_physics s) \<and>
    ph_queue (m_physics s') = ph_queue (m_physics s) \<and> everybody s' = everybody s \<and>
    srv_live s' = srv_live s \<and> srv_closed s' = srv_closed s \<and>
    srv_sent s' = srv_sent s @
      trans_messages (transforms B (simulate B (m_physics s))) (everybody s)"
proof -
  let ?s = "s\<lparr>m_physics := simulate B (m_physics s)\<rparr>"
  have ok: "phys_ok ?s"
    using assms by (intro phys_ok_physics) (auto simp: phys_ok_def server_ok_def)
  note tick = runTickCallbacks_phys(1) [OF ok] runTickCallbacks_phys(2,3) [of ?s]
  have "clients_live (runTickCallbacks ?s)" using tick(1) by (simp add: phys_ok_def)
  from pushClientTransforms_live [OF this] tick show ?thesis
    by (simp add: Let_def phys_ok_def server_ok_def clients_live_def trans_messages_def)
qed

lemma physics_tick_ids:
  assumes "phys_ok s" and "\<forall>m \<in> set (ph_queue (m_physics s)). input_ok m s"
  shows "case ids_effect (ph_queue (m_physics s)) (phys_ids (m_physics s)) of
      None \<Rightarrow> physics_tick B s = Some (Inl NullDereference)
    | Some ids \<Rightarrow> \<exists>s' ct. physics_tick B s = Some (Inr s') \<and> phys_ok s' \<and>
        phys_ids (m_physics s') = ids \<and> ph_queue (m_physics s') = [] \<and> srv_live s' = srv_live s \<and>
        srv_closed s' = srv_closed s \<and> fst ` set ct = snd ids \<and> distinct (map fst ct) \<and>
        srv_sent s' = srv_sent s @ trans_messages ct (everybody s')"
proof -
  let ?q = "ph_queue (m_physics s)"
  have "\<forall>m \<in> set ?q. input_ok m (without_queue s)"
  proof
    fix m assume "m \<in> set ?q"
    with assms(2) show "input_ok m (without_queue s)" by (cases m) (auto simp: live_client_def)
  qed
  then have r: "case ids_effect ?q (phys_ids (m_physics s)) of
      None \<Rightarrow> fold_res (parseMessage B) ?q (without_queue s) = Inl NullDereference
    | Some ids \<Rightarrow> \<exists>s'. fold_res (parseMessage B) ?q (without_queue s) = Inr s' \<and> phys_ok s' \<and>
        phys_ids (m_physics s') = ids \<and> srv_live s' = srv_live s"
    using fold_parse_refines [of "without_queue s" ?q B, unfolded phys_ok_without_queue without_queue_simps]
      assms(1) by blast
  show ?thesis
  proof (cases "ids_effect ?q (phys_ids (m_physics s))")
    case None
    with r show ?thesis by (simp add: physics_tick_def handle_messages_fold)
  next
    case (Some ids)
    with r obtain s1 where s1: "fold_res (parseMessage B) ?q (without_queue s) = Inr s1" "phys_ok s1"
      "phys_ids (m_physics s1) = ids" "srv_live s1 = srv_live s" by auto
    let ?s = "without_queue s1"
    let ?ct = "transforms B (simulate B (m_physics ?s))"
    have ok: "phys_ok ?s" using s1(2) by (simp add: phys_ok_without_queue)
    obtain s' where s': "physics_tick B s = Some (Inr s')" "phys_ok s'" "phys_ids (m_physics s') = ids"
      "ph_queue (m_physics s') = []" "everybody s' = everybody ?s" "srv_live s' = srv_live ?s"
      "srv_closed s' = srv_closed ?s" "srv_sent s' = srv_sent ?s @ trans_messages ?ct (everybody ?s)"
      using tick_after_messages [OF ok, of B] s1 by (auto simp: physics_tick_def handle_messages_fold)
    have "map fst ?ct = map fst (ph_characters (m_physics s1))"
      by (simp add: transforms_def comp_def case_prod_unfold)
    moreover have "map_ok (ph_characters (m_physics s1))"
      using s1(2) by (simp add: phys_ok_def server_ok_def)
    ultimately have "distinct (map fst ?ct)" "fst ` set ?ct = snd ids"
      using map_ok_distinct s1(3) by (fastforce, metis image_set phys_ids_def snd_conv)
    with s' Some s1(4) fold_parse_frame [OF s1(1)] show ?thesis by auto
  qed
qed


text \<open>A Bullet for examples: a world is the next handle and the handles in it.\<close>

definition counting_bullet :: "(int, int, nat \<times> nat list) bullet" where
  "counting_bullet =
     \<lparr>bt_add_plane = (\<lambda>n m (k, hs). (k, (Suc k, k # hs))),
      bt_remove_plane = (\<lambda>h (k, hs). (k, filter (\<lambda>x. x \<noteq> h) hs)),
      bt_add_character = (\<lambda>m (k, hs). (k, (Suc k, k # hs))),
      bt_remove_character = (\<lambda>h (k, hs). (k, filter (\<lambda>x. x \<noteq> h) hs)),
      bt_can_jump = (\<lambda>h w. True), bt_axis = (\<lambda>h i w. int i), bt_zero = 0,
      bt_plus = (+), bt_minus = (-), bt_speed = (\<lambda>v. v), bt_turn = (\<lambda>h b w. w),
      bt_jump = (\<lambda>h w. w), bt_set_walk = (\<lambda>h v w. w), bt_step = (\<lambda>w. w),
      bt_gl_matrix = (\<lambda>h w. [word_of_nat h])\<rparr>"


end
