(* ===== verification/PhysicsOrder.thy ===== *)
theory PhysicsOrder
  imports PhysicsProperties
begin

text \<open>
  Players, input and the order of the queue: what the physics makes of the messages one client causes
  between two ticks, and how keys become movement.
\<close>

section \<open>Input\<close>

lemma input_known:
  assumes "map_find c (m_clients s) = Some i"
  shows "parseMessage B (ServerInputMsg c (Some st)) s = Inr (set_state i st s)"
proof -
  have "getClientId c s = (i, s)"
    using assms by (simp add: getClientId_def map_index_def)
  then show ?thesis by simp
qed

text \<open>
  Input of a client with a player sets the state of the character with that player's identifier to
  exactly the state sent; every other character, the bodies and the server's other members stay as they
  are. Input of a client without a player changes no character but the one with identifier 0, which no
  player has, and enters the client into the client map.
\<close>

lemma input_reaches_own_character:
  assumes "server_ok s"
  shows "(\<forall>i. map_find c (m_clients s) = Some i \<longrightarrow>
      (\<exists>p. parseMessage B (ServerInputMsg c (Some st)) s = Inr (s\<lparr>m_physics := p\<rparr>) \<and>
        ph_objects p = ph_objects (m_physics s) \<and> ph_world p = ph_world (m_physics s) \<and>
        ph_queue p = ph_queue (m_physics s) \<and>
        (\<forall>j. map_find j (ph_characters p) =
          (if j = i then map_option (\<lambda>ch. ch\<lparr>ch_state := st\<rparr>) (map_find i (ph_characters (m_physics s)))
           else map_find j (ph_characters (m_physics s)))))) \<and>
    (map_find c (m_clients s) = None \<longrightarrow>
      (\<exists>s'. parseMessage B (ServerInputMsg c (Some st)) s = Inr s' \<and>
        m_clients s' = map_put c 0 (m_clients s) \<and>
        (\<forall>j. j \<noteq> 0 \<longrightarrow> map_find j (ph_characters (m_physics s')) = map_find j (ph_characters (m_physics s)))))"
proof -
  have ok: "map_ok (ph_characters (m_physics s))" using assms by (simp add: server_ok_def)
  have unknown: "parseMessage B (ServerInputMsg c (Some st)) s =
      Inr (set_state 0 st (s\<lparr>m_clients := map_put c 0 (m_clients s)\<rparr>))" if "map_find c (m_clients s) = None"
    using that by (simp add: getClientId_def map_index_def)
  show ?thesis
    using input_known [of c s _ B st] unknown setInputStateCallback_find [OF ok]
    by (auto simp: set_state_def)
qed

lemma input_reaches_own_character_witness:
  "\<exists>(s :: (int, nat \<times> nat list) server) s'. parseMessage counting_bullet (ServerInputMsg 7 (Some Jump)) s = Inr s' \<and>
    map_option ch_state (map_find 3 (ph_characters (m_physics s'))) = Some Jump \<and>
    map_option ch_state (map_find 4 (ph_characters (m_physics s'))) = Some 0"
proof -
  let ?s = "(server_init (0, []) :: (int, nat \<times> nat list) server)
    \<lparr>m_clients := [(7, 3), (8, 4)],
     m_physics := \<lparr>ph_objects = [], ph_characters =
       [(3, \<lparr>ch_handle = 0, ch_state = 0\<rparr>), (4, \<lparr>ch_handle = 1, ch_state = 0\<rparr>)],
       ph_queue = [], ph_world = (2, [1, 0])\<rparr>\<rparr>"
  have ok: "server_ok ?s" by (auto simp: server_ok_def server_init_def map_ok_def set_ok_def)
  have "map_find 7 (m_clients ?s) = Some 3" by (simp add: map_find_Cons)
  from input_reaches_own_character [OF ok, of 7 counting_bullet Jump, THEN conjunct1, rule_format, OF this]
  obtain p where "parseMessage counting_bullet (ServerInputMsg 7 (Some Jump)) ?s = Inr (?s\<lparr>m_physics := p\<rparr>)"
    "map_find 3 (ph_characters p) = Some \<lparr>ch_handle = 0, ch_state = Jump\<rparr>"
    "map_find 4 (ph_characters p) = Some \<lparr>ch_handle = 1, ch_state = 0\<rparr>"
    by (auto simp: map_find_Cons)
  then show ?thesis by (intro exI [of _ ?s] exI [of _ "?s\<lparr>m_physics := p\<rparr>"]) simp
qed

text \<open>
  Two inputs of one client that wait for the same tick are handled in the reverse of the order in
  which the server forwarded them, so that the character is left in the older state: a key released
  within the tick it was pressed in stays pressed.
\<close>

lemma older_input_of_a_tick_wins:
  assumes "server_ok s" and "ph_queue (m_physics s) = []" and "map_find c (m_clients s) = Some i"
    and "map_find i (ph_characters (m_physics s)) = Some ch"
    and "server_dispatch (ServerInputMsg c (Some older)) s = Inr (b1, s1)"
    and "server_dispatch (ServerInputMsg c (Some newer)) s1 = Inr (b2, s2)"
  shows "\<exists>s'. handle_messages B s2 = Some (Inr s') \<and>
    map_find i (ph_characters (m_physics s')) = Some (ch\<lparr>ch_state := older\<rparr>)"
proof -
  let ?s = "without_queue s2"
  have queue: "ph_queue (m_physics s2) = [ServerInputMsg c (Some newer), ServerInputMsg c (Some older)]"
    and c: "m_clients s2 = m_clients s" and chars: "ph_characters (m_physics s2) = ph_characters (m_physics s)"
    using assms(2,5,6) by auto
  have ok: "map_ok (ph_characters (m_physics s))" using assms(1) by (simp add: server_ok_def)
  have "handle_messages B s2 = Some (Inr (without_queue (set_state i older (set_state i newer ?s))))"
    using assms(3) input_known [of c ?s i B newer] input_known [of c "set_state i newer ?s" i B older]
    by (simp add: handle_messages_fold queue c set_state_def)
  moreover have "map_find i (ph_characters (m_physics (without_queue (set_state i older (set_state i newer ?s))))) =
      Some (ch\<lparr>ch_state := older\<rparr>)"
    using assms(4) ok by (simp add: set_state_def setInputStateCallback_find chars)
  ultimately show ?thesis by blast
qed

lemma older_input_of_a_tick_wins_witness:
  "\<exists>(s :: (int, nat \<times> nat list) server) s'. handle_messages counting_bullet s = Some (Inr s') \<and>
    ph_queue (m_physics s) = [ServerInputMsg 7 (Some 0), ServerInputMsg 7 (Some StrafeLeft)] \<and>
    map_option ch_state (map_find 3 (ph_characters (m_physics s'))) = Some StrafeLeft"
proof -
  let ?s = "(server_init (0, []) :: (int, nat \<times> nat list) server)
    \<lparr>m_clients := [(7, 3)],
     m_physics := \<lparr>ph_objects = [], ph_characters = [(3, \<lparr>ch_handle = 0, ch_state = 0\<rparr>)],
       ph_queue = [], ph_world = (1, [0])\<rparr>\<rparr>"
  have "server_ok ?s" "map_find 7 (m_clients ?s) = Some 3"
    "map_find 3 (ph_characters (m_physics ?s)) = Some \<lparr>ch_handle = 0, ch_state = 0\<rparr>"
    by (auto simp: server_ok_def server_init_def map_ok_def set_ok_def map_find_Cons)
  moreover obtain s1 s2 where "server_dispatch (ServerInputMsg 7 (Some StrafeLeft)) ?s = Inr (True, s1)"
    "server_dispatch (ServerInputMsg 7 (Some 0)) s1 = Inr (True, s2)"
    "ph_queue (m_physics s2) = [ServerInputMsg 7 (Some 0), ServerInputMsg 7 (Some StrafeLeft)]"
    by simp
  ultimately show ?thesis
    using older_input_of_a_tick_wins [of ?s 7 3 "\<lparr>ch_handle = 0, ch_state = 0\<rparr>" StrafeLeft True s1 0 True s2
        counting_bullet]
    by (fastforce intro: exI [of _ s2])
qed

section \<open>A player that comes and goes\<close>

text \<open>
  A client that gets a player and is removed again before the next tick stops the physics: the queue
  gives the removal of its character before the addition, and the tick dereferences the null pointer of
  a character that is not there yet. The same two messages in the order they were posted would leave the
  characters as they were.
\<close>

lemma join_and_leave_in_one_tick_crashes:
  assumes "phys_ok s" and "live_client c s" and "map_find c (m_clients s) = None"
    and "ph_queue (m_physics s) = []" and "m_next_id s \<noteq> 0"
    and "map_find (m_next_id s) (ph_characters (m_physics s)) = None"
    and "server_steps [OpLoad c templ, OpRemove c] s = Inr s'"
  shows "physics_tick B s' = Some (Inl NullDereference) \<and>
    (\<exists>t. fold_res (parseMessage B) (rev (ph_queue (m_physics s'))) s' = Inr t \<and>
      ph_characters (m_physics t) = ph_characters (m_physics s))"
proof -
  let ?i = "m_next_id s"
  obtain s1 where load: "loadPlayer c templ s = Inr s1" and remove: "removeClient c s1 = Inr s'"
    using assms(7) by (auto simp: res_bind_eq_Inr)
  have ok: "map_ok (m_clients s)" "map_ok (ph_characters (m_physics s))"
    using assms(1) by (simp_all add: phys_ok_def server_ok_def)
  have s1: "s1 = (with_player c templ s)\<lparr>srv_sent := srv_sent s1\<rparr>"
    using load by (auto simp: loadPlayer_push dest!: push_all_Inr)
  have cli: "map_find c (m_clients s1) = Some ?i"
    using ok(1) assms(3) by (subst s1) (simp add: map_find_insert)
  then have "m_physics s' = delPhysical ?i True (m_physics s1)"
    using remove assms(5) by (auto simp: removeClient_def map_index_def Let_def dest!: push_all_Inr)
  moreover have "m_physics s1 = addPhysical ?i templ (value_ptr (m_player_spawn s)) True (m_physics s)"
    by (subst s1) simp
  ultimately have q: "ph_queue (m_physics s') =
      [DelCharObjMsg ?i, AddCharObjMsg ?i templ (value_ptr (m_player_spawn s))]"
    and chars: "ph_characters (m_physics s') = ph_characters (m_physics s)"
    using assms(4) by simp_all
  have "physics_tick B s' = Some (Inl NullDereference)"
    using assms(6) by (simp add: physics_tick_def handle_messages_fold q chars)
  moreover have "\<exists>t. fold_res (parseMessage B) (rev (ph_queue (m_physics s'))) s' = Inr t \<and>
      ph_characters (m_physics t) = ph_characters (m_physics s)"
    using ok(2) assms(6) by (simp add: q chars map_find_put map_erase_absent)
  ultimately show ?thesis ..
qed

lemma join_and_leave_in_one_tick_crashes_witness:
  "\<exists>s' :: (int, nat \<times> nat list) server.
    server_steps [OpCreate 8, OpAdd 8, OpLoad 8 ''Player'', OpRemove 8] (server_init (0, [])) = Inr s' \<and>
    physics_tick counting_bullet s' = Some (Inl NullDereference)"
proof -
  let ?i = "server_init (0, []) :: (int, nat \<times> nat list) server"
  let ?s = "?i\<lparr>srv_live := [8], m_lobby_clients := [8]\<rparr>"
  have first: "server_steps [OpCreate 8, OpAdd 8] ?i = Inr ?s"
    by (simp add: server_init_def addClient_def push_all_def set_insert_def)
  have s: "phys_ok ?s" "live_client 8 ?s" "map_find 8 (m_clients ?s) = None"
    "ph_queue (m_physics ?s) = []" "m_next_id ?s \<noteq> 0"
    "map_find (m_next_id ?s) (ph_characters (m_physics ?s)) = None"
    by (auto simp: phys_ok_def server_ok_def clients_live_def live_client_def everybody_def server_init_def
        set_ok_def)
  obtain s' where s': "server_steps [OpLoad 8 ''Player'', OpRemove 8] ?s = Inr s'"
    by (simp add: server_init_def loadPlayer_def getNextIdentifier_def Let_def removeClient_def map_index_def
        push_all_def push_client_def call_client_def set_erase_def map_insert_def map_find_Cons everybody_def
        map_erase_def)
  have "server_steps ([OpCreate 8, OpAdd 8] @ [OpLoad 8 ''Player'', OpRemove 8]) ?i = Inr s'"
    using first s' by (simp only: server_steps_def fold_res_append res_bind_simps)
  then show ?thesis
    using join_and_leave_in_one_tick_crashes [OF s s', of counting_bullet]
    by (intro exI [of _ s']) (simp only: append.simps simp_thms)
qed

end
