(* ===== verification/PhysicsWorld.thy ===== *)
theory PhysicsWorld
  imports PhysicsProperties "HOL-Library.Multiset"
begin

unbundle bit_operations_syntax

text \<open>
  The bodies of the Bullet world against the two maps of \<open>BtPhysics\<close>, and the direction the keys give a
  character. Of Bullet the code relies on what \<open>allocates\<close> says: a created body is a new one, removal
  takes out the one removed, and nothing else creates or deletes bodies.
\<close>

section \<open>Bodies and maps\<close>

definition allocates :: "('f, 'v, 'w) bullet \<Rightarrow> ('w \<Rightarrow> nat set) \<Rightarrow> bool" where
  "allocates B live \<longleftrightarrow>
     (\<forall>n m w. fst (bt_add_plane B n m w) \<notin> live w \<and>
        live (snd (bt_add_plane B n m w)) = insert (fst (bt_add_plane B n m w)) (live w)) \<and>
     (\<forall>m w. fst (bt_add_character B m w) \<notin> live w \<and>
        live (snd (bt_add_character B m w)) = insert (fst (bt_add_character B m w)) (live w)) \<and>
     (\<forall>h w. live (bt_remove_plane B h w) = live w - {h}) \<and>
     (\<forall>h w. live (bt_remove_character B h w) = live w - {h}) \<and>
     (\<forall>h b w. live (bt_turn B h b w) = live w) \<and> (\<forall>h w. live (bt_jump B h w) = live w) \<and>
     (\<forall>h v w. live (bt_set_walk B h v w) = live w) \<and> (\<forall>w. live (bt_step B w) = live w)"

lemma allocates_plane:
  assumes "allocates B live"
  shows "fst (bt_add_plane B n m w) \<notin> live w \<and>
    live (snd (bt_add_plane B n m w)) = insert (fst (bt_add_plane B n m w)) (live w)"
  by (rule assms [unfolded allocates_def, THEN conjunct1, THEN spec, THEN spec, THEN spec])

lemma allocates_character:
  assumes "allocates B live"
  shows "fst (bt_add_character B m w) \<notin> live w \<and>
    live (snd (bt_add_character B m w)) = insert (fst (bt_add_character B m w)) (live w)"
  by (rule assms [unfolded allocates_def, THEN conjunct2, THEN conjunct1, THEN spec, THEN spec])

definition bodies :: "('f, 'w) physics \<Rightarrow> nat list" where
  "bodies p = map snd (ph_objects p) @ map (\<lambda>(_, ch). ch_handle ch) (ph_characters p)"

text \<open>The world holds exactly the bodies the maps list, each listed once.\<close>

definition bodies_inv :: "('w \<Rightarrow> nat set) \<Rightarrow> ('f, 'w) physics \<Rightarrow> bool" where
  "bodies_inv live p \<longleftrightarrow> distinct (bodies p) \<and> live (ph_world p) = set (bodies p) \<and>
     map_ok (ph_objects p) \<and> map_ok (ph_characters p)"

text \<open>A message that adds an object does so under an identifier that is not in use.\<close>

fun fresh_add :: "'f server_msg \<Rightarrow> ('f, 'w) physics \<Rightarrow> bool" where
  "fresh_add (AddPhysObjMsg i _ _) p = (map_find i (ph_objects p) = None)"
| "fresh_add (AddCharObjMsg i _ _) p = (map_find i (ph_characters p) = None)"
| "fresh_add _ p = True"

fun fresh_run :: "('f, 'v, 'w) bullet \<Rightarrow> 'f server_msg list \<Rightarrow> ('f, 'w) server \<Rightarrow> bool" where
  "fresh_run B [] s = True"
| "fresh_run B (m # ms) s =
     (fresh_add m (m_physics s) \<and>
      (case parseMessage B m s of Inl _ \<Rightarrow> True | Inr s' \<Rightarrow> fresh_run B ms s'))"

lemma mset_map_put:
  "map_find k m = None \<Longrightarrow> mset (map_put k v m) = add_mset (k, v) (mset m)"
  by (induction k v m rule: map_put.induct) (auto simp: map_find_Cons split: if_splits)

lemma mset_map_erase:
  "map_ok m \<Longrightarrow> map_find k m = Some v \<Longrightarrow> mset m = add_mset (k, v) (mset (map_erase k m))"
proof (induction m)
  case (Cons p m)
  obtain k' v' where p: "p = (k', v')" by (cases p)
  show ?case
  proof (cases "k' = k")
    case True
    with Cons.prems have "map_find k m = None" by (auto simp: p map_ok_Cons intro: map_find_below)
    with Cons.prems True show ?thesis
      using map_erase_absent [of k m] by (simp add: p map_find_Cons map_erase_def)
  next
    case False
    with Cons show ?thesis by (simp add: p map_ok_Cons map_find_Cons map_erase_def)
  qed
qed simp

lemma map_put_same:
  "map_ok m \<Longrightarrow> map_find k m = Some v \<Longrightarrow> f (k, v') = f (k, v) \<Longrightarrow> map f (map_put k v' m) = map f m"
proof (induction m)
  case (Cons p m)
  obtain k0 v0 where p: "p = (k0, v0)" by (cases p)
  show ?case
  proof (cases "k = k0")
    case False
    with Cons.prems have "k \<in> fst ` set m"
      using map_find_None_iff [of k m] by (auto simp: p map_find_Cons)
    with Cons.prems have "k0 < k" by (auto simp: p map_ok_Cons)
    with False Cons show ?thesis by (simp add: p map_ok_Cons map_find_Cons)
  qed (use Cons.prems in \<open>simp add: p map_find_Cons\<close>)
qed simp

lemma bodies_input [simp]:
  "map_ok (ph_characters p) \<Longrightarrow> bodies (setInputStateCallback i st p) = bodies p"
  by (auto simp: bodies_def setInputStateCallback_def map_put_same split: option.split)

lemma bodies_add:
  assumes "bodies_inv live p" and "mset (bodies q) = add_mset h (mset (bodies p))"
    and "h \<notin> live (ph_world p)" and "live (ph_world q) = insert h (live (ph_world p))"
    and "map_ok (ph_objects q)" and "map_ok (ph_characters q)"
  shows "bodies_inv live q"
proof -
  have "mset (bodies q) = mset (h # bodies p)" using assms(2) by simp
  from mset_eq_imp_distinct_iff [OF this] mset_eq_setD [OF this] assms show ?thesis
    by (simp add: bodies_inv_def)
qed

lemma bodies_remove:
  assumes "bodies_inv live p" and "mset (bodies p) = add_mset h (mset (bodies q))"
    and "live (ph_world q) = live (ph_world p) - {h}"
    and "map_ok (ph_objects q)" and "map_ok (ph_characters q)"
  shows "bodies_inv live q"
proof -
  have "mset (bodies p) = mset (h # bodies q)" using assms(2) by simp
  from mset_eq_imp_distinct_iff [OF this] mset_eq_setD [OF this] assms show ?thesis
    by (auto simp: bodies_inv_def)
qed

lemma parse_bodies:
  assumes B: "allocates B live" and inv: "bodies_inv live (m_physics s)"
    and fresh: "fresh_add m (m_physics s)" and run: "parseMessage B m s = Inr s'"
  shows "bodies_inv live (m_physics s')"
proof -
  let ?p = "m_physics s"
  have maps: "map_ok (ph_objects ?p)" "map_ok (ph_characters ?p)" using inv by (simp_all add: bodies_inv_def)
  show ?thesis
  proof (cases m)
    case (ServerInputMsg c st)
    then obtain i st' where "m_physics s' = setInputStateCallback i st' ?p"
      using run by (auto simp: Let_def case_prod_unfold set_state_def split: option.splits)
    with inv show ?thesis by (simp add: bodies_inv_def)
  next
    case (ForceStateMsg i st)
    then have "m_physics s' = setInputStateCallback i st ?p" using run by (auto simp: set_state_def)
    with inv show ?thesis by (simp add: bodies_inv_def)
  next
    case (AddPhysObjMsg i t mat)
    show ?thesis
    proof (cases "map_of planes t")
      case None
      with AddPhysObjMsg run inv show ?thesis by (auto simp: add_plane_def)
    next
      case (Some n)
      let ?a = "bt_add_plane B n mat (ph_world ?p)"
      have "m_physics s' = add_plane B i t mat ?p" using AddPhysObjMsg run by auto
      moreover have "fst ?a \<notin> live (ph_world ?p)" "live (snd ?a) = insert (fst ?a) (live (ph_world ?p))"
        using allocates_plane [OF B] by simp_all
      moreover have "mset (map_put i (fst ?a) (ph_objects ?p)) = add_mset (i, fst ?a) (mset (ph_objects ?p))"
        using fresh AddPhysObjMsg by (intro mset_map_put) simp
      ultimately show ?thesis
        using Some maps by (intro bodies_add [OF inv, of _ "fst ?a"]) (simp_all add: bodies_def)
    qed
  next
    case (AddCharObjMsg i t mat)
    let ?a = "bt_add_character B mat (ph_world ?p)"
    have "m_physics s' = add_character B i mat ?p" using AddCharObjMsg run by auto
    moreover have "fst ?a \<notin> live (ph_world ?p)" "live (snd ?a) = insert (fst ?a) (live (ph_world ?p))"
      using allocates_character [OF B] by simp_all
    moreover have "mset (map_put i ch (ph_characters ?p)) = add_mset (i, ch) (mset (ph_characters ?p))" for ch
      using fresh AddCharObjMsg by (intro mset_map_put) simp
    ultimately show ?thesis
      using maps by (intro bodies_add [OF inv, of _ "fst ?a"]) (simp_all add: bodies_def)
  next
    case (DelPhysObjMsg i)
    then obtain h where h: "map_find i (ph_objects ?p) = Some h" and s': "m_physics s' =
        ?p\<lparr>ph_objects := map_erase i (ph_objects ?p), ph_world := bt_remove_plane B h (ph_world ?p)\<rparr>"
      using run by (auto split: option.splits)
    then show ?thesis
      using B maps mset_map_erase [OF maps(1) h]
      by (intro bodies_remove [OF inv, of h]) (simp_all add: bodies_def allocates_def)
  next
    case (DelCharObjMsg i)
    then obtain ch where ch: "map_find i (ph_characters ?p) = Some ch" and s': "m_physics s' =
        ?p\<lparr>ph_characters := map_erase i (ph_characters ?p),
           ph_world := bt_remove_character B (ch_handle ch) (ph_world ?p)\<rparr>"
      using run by (auto split: option.splits)
    then show ?thesis
      using B maps mset_map_erase [OF maps(2) ch]
      by (intro bodies_remove [OF inv, of "ch_handle ch"]) (simp_all add: bodies_def allocates_def)
  qed (use run inv in auto)
qed

lemma fold_parse_bodies:
  assumes B: "allocates B live"
  shows "bodies_inv live (m_physics s) \<Longrightarrow> fresh_run B ms s \<Longrightarrow> fold_res (parseMessage B) ms s = Inr s' \<Longrightarrow>
    bodies_inv live (m_physics s')"
proof (induction ms arbitrary: s)
  case (Cons m ms)
  then obtain s1 where s1: "parseMessage B m s = Inr s1" "fold_res (parseMessage B) ms s1 = Inr s'"
    by (auto simp: res_bind_eq_Inr)
  with Cons.prems parse_bodies [OF B, of s m s1] have "bodies_inv live (m_physics s1)" by simp
  with Cons s1 show ?case by simp
qed simp

lemma update_character_live:
  "allocates B live \<Longrightarrow> live (update_character B ch w) = live w"
  by (simp add: update_character_def allocates_def Let_def)

lemma simulate_bodies:
  assumes "allocates B live" and "bodies_inv live p"
  shows "bodies_inv live (simulate B p)"
proof -
  have "live (fold (\<lambda>(_, ch) w. update_character B ch w) cs w) = live w" for cs :: "(oid, character) std_map" and w
    by (induction cs arbitrary: w) (auto simp: update_character_live [OF assms(1)])
  then have "live (ph_world (simulate B p)) = live (ph_world p)"
    using assms(1) by (simp add: simulate_def updateCharacterObjects_def Let_def allocates_def)
  with assms(2) show ?thesis by (simp add: bodies_inv_def bodies_def)
qed

lemma callbacks_bodies:
  "bodies_inv live p \<Longrightarrow> bodies_inv live (fold (\<lambda>(_, i). setInputStateCallback i st) bs p)"
proof (induction bs arbitrary: p)
  case (Cons b bs)
  have "bodies_inv live (setInputStateCallback (snd b) st p)" using Cons.prems by (simp add: bodies_inv_def)
  with Cons.IH show ?case by (simp add: case_prod_unfold)
qed simp

lemma pushClientTransforms_physics: "pushClientTransforms ct s = Inr s' \<Longrightarrow> m_physics s' = m_physics s"
  using step_transforms [of ct s s'] by auto

text \<open>Removing a list of bodies.\<close>

lemma fold_remove_live:
  assumes "\<And>h w. live (rem h w) = live w - {h}"
  shows "live (fold (\<lambda>(_, x). rem (f x)) m w) = live w - set (map (\<lambda>(_, x). f x) m)"
  by (induction m arbitrary: w) (auto simp: assms)

lemma shutdown_live:
  assumes "allocates B live"
  shows "live (ph_world (physics_shutdown B p)) = live (ph_world p) - set (bodies p)"
proof -
  have rem: "live (bt_remove_plane B h w) = live w - {h}" "live (bt_remove_character B h w) = live w - {h}" for h w
    using assms by (simp_all add: allocates_def)
  show ?thesis
    using fold_remove_live [of live "bt_remove_plane B" "\<lambda>h. h" "ph_objects p", OF rem(1)]
      fold_remove_live [of live "bt_remove_character B" ch_handle "ph_characters p", OF rem(2)]
    by (auto simp: physics_shutdown_def bodies_def case_prod_unfold)
qed

text \<open>
  If objects are only ever added under identifiers that are not in use, every tick leaves the Bullet
  world with exactly the bodies the two maps list, none of them listed twice, and what runs after the
  loop takes every one of them out: no body is leaked and none is removed twice.
\<close>

lemma physics_world_holds_the_listed_bodies:
  assumes "allocates B live" and "bodies_inv live (m_physics s)"
    and "fresh_run B (ph_queue (m_physics s)) (without_queue s)"
    and "physics_tick B s = Some (Inr s')"
  shows "distinct (bodies (m_physics s')) \<and> live (ph_world (m_physics s')) = set (bodies (m_physics s')) \<and>
    bodies_inv live (m_physics s') \<and> live (ph_world (physics_shutdown B (m_physics s'))) = {}"
proof -
  obtain s1 where run: "fold_res (parseMessage B) (ph_queue (m_physics s)) (without_queue s) = Inr s1"
    and rest: "pushClientTransforms (transforms B (simulate B (m_physics (without_queue s1))))
        (runTickCallbacks ((without_queue s1)\<lparr>m_physics := simulate B (m_physics (without_queue s1))\<rparr>)) = Inr s'"
    using assms(4) by (auto simp: physics_tick_def handle_messages_fold Let_def res_bind_eq_Inr)
  have keep: "bodies_inv live (m_physics (without_queue t)) = bodies_inv live (m_physics t)" for t :: "('a, 'c) server"
    by (simp add: bodies_inv_def bodies_def without_queue_def)
  have "bodies_inv live (m_physics s1)"
    using fold_parse_bodies [OF assms(1) _ assms(3) run] assms(2) by (simp add: keep)
  then have "bodies_inv live (simulate B (m_physics (without_queue s1)))"
    using simulate_bodies [OF assms(1)] keep by blast
  then have "bodies_inv live (m_physics s')"
    unfolding pushClientTransforms_physics [OF rest]
    by (simp add: runTickCallbacks_def Let_def callbacks_bodies)
  then show ?thesis using shutdown_live [OF assms(1), of "m_physics s'"] by (simp add: bodies_inv_def)
qed

lemma counting_allocates: "allocates counting_bullet (\<lambda>(k, hs). set (filter (\<lambda>h. h < k) hs))"
  by (auto simp: allocates_def counting_bullet_def)

lemma physics_world_holds_the_listed_bodies_witness:
  "\<exists>(s :: (int, nat \<times> nat list) server) s'. physics_tick counting_bullet s = Some (Inr s') \<and>
    ph_world (m_physics s) = (1, [0]) \<and> distinct (bodies (m_physics s')) \<and>
    bodies_inv (\<lambda>(k, hs). set (filter (\<lambda>h. h < k) hs)) (m_physics s')"
proof -
  let ?s = "(server_init (1, [0]) :: (int, nat \<times> nat list) server)
    \<lparr>m_physics := \<lparr>ph_objects = [(9, 0)], ph_characters = [],
       ph_queue = [AddCharObjMsg 3 ''Player'' [], DelPhysObjMsg 9], ph_world = (1, [0])\<rparr>\<rparr>"
  have ok: "phys_ok ?s" by (auto simp: phys_ok_def server_ok_def clients_live_def everybody_def server_init_def
      map_ok_def set_ok_def)
  have inv: "bodies_inv (\<lambda>(k, hs). set (filter (\<lambda>h. h < k) hs)) (m_physics ?s)"
    by (simp add: bodies_inv_def bodies_def map_ok_def)
  have fresh: "fresh_run counting_bullet (ph_queue (m_physics ?s)) (without_queue ?s)"
    by (simp add: without_queue_def map_find_Cons)
  have eff: "ids_effect (ph_queue (m_physics ?s)) (phys_ids (m_physics (without_queue ?s))) = Some ({}, {3})"
    and inp: "\<forall>m \<in> set (ph_queue (m_physics ?s)). input_ok m (without_queue ?s)"
    by (simp_all add: phys_ids_def without_queue_def)
  have "phys_ok (without_queue ?s)" using ok by (simp only: phys_ok_without_queue)
  from fold_parse_refines [OF this inp, of counting_bullet, unfolded eff option.case]
  obtain s1 where "fold_res (parseMessage counting_bullet) (ph_queue (m_physics ?s)) (without_queue ?s) = Inr s1"
    and "phys_ok s1" by blast
  then obtain s' where s': "physics_tick counting_bullet ?s = Some (Inr s')"
    using tick_after_messages [of "without_queue s1" counting_bullet]
    by (auto simp: physics_tick_def handle_messages_fold phys_ok_without_queue)
  from physics_world_holds_the_listed_bodies [OF counting_allocates inv fresh s'] s' show ?thesis
    by (intro exI [of _ ?s] exI [of _ s']) simp
qed

section \<open>From keys to movement\<close>

text \<open>
  The direction a grounded character is given is the side axis once for the right key, minus once for
  the left key, plus the forward axis for the forward key, minus it for the reverse key; opposite keys
  cancel, and no other key has a part in it. A character that cannot jump, because it is in the air, is
  not moved, turned or launched by any key.
\<close>

lemma keys_give_direction:
  assumes "bt_zero B = (0 :: 'v::ab_group_add)" and "bt_plus B = (+)" and "bt_minus B = (-)"
  shows "walk_direction B st h w =
      ((if pressed st StrafeRight then bt_axis B h 0 w else 0) - (if pressed st StrafeLeft then bt_axis B h 0 w else 0)) +
      ((if pressed st WalkForward then bt_axis B h 2 w else 0) - (if pressed st WalkReverse then bt_axis B h 2 w else 0)) \<and>
    (pressed st StrafeRight = pressed st StrafeLeft \<and> pressed st WalkForward = pressed st WalkReverse \<longrightarrow>
      walk_direction B st h w = 0) \<and>
    (\<not> bt_can_jump B (ch_handle ch) w \<longrightarrow> update_character B ch w = w)"
  using assms by (simp add: walk_direction_def update_character_def Let_def algebra_simps)

lemma keys_give_direction_witness:
  "walk_direction counting_bullet (StrafeRight OR WalkReverse OR Jump) 3 (0, []) = 0 - 2"
proof -
  have "pressed (StrafeRight OR WalkReverse OR Jump) StrafeRight"
    "\<not> pressed (StrafeRight OR WalkReverse OR Jump) StrafeLeft"
    "\<not> pressed (StrafeRight OR WalkReverse OR Jump) WalkForward"
    "pressed (StrafeRight OR WalkReverse OR Jump) WalkReverse"
    by (simp_all add: pressed_def input_state_defs)
  then show ?thesis
    using keys_give_direction [of counting_bullet "StrafeRight OR WalkReverse OR Jump" 3 "(0, [])"]
    by (simp add: counting_bullet_def)
qed

end
