(* ===== verification/Renderer.thy ===== *)
theory Renderer
  imports StdMap Messages
begin

text \<open>
  \<open>client/opengl/glrender.cpp\<close>: the drawables of the client, with the heap they live in, what a message
  does to them, the OpenGL calls of \<open>draw\<close>, and the destructor.
\<close>

section \<open>State\<close>

text \<open>A colour is three floats that are 0 or 1; the matrix has no value until the first transform.\<close>

type_synonym color = "int \<times> int \<times> int"

record drawable =
  d_color :: color
  d_matrix :: "float_bits list option"

text \<open>\<open>gl_heap\<close> holds the \<open>GlDrawable\<close> objects that exist, \<open>gl_next\<close> is the next address \<open>new\<close> returns.\<close>

record renderer =
  m_drawables :: "(oid, ptr) std_map"
  gl_heap :: "(ptr, drawable) std_map"
  gl_next :: ptr

definition renderer_init :: renderer where
  "renderer_init = \<lparr>m_drawables = [], gl_heap = [], gl_next = 1\<rparr>"

definition template_color :: "string \<Rightarrow> color" where
  "template_color t =
     (if t = ''Player'' then (0, 1, 0) else if t = ''Baddie'' then (1, 0, 0) else (1, 1, 1))"

section \<open>Messages\<close>

definition add_drawable :: "oid \<Rightarrow> string \<Rightarrow> renderer \<Rightarrow> renderer" where
  "add_drawable i t r =
     (if map_find i (m_drawables r) \<noteq> None then r
      else r\<lparr>gl_heap := map_put (gl_next r) \<lparr>d_color = template_color t, d_matrix = None\<rparr> (gl_heap r),
             m_drawables := map_insert i (gl_next r) (m_drawables r),
             gl_next := gl_next r + 1\<rparr>)"

definition trans_drawable :: "oid \<Rightarrow> float_bits list option \<Rightarrow> renderer \<Rightarrow> fault + renderer" where
  "trans_drawable i mat r =
     (case map_find i (m_drawables r) of
        None \<Rightarrow> Inr r
      | Some p \<Rightarrow>
          (case map_find p (gl_heap r) of
             None \<Rightarrow> Inl UseAfterFree
           | Some d \<Rightarrow> Inr (r\<lparr>gl_heap := map_put p (d\<lparr>d_matrix := mat\<rparr>) (gl_heap r)\<rparr>)))"

definition del_drawable :: "oid \<Rightarrow> renderer \<Rightarrow> renderer" where
  "del_drawable i r = r\<lparr>m_drawables := map_erase i (m_drawables r)\<rparr>"

fun gl_pushMessage :: "client_msg \<Rightarrow> renderer \<Rightarrow> fault + renderer" where
  "gl_pushMessage (ClientAddDrawableMsg i t) r = Inr (add_drawable i t r)"
| "gl_pushMessage (ClientTransDrawableMsg i mat) r = trans_drawable i mat r"
| "gl_pushMessage (ClientDelDrawableMsg i) r = Inr (del_drawable i r)"
| "gl_pushMessage _ r = Inr r"

section \<open>Drawing and destruction\<close>

datatype gl_call =
    GlClear
  | GlLoadMatrix "float_bits list"
  | GlColor color
  | GlBeginTriangles
  | GlVertex int int int
  | GlEnd

definition draw_one :: "drawable \<Rightarrow> fault + gl_call list" where
  "draw_one d =
     (case d_matrix d of
        None \<Rightarrow> Inl Indeterminate
      | Some mat \<Rightarrow> Inr [GlLoadMatrix mat, GlColor (d_color d), GlBeginTriangles,
          GlVertex 0 1 0, GlVertex 1 (-1) 0, GlVertex (-1) (-1) 0, GlEnd])"

definition draw :: "renderer \<Rightarrow> fault + gl_call list" where
  "draw r =
     fold_res (\<lambda>(_, p) calls.
         case map_find p (gl_heap r) of
           None \<Rightarrow> Inl UseAfterFree
         | Some d \<Rightarrow> res_bind (draw_one d) (\<lambda>cs. Inr (calls @ cs)))
       (m_drawables r) [GlClear]"

definition renderer_destroy :: "renderer \<Rightarrow> renderer" where
  "renderer_destroy r = r\<lparr>gl_heap := fold (\<lambda>(_, p). map_erase p) (m_drawables r) (gl_heap r)\<rparr>"

section \<open>The specification\<close>

text \<open>What a renderer should be: a finite map from identifiers to drawables.\<close>

type_synonym scene = "oid \<Rightarrow> drawable option"

definition scene :: "renderer \<Rightarrow> scene" where
  "scene r i = (case map_find i (m_drawables r) of None \<Rightarrow> None | Some p \<Rightarrow> map_find p (gl_heap r))"

fun scene_step :: "client_msg \<Rightarrow> scene \<Rightarrow> scene" where
  "scene_step (ClientAddDrawableMsg i t) sc =
     (if sc i = None then sc(i \<mapsto> \<lparr>d_color = template_color t, d_matrix = None\<rparr>) else sc)"
| "scene_step (ClientTransDrawableMsg i mat) sc =
     (case sc i of None \<Rightarrow> sc | Some d \<Rightarrow> sc(i \<mapsto> d\<lparr>d_matrix := mat\<rparr>))"
| "scene_step (ClientDelDrawableMsg i) sc = sc(i := None)"
| "scene_step _ sc = sc"

definition renderer_ok :: "renderer \<Rightarrow> bool" where
  "renderer_ok r \<longleftrightarrow> map_ok (m_drawables r) \<and> map_ok (gl_heap r) \<and> distinct (map snd (m_drawables r)) \<and>
     (\<forall>p \<in> snd ` set (m_drawables r). map_find p (gl_heap r) \<noteq> None) \<and>
     (\<forall>p \<in> fst ` set (gl_heap r). p < gl_next r)"

lemma renderer_okD:
  assumes "renderer_ok r"
  shows "map_ok (m_drawables r)" "map_ok (gl_heap r)" "distinct (map snd (m_drawables r))"
    "map_find i (m_drawables r) = Some p \<Longrightarrow> map_find p (gl_heap r) \<noteq> None"
    "map_find p (gl_heap r) \<noteq> None \<Longrightarrow> p < gl_next r"
proof -
  show "map_ok (m_drawables r)" "map_ok (gl_heap r)" "distinct (map snd (m_drawables r))"
    using assms by (simp_all add: renderer_ok_def)
  show "map_find p (gl_heap r) \<noteq> None" if "map_find i (m_drawables r) = Some p"
  proof -
    have "p \<in> snd ` set (m_drawables r)" using map_find_SomeD [OF that] by force
    with assms show ?thesis unfolding renderer_ok_def by blast
  qed
  show "p < gl_next r" if "map_find p (gl_heap r) \<noteq> None"
  proof -
    have "p \<in> fst ` set (gl_heap r)" using that by (simp add: map_find_None_iff)
    with assms show ?thesis unfolding renderer_ok_def by blast
  qed
qed

lemma find_inj:
  assumes "renderer_ok r" and "map_find i (m_drawables r) = Some p" and "map_find j (m_drawables r) = Some p"
  shows "i = j"
proof -
  have "inj_on snd (set (m_drawables r))" using renderer_okD(3) [OF assms(1)] by (simp add: distinct_map)
  from inj_onD [OF this _ map_find_SomeD [OF assms(2)] map_find_SomeD [OF assms(3)]] show ?thesis by simp
qed

lemma renderer_init_ok: "renderer_ok renderer_init" "scene renderer_init = (\<lambda>_. None)"
  by (auto simp: renderer_ok_def renderer_init_def scene_def)

lemma snd_map_put: "snd ` set (map_put k v m) \<subseteq> insert v (snd ` set m)"
  by (induction k v m rule: map_put.induct) auto

lemma distinct_snd_put:
  "map_find k m = None \<Longrightarrow> v \<notin> snd ` set m \<Longrightarrow> distinct (map snd m) \<Longrightarrow> distinct (map snd (map_put k v m))"
proof (induction k v m rule: map_put.induct)
  case (2 k v k' v' m)
  then show ?case using snd_map_put [of k v m] by (auto simp: map_find_Cons split: if_splits)
qed simp

text \<open>Every message keeps the invariant, never faults, and does to the scene what the specification says.\<close>

lemma add_drawable_refines:
  assumes "renderer_ok r"
  shows "renderer_ok (add_drawable i t r) \<and> scene (add_drawable i t r) = scene_step (ClientAddDrawableMsg i t) (scene r)"
proof (cases "map_find i (m_drawables r)")
  case (Some p)
  then have "scene r i \<noteq> None" using renderer_okD(4) [OF assms] by (auto simp: scene_def)
  with Some assms show ?thesis by (auto simp: add_drawable_def)
next
  case None
  note D = renderer_okD [OF assms]
  have unused: "map_find (gl_next r) (gl_heap r) = None" using D(5) by blast
  then have "gl_next r \<notin> snd ` set (m_drawables r)"
    using assms by (fastforce simp: renderer_ok_def)
  note distinct = distinct_snd_put [OF None this D(3)]
  let ?d = "\<lparr>d_color = template_color t, d_matrix = None\<rparr>"
  have r': "add_drawable i t r = r\<lparr>gl_heap := map_put (gl_next r) ?d (gl_heap r),
      m_drawables := map_put i (gl_next r) (m_drawables r), gl_next := gl_next r + 1\<rparr>"
    using None by (simp add: add_drawable_def map_insert_def)
  have "\<forall>p \<in> snd ` set (map_put i (gl_next r) (m_drawables r)).
      map_find p (map_put (gl_next r) ?d (gl_heap r)) \<noteq> None"
  proof
    fix p
    assume "p \<in> snd ` set (map_put i (gl_next r) (m_drawables r))"
    then have "p = gl_next r \<or> p \<in> snd ` set (m_drawables r)"
      using snd_map_put [of i "gl_next r" "m_drawables r"] by blast
    moreover have "p \<in> snd ` set (m_drawables r) \<Longrightarrow> map_find p (gl_heap r) \<noteq> None"
      using assms unfolding renderer_ok_def by blast
    ultimately show "map_find p (map_put (gl_next r) ?d (gl_heap r)) \<noteq> None"
      using D(2) by (auto simp: map_find_put)
  qed
  moreover have "\<forall>p \<in> fst ` set (map_put (gl_next r) ?d (gl_heap r)). p < gl_next r + 1"
    using assms by (auto simp: renderer_ok_def intro: less_SucI)
  ultimately have "renderer_ok (add_drawable i t r)"
    unfolding renderer_ok_def r' using D distinct by simp
  moreover have "scene (add_drawable i t r) j = scene_step (ClientAddDrawableMsg i t) (scene r) j" for j
    using None D(1,2) unused D(4) [of j "gl_next r"]
    by (auto simp: scene_def r' map_find_put split: option.split)
  ultimately show ?thesis by blast
qed

lemma trans_drawable_refines:
  assumes "renderer_ok r"
  shows "\<exists>r'. trans_drawable i mat r = Inr r' \<and> renderer_ok r' \<and>
    scene r' = scene_step (ClientTransDrawableMsg i mat) (scene r)"
proof (cases "map_find i (m_drawables r)")
  case None
  with assms show ?thesis by (simp add: trans_drawable_def scene_def)
next
  case (Some p)
  note D = renderer_okD [OF assms]
  obtain d where d: "map_find p (gl_heap r) = Some d" using D(4) [OF Some] by blast
  let ?r = "r\<lparr>gl_heap := map_put p (d\<lparr>d_matrix := mat\<rparr>) (gl_heap r)\<rparr>"
  have run: "trans_drawable i mat r = Inr ?r" using Some d by (simp add: trans_drawable_def)
  have "\<forall>q \<in> fst ` set (map_put p (d\<lparr>d_matrix := mat\<rparr>) (gl_heap r)). q < gl_next r"
    using D(5) [of p] d assms by (auto simp: renderer_ok_def)
  moreover have "\<forall>q \<in> snd ` set (m_drawables r). map_find q (map_put p (d\<lparr>d_matrix := mat\<rparr>) (gl_heap r)) \<noteq> None"
    using assms D(2) by (auto simp: renderer_ok_def map_find_put)
  ultimately have "renderer_ok ?r" using D by (simp add: renderer_ok_def)
  moreover have "scene ?r j = scene_step (ClientTransDrawableMsg i mat) (scene r) j" for j
  proof (cases "map_find j (m_drawables r) = Some p")
    case True
    with find_inj [OF assms Some True] Some d D(2) show ?thesis by (simp add: scene_def map_find_put)
  next
    case False
    with Some have "j \<noteq> i" by auto
    with False Some d D(2) show ?thesis by (auto simp: scene_def map_find_put split: option.split)
  qed
  ultimately show ?thesis using run by blast
qed

lemma del_drawable_refines:
  assumes "renderer_ok r"
  shows "renderer_ok (del_drawable i r) \<and> scene (del_drawable i r) = scene_step (ClientDelDrawableMsg i) (scene r)"
proof -
  have "distinct (map snd (map_erase i (m_drawables r)))"
    using assms by (simp add: renderer_ok_def map_erase_def distinct_map_filter)
  then have "renderer_ok (del_drawable i r)"
    using assms by (auto simp: renderer_ok_def del_drawable_def set_map_erase)
  moreover have "scene (del_drawable i r) j = scene_step (ClientDelDrawableMsg i) (scene r) j" for j
    by (simp add: scene_def del_drawable_def map_find_erase split: option.split)
  ultimately show ?thesis by blast
qed

lemma gl_step_refines:
  assumes "renderer_ok r"
  shows "\<exists>r'. gl_pushMessage m r = Inr r' \<and> renderer_ok r' \<and> scene r' = scene_step m (scene r)"
  using assms add_drawable_refines trans_drawable_refines del_drawable_refines
  by (cases m) (auto simp del: scene_step.simps(1-3))

lemma gl_fold_refines:
  assumes "renderer_ok r"
  shows "\<exists>r'. fold_res gl_pushMessage ms r = Inr r' \<and> renderer_ok r' \<and> scene r' = fold scene_step ms (scene r)"
  using assms
proof (induction ms arbitrary: r)
  case (Cons m ms)
  from gl_step_refines [OF Cons.prems, of m] obtain r1 where
    "gl_pushMessage m r = Inr r1" "renderer_ok r1" "scene r1 = scene_step m (scene r)" by blast
  with Cons.IH [of r1] show ?case by simp
qed simp

section \<open>What is left on the heap\<close>

text \<open>The deletions that find a drawable.\<close>

fun drops :: "client_msg \<Rightarrow> scene \<Rightarrow> nat" where
  "drops (ClientDelDrawableMsg i) sc = (if sc i = None then 0 else 1)"
| "drops _ sc = 0"

fun dropped :: "client_msg list \<Rightarrow> scene \<Rightarrow> nat" where
  "dropped [] sc = 0"
| "dropped (m # ms) sc = drops m sc + dropped ms (scene_step m sc)"

lemma length_map_put: "map_ok m \<Longrightarrow> length (map_put k v m) = (if map_find k m = None then Suc (length m) else length m)"
proof (induction k v m rule: map_put.induct)
  case (2 k v k' v' m)
  have "map_find k m = None" if "k < k'"
    using that 2(2) by (intro map_find_below) (auto simp: map_ok_Cons dest: order.strict_trans)
  with 2 show ?case by (auto simp: map_ok_Cons map_find_Cons)
qed simp

lemma length_map_erase: "map_ok m \<Longrightarrow> length (map_erase k m) = (if map_find k m = None then length m else length m - 1)"
proof (induction m)
  case (Cons p m)
  obtain k' v' where p: "p = (k', v')" by (cases p)
  show ?case
  proof (cases "k' = k")
    case True
    with Cons.prems have "map_find k m = None" by (auto simp: p map_ok_Cons intro: map_find_below)
    with True show ?thesis using map_erase_absent [of k m] by (simp add: p map_find_Cons map_erase_def)
  next
    case False
    with Cons have "length (map_erase k m) = (if map_find k m = None then length m else length m - 1)"
      by (simp add: p map_ok_Cons)
    moreover have "map_find k m \<noteq> None \<Longrightarrow> 0 < length m" by (cases m) auto
    ultimately show ?thesis using False by (auto simp: p map_find_Cons map_erase_def)
  qed
qed (simp add: map_erase_def)

definition unlisted :: "renderer \<Rightarrow> nat" where
  "unlisted r = length (gl_heap r) - length (m_drawables r)"

definition counted :: "renderer \<Rightarrow> bool" where
  "counted r \<longleftrightarrow> length (m_drawables r) \<le> length (gl_heap r)"

lemma scene_None: "renderer_ok r \<Longrightarrow> (scene r i = None) = (map_find i (m_drawables r) = None)"
  using renderer_okD(4) [of r i] by (auto simp: scene_def split: option.split)

lemma unlisted_step:
  assumes "renderer_ok r" and "counted r" and "gl_pushMessage m r = Inr r'"
  shows "counted r' \<and> unlisted r' = unlisted r + drops m (scene r)"
proof -
  note D = renderer_okD [OF assms(1)]
  have unused: "map_find (gl_next r) (gl_heap r) = None" using D(5) by blast
  show ?thesis
  proof (cases m)
    case (ClientAddDrawableMsg i t)
    with assms D(1,2) unused show ?thesis
      by (auto simp: add_drawable_def counted_def unlisted_def length_map_put map_insert_def)
  next
    case (ClientTransDrawableMsg i mat)
    with assms D(2) show ?thesis
      by (auto simp: trans_drawable_def counted_def unlisted_def length_map_put split: option.splits)
  next
    case (ClientDelDrawableMsg i)
    moreover have "map_find i (m_drawables r) \<noteq> None \<Longrightarrow> \<exists>k. length (m_drawables r) = Suc k"
      by (cases "m_drawables r") auto
    ultimately show ?thesis
      using assms D(1) scene_None [OF assms(1), of i]
      by (auto simp: del_drawable_def counted_def unlisted_def length_map_erase)
  qed (use assms in auto)
qed

lemma unlisted_fold:
  assumes "renderer_ok r" and "counted r" and "fold_res gl_pushMessage ms r = Inr r'"
  shows "counted r' \<and> unlisted r' = unlisted r + dropped ms (scene r)"
  using assms
proof (induction ms arbitrary: r)
  case (Cons m ms)
  then obtain r1 where r1: "gl_pushMessage m r = Inr r1" "fold_res gl_pushMessage ms r1 = Inr r'"
    by (auto simp: res_bind_eq_Inr)
  with gl_step_refines [OF Cons.prems(1), of m] have "renderer_ok r1" "scene r1 = scene_step m (scene r)" by auto
  with Cons.IH [of r1] r1 unlisted_step [OF Cons.prems(1,2) r1(1)] show ?case by simp
qed simp

lemma destroy_heap:
  assumes "map_ok h" and "distinct (map snd m)" and "\<forall>p \<in> snd ` set m. map_find p h \<noteq> None"
  shows "length (fold (\<lambda>(_, p). map_erase p) m h) = length h - length m"
  using assms
proof (induction m arbitrary: h)
  case (Cons x m)
  have "\<forall>p \<in> snd ` set m. map_find p (map_erase (snd x) h) \<noteq> None"
  proof
    fix p
    assume p: "p \<in> snd ` set m"
    moreover have "snd x \<notin> snd ` set m" using Cons.prems(2) by simp
    ultimately have "p \<noteq> snd x" by blast
    moreover have "map_find p h \<noteq> None"
    proof -
      have "p \<in> snd ` set (x # m)" using p by simp
      with Cons.prems(3) show ?thesis by blast
    qed
    ultimately show "map_find p (map_erase (snd x) h) \<noteq> None" by (simp add: map_find_erase)
  qed
  with Cons show ?case by (auto simp: case_prod_unfold length_map_erase)
qed simp

section \<open>Properties\<close>

text \<open>
  C17: The renderer is a finite map of drawables: whatever messages arrive, in whatever order and for
  whatever identifiers, none misuses a pointer, and the drawables are those of the specification: an
  identifier that is there keeps its drawable when it is added again, a transform of an unknown
  identifier is ignored, and a deleted one is gone.
\<close>

theorem renderer_refines_scene:
  "\<exists>r. fold_res gl_pushMessage ms renderer_init = Inr r \<and> renderer_ok r \<and>
    scene r = fold scene_step ms (\<lambda>_. None)"
  using gl_fold_refines [OF renderer_init_ok(1), of ms] by (simp add: renderer_init_ok(2))

text \<open>
  \<open>DelDrawable\<close> erases the map entry and not the object: after any sequence of messages the
  destructor, which deletes the objects still in the map, leaves exactly as many objects behind as
  deletions have found one.
\<close>

lemma deleted_drawables_leak:
  assumes "fold_res gl_pushMessage ms renderer_init = Inr r"
  shows "length (gl_heap (renderer_destroy r)) = dropped ms (\<lambda>_. None)"
proof -
  have init: "counted renderer_init" "unlisted renderer_init = 0"
    by (simp_all add: counted_def unlisted_def renderer_init_def)
  have ok: "renderer_ok r" using gl_fold_refines [OF renderer_init_ok(1), of ms] assms by auto
  have "unlisted r = dropped ms (\<lambda>_. None)"
    using unlisted_fold [OF renderer_init_ok(1) init(1) assms] init(2) renderer_init_ok(2) by simp
  moreover have "length (gl_heap (renderer_destroy r)) = unlisted r"
    using destroy_heap [OF renderer_okD(2,3) [OF ok]] ok
    by (simp add: renderer_destroy_def unlisted_def renderer_ok_def)
  ultimately show ?thesis by simp
qed

lemma deleted_drawables_leak_witness:
  "\<exists>r. fold_res gl_pushMessage [ClientAddDrawableMsg 3 ''Player'', ClientAddDrawableMsg 4 ''Baddie'',
      ClientDelDrawableMsg 3, ClientDelDrawableMsg 9] renderer_init = Inr r \<and>
    length (gl_heap (renderer_destroy r)) = 1"
proof -
  let ?ms = "[ClientAddDrawableMsg 3 ''Player'', ClientAddDrawableMsg 4 ''Baddie'',
      ClientDelDrawableMsg 3, ClientDelDrawableMsg 9]"
  obtain r where r: "fold_res gl_pushMessage ?ms renderer_init = Inr r" by simp
  from deleted_drawables_leak [OF r] r show ?thesis by simp
qed

text \<open>The calls of one drawable.\<close>

definition triangle :: "float_bits list \<Rightarrow> color \<Rightarrow> gl_call list" where
  "triangle mat c = [GlLoadMatrix mat, GlColor c, GlBeginTriangles,
     GlVertex 0 1 0, GlVertex 1 (-1) 0, GlVertex (-1) (-1) 0, GlEnd]"

definition drawn :: "renderer \<Rightarrow> oid \<Rightarrow> gl_call list" where
  "drawn r i = (case scene r i of None \<Rightarrow> [] | Some d \<Rightarrow> triangle (the (d_matrix d)) (d_color d))"

lemma draw_steps:
  assumes "renderer_ok r" and "set ds \<subseteq> set (m_drawables r)"
    and "\<forall>(i, p) \<in> set ds. d_matrix (the (map_find p (gl_heap r))) \<noteq> None"
  shows "fold_res (\<lambda>(_, p) calls. case map_find p (gl_heap r) of None \<Rightarrow> Inl UseAfterFree
      | Some d \<Rightarrow> res_bind (draw_one d) (\<lambda>cs. Inr (calls @ cs))) ds cs =
    Inr (cs @ concat (map (drawn r) (map fst ds)))"
  using assms
proof (induction ds arbitrary: cs)
  case (Cons x ds)
  obtain i p where x: "x = (i, p)" by (cases x)
  have find: "map_find i (m_drawables r) = Some p"
    using Cons.prems(1,2) by (simp add: x renderer_ok_def flip: map_find_in_set)
  obtain d mat where "map_find p (gl_heap r) = Some d" "d_matrix d = Some mat"
    using renderer_okD(4) [OF Cons.prems(1) find] Cons.prems(3) by (auto simp: x)
  with Cons find show ?case by (simp add: x draw_one_def drawn_def scene_def triangle_def)
qed simp

lemma draw_complete:
  assumes "renderer_ok r" and all: "\<forall>i d. scene r i = Some d \<longrightarrow> d_matrix d \<noteq> None"
  shows "\<exists>ids. sorted_wrt (<) ids \<and> set ids = {i. scene r i \<noteq> None} \<and>
    draw r = Inr (GlClear # concat (map (drawn r) ids))"
proof -
  have "d_matrix (the (map_find p (gl_heap r))) \<noteq> None" if "(i, p) \<in> set (m_drawables r)" for i p
  proof -
    from that have i: "map_find i (m_drawables r) = Some p" using assms(1) by (simp add: renderer_ok_def map_find_in_set)
    then obtain d where d: "map_find p (gl_heap r) = Some d" using renderer_okD(4) [OF assms(1)] by blast
    with i have "scene r i = Some d" by (simp add: scene_def)
    with all d show ?thesis by simp
  qed
  then have written: "\<forall>(i, p) \<in> set (m_drawables r). d_matrix (the (map_find p (gl_heap r))) \<noteq> None"
    by blast
  let ?ids = "map fst (m_drawables r)"
  have "set ?ids = {i. scene r i \<noteq> None}"
    by (auto simp: scene_None [OF assms(1)] map_find_None_iff)
  moreover have "sorted_wrt (<) ?ids" using assms(1) by (simp add: renderer_ok_def map_ok_def)
  moreover have "draw r = Inr (GlClear # concat (map (drawn r) ?ids))"
    using draw_steps [OF assms(1) subset_refl written, of "[GlClear]"] by (simp add: draw_def)
  ultimately show ?thesis by blast
qed

lemma draw_incomplete:
  assumes "renderer_ok r" and "scene r i' = Some d'" and "d_matrix d' = None"
  shows "draw r = Inl Indeterminate"
proof -
  from assms(2,3) obtain i p d where i: "map_find i (m_drawables r) = Some p" "map_find p (gl_heap r) = Some d"
    "d_matrix d = None" by (auto simp: scene_def split: option.splits)
  have live: "\<forall>x \<in> set (m_drawables r). map_find (snd x) (gl_heap r) \<noteq> None"
    using assms(1) by (simp add: renderer_ok_def)
  have "(i, p) \<in> set ds \<Longrightarrow> \<forall>x \<in> set ds. map_find (snd x) (gl_heap r) \<noteq> None \<Longrightarrow>
      fold_res (\<lambda>(_, p) calls. case map_find p (gl_heap r) of None \<Rightarrow> Inl UseAfterFree
        | Some d \<Rightarrow> res_bind (draw_one d) (\<lambda>cs. Inr (calls @ cs))) ds cs = Inl Indeterminate" for ds cs
  proof (induction ds arbitrary: cs)
    case (Cons x ds)
    then obtain e where e: "map_find (snd x) (gl_heap r) = Some e" by auto
    show ?case
    proof (cases "d_matrix e")
      case None
      with e show ?thesis by (simp add: case_prod_unfold draw_one_def)
    next
      case (Some mat)
      with e i have "x \<noteq> (i, p)" by auto
      with Cons e Some show ?thesis by (auto simp: case_prod_unfold draw_one_def)
    qed
  qed simp
  from this [OF map_find_SomeD [OF i(1)] live] show ?thesis by (simp add: draw_def)
qed

text \<open>
  C31: Drawing clears the buffers and then draws every drawable of the scene once, in the order of the
  identifiers, a fixed triangle under the drawable's matrix and colour, if every one of them has
  received a transform; a drawable that has none yet makes \<open>draw\<close> read an uninitialised matrix.
\<close>

theorem draw_shows_the_scene:
  assumes "renderer_ok r"
  shows "((\<forall>i d. scene r i = Some d \<longrightarrow> d_matrix d \<noteq> None) \<longrightarrow>
      (\<exists>ids. sorted_wrt (<) ids \<and> set ids = {i. scene r i \<noteq> None} \<and>
        draw r = Inr (GlClear # concat (map (drawn r) ids)))) \<and>
    ((\<exists>i d. scene r i = Some d \<and> d_matrix d = None) \<longrightarrow> draw r = Inl Indeterminate)"
  using draw_complete [OF assms] draw_incomplete [OF assms] by blast

theorem draw_shows_the_scene_witness:
  "\<exists>r. fold_res gl_pushMessage [ClientAddDrawableMsg 3 ''Player''] renderer_init = Inr r \<and>
    draw r = Inl Indeterminate"
proof -
  obtain r where r: "fold_res gl_pushMessage [ClientAddDrawableMsg 3 ''Player''] renderer_init = Inr r"
    "renderer_ok r" "scene r = fold scene_step [ClientAddDrawableMsg 3 ''Player''] (\<lambda>_. None)"
    using gl_fold_refines [OF renderer_init_ok(1)] renderer_init_ok(2) by metis
  then have "\<exists>i d. scene r i = Some d \<and> d_matrix d = None"
    by (intro exI [of _ 3]) simp
  with draw_shows_the_scene [OF r(2)] r(1) show ?thesis by blast
qed

end
