(* ===== verification/LocalClient.thy ===== *)
theory LocalClient
  imports Renderer MsgQueue
begin

unbundle bit_operations_syntax

text \<open>
  \<open>client/localclient.cpp\<close> and the event loop of \<open>client/localclient_x11.cpp\<close>: the message queue, the
  keyboard state, one frame, and the main loop. The X server is a parameter: its events arrive as a list
  per frame, with the key codes already looked up as key symbols.
\<close>

section \<open>Events and state\<close>

text \<open>The numbers of X11 the code compares with; the code of the space is 32.\<close>

record x11 =
  XK_Left :: nat
  XK_Right :: nat
  WM_PROTOCOLS :: nat
  WM_DELETE_WINDOW :: nat

datatype xevent = ClientMessage nat nat | KeyPress nat | KeyRelease nat | OtherEvent

text \<open>
  \<open>lc_sent\<close> lists the calls of \<open>m_server->pushMessage\<close>, \<open>lc_frames\<close> the OpenGL calls of the frames drawn,
  \<open>keymap\<close> is the static variable of the platform code.
\<close>

record 'f client =
  lc_queue :: "client_msg list"
  lc_renderer :: renderer
  m_finished :: bool
  keymap :: u16
  lc_sent :: "'f server_msg list"
  lc_frames :: "gl_call list list"

text \<open>The constructor of client \<open>self\<close>, after \<open>addClient\<close>.\<close>

definition client_init :: "ptr \<Rightarrow> 'f client" where
  "client_init self =
     \<lparr>lc_queue = [], lc_renderer = renderer_init, m_finished = False, keymap = 0,
      lc_sent = [ServerLoadPlayerMsg self ''Player''], lc_frames = []\<rparr>"

definition client_pushMessage :: "client_msg \<Rightarrow> 'f client \<Rightarrow> 'f client" where
  "client_pushMessage msg c = c\<lparr>lc_queue := queue_push msg (lc_queue c)\<rparr>"

definition serverClosed :: "'f client \<Rightarrow> 'f client" where
  "serverClosed c = c\<lparr>m_finished := True\<rparr>"

section \<open>Messages\<close>

definition dispatch :: "client_msg \<Rightarrow> renderer \<Rightarrow> fault + renderer" where
  "dispatch msg r =
     (case client_type msg of
        AddDrawable \<Rightarrow> gl_pushMessage msg r
      | TransDrawable \<Rightarrow> gl_pushMessage msg r
      | DelDrawable \<Rightarrow> gl_pushMessage msg r
      | _ \<Rightarrow> Inr r)"

definition client_messages :: "'f client \<Rightarrow> (fault + 'f client) option" where
  "client_messages c =
     map_option (\<lambda>(r, q). res_bind r (\<lambda>rd. Inr (c\<lparr>lc_renderer := rd, lc_queue := q\<rparr>)))
       (drain queue_try_pop dispatch (lc_queue c) (lc_renderer c))"

section \<open>Platform events\<close>

definition adjustKeysym :: "bool \<Rightarrow> u16 \<Rightarrow> u16 \<Rightarrow> u16" where
  "adjustKeysym key_press key km = (if key_press then km OR key else km AND NOT key)"

text \<open>The inner \<open>switch\<close>: the state bit a key symbol stands for.\<close>

definition key_bit :: "x11 \<Rightarrow> nat \<Rightarrow> u16 option" where
  "key_bit X keysym =
     (if keysym = XK_Left X then Some StrafeLeft
      else if keysym = XK_Right X then Some StrafeRight
      else if keysym = 32 then Some Shoot
      else None)"

text \<open>The loop body; the state is \<open>keymap\<close>, \<open>keys_changed\<close> and \<open>m_finished\<close>.\<close>

definition process_key :: "x11 \<Rightarrow> bool \<Rightarrow> nat \<Rightarrow> u16 \<times> bool \<times> bool \<Rightarrow> u16 \<times> bool \<times> bool" where
  "process_key X key_press keysym = (\<lambda>(km, changed, fin).
     case key_bit X keysym of
       None \<Rightarrow> (km, changed, fin)
     | Some key \<Rightarrow> (adjustKeysym key_press key km, True, fin))"

fun process_event :: "x11 \<Rightarrow> xevent \<Rightarrow> u16 \<times> bool \<times> bool \<Rightarrow> u16 \<times> bool \<times> bool" where
  "process_event X (ClientMessage mtype dat) (km, changed, fin) =
     (km, changed, fin \<or> (mtype = WM_PROTOCOLS X \<and> dat = WM_DELETE_WINDOW X))"
| "process_event X (KeyRelease keysym) s = process_key X False keysym s"
| "process_event X (KeyPress keysym) s = process_key X True keysym s"
| "process_event X OtherEvent s = s"

definition platformEvents :: "x11 \<Rightarrow> ptr \<Rightarrow> xevent list \<Rightarrow> 'f client \<Rightarrow> 'f client" where
  "platformEvents X self evs c =
     (let (km, changed, fin) = fold (process_event X) evs (keymap c, False, m_finished c)
      in c\<lparr>keymap := km, m_finished := fin,
           lc_sent := lc_sent c @ (if changed then [ServerInputMsg self (Some km)] else [])\<rparr>)"

section \<open>The main loop\<close>

text \<open>
  What happens to the client during a frame: the messages other threads push before the queue is read,
  whether the server calls \<open>serverClosed\<close>, and the pending X events.
\<close>

record frame_input =
  fi_messages :: "client_msg list"
  fi_closed :: bool
  fi_events :: "xevent list"

definition frame :: "x11 \<Rightarrow> ptr \<Rightarrow> frame_input \<Rightarrow> 'f client \<Rightarrow> (fault + 'f client) option" where
  "frame X self fi c =
     map_option
       (\<lambda>r. res_bind r (\<lambda>c.
          let c = platformEvents X self (fi_events fi) (if fi_closed fi then serverClosed c else c)
          in res_bind (draw (lc_renderer c)) (\<lambda>calls. Inr (c\<lparr>lc_frames := lc_frames c @ [calls]\<rparr>))))
       (client_messages (fold client_pushMessage (fi_messages fi) c))"

text \<open>After the loop, before the client waits for the server.\<close>

definition leave :: "bool \<Rightarrow> ptr \<Rightarrow> 'f client \<Rightarrow> 'f client" where
  "leave isLocal self c =
     (if isLocal then c\<lparr>lc_sent := lc_sent c @ [ServerShutdownMsg self]\<rparr> else c)"

text \<open>
  \<open>mainloop\<close> over the inputs of the frames to come; the flag tells whether the loop has ended, the list
  holds the frames that were not run.
\<close>

fun mainloop :: "x11 \<Rightarrow> bool \<Rightarrow> ptr \<Rightarrow> frame_input list \<Rightarrow> 'f client \<Rightarrow>
    (fault + (bool \<times> frame_input list \<times> 'f client)) option" where
  "mainloop X isLocal self [] c =
     Some (Inr (if m_finished c then (True, [], leave isLocal self c) else (False, [], c)))"
| "mainloop X isLocal self (fi # fis) c =
     (if m_finished c then Some (Inr (True, fi # fis, leave isLocal self c))
      else case frame X self fi c of
             None \<Rightarrow> None
           | Some (Inl e) \<Rightarrow> Some (Inl e)
           | Some (Inr c') \<Rightarrow> mainloop X isLocal self fis c')"

section \<open>Messages reach the renderer\<close>

lemma dispatch_push: "dispatch msg r = gl_pushMessage msg r"
  by (cases msg) (simp_all add: dispatch_def)

lemma client_messages_scene:
  assumes "renderer_ok (lc_renderer c)"
  shows "\<exists>r. client_messages c = Some (Inr (c\<lparr>lc_renderer := r, lc_queue := []\<rparr>)) \<and> renderer_ok r \<and>
    scene r = fold scene_step (lc_queue c) (scene (lc_renderer c))"
proof -
  have d: "dispatch = gl_pushMessage" by (intro ext) (simp add: dispatch_push)
  obtain r where r: "fold_res gl_pushMessage (lc_queue c) (lc_renderer c) = Inr r" "renderer_ok r"
    "scene r = fold scene_step (lc_queue c) (scene (lc_renderer c))"
    using gl_fold_refines [OF assms] by blast
  then obtain q where "drain queue_try_pop dispatch (lc_queue c) (lc_renderer c) = Some (Inr r, q)" "q = []"
    using msg_queue.drain_total [of dispatch "lc_queue c" "lc_renderer c" r] by (auto simp: d)
  with r show ?thesis by (intro exI [of _ r]) (simp add: client_messages_def)
qed

lemma pushes_queue:
  "fold client_pushMessage ms c = c\<lparr>lc_queue := rev ms @ lc_queue c\<rparr>"
  by (induction ms arbitrary: c)
    (simp_all add: client_pushMessage_def queue_push_def lockless_push_def)

end
