(* ===== verification/ClientProperties.thy ===== *)
theory ClientProperties
  imports LocalClient
begin

unbundle bit_operations_syntax

text \<open>
  What the local client does with keys, messages and the end of the game, and what the order of the
  default queue does to drawables that come and go within a frame.
\<close>

section \<open>Keys\<close>

text \<open>Whether the last event for a state bit pressed or released it; \<open>None\<close> if there was none.\<close>

fun event_key :: "x11 \<Rightarrow> xevent \<Rightarrow> (u16 \<times> bool) option" where
  "event_key X (KeyPress s) = map_option (\<lambda>k. (k, True)) (key_bit X s)"
| "event_key X (KeyRelease s) = map_option (\<lambda>k. (k, False)) (key_bit X s)"
| "event_key X _ = None"

definition key_events :: "x11 \<Rightarrow> xevent list \<Rightarrow> (u16 \<times> bool) list" where
  "key_events X evs = List.map_filter (event_key X) evs"

definition last_event :: "x11 \<Rightarrow> xevent list \<Rightarrow> u16 \<Rightarrow> bool option" where
  "last_event X evs key = map_of (rev (key_events X evs)) key"

lemma process_event_key:
  "process_event X e (km, changed, fin) =
     (case event_key X e of None \<Rightarrow> km | Some (k, p) \<Rightarrow> adjustKeysym p k km,
      changed \<or> event_key X e \<noteq> None,
      fin \<or> e = ClientMessage (WM_PROTOCOLS X) (WM_DELETE_WINDOW X))"
  by (cases e) (auto simp: process_key_def split: option.split)

lemma process_events:
  "fold (process_event X) evs (km, changed, fin) =
     (fold (\<lambda>(k, p). adjustKeysym p k) (key_events X evs) km, changed \<or> key_events X evs \<noteq> [],
      fin \<or> ClientMessage (WM_PROTOCOLS X) (WM_DELETE_WINDOW X) \<in> set evs)"
proof (induction evs arbitrary: km changed fin)
  case (Cons e evs)
  show ?case
    by (cases "event_key X e") (auto simp: Cons.IH process_event_key key_events_def map_filter_simps)
qed (simp add: key_events_def map_filter_simps)

lemma key_bit_single: "key_bit X s = Some k \<Longrightarrow> \<exists>n < 8. k = 2 ^ n"
proof -
  have bits: "StrafeLeft = 2 ^ 0" "StrafeRight = 2 ^ 1" "Shoot = 2 ^ 7" by (simp_all add: input_state_defs)
  assume "key_bit X s = Some k"
  then consider "k = 2 ^ 0" | "k = 2 ^ 1" | "k = 2 ^ 7"
    unfolding key_bit_def bits by (auto split: if_splits)
  then show ?thesis
  proof cases
    case 1 then show ?thesis by (intro exI [of _ 0]) simp
  next
    case 2 then show ?thesis by (intro exI [of _ 1]) simp
  next
    case 3 then show ?thesis by (intro exI [of _ 7]) simp
  qed
qed

lemma bit_adjust:
  "n < 16 \<Longrightarrow> bit (adjustKeysym p (2 ^ m) km) n = (if n = m then p else bit km n)" for km :: u16
  by (auto simp: adjustKeysym_def bit_simps)

lemma key_events_single:
  assumes "(k, p) \<in> set (key_events X evs)"
  shows "\<exists>n < 8. k = 2 ^ n"
proof -
  from assms obtain e where "event_key X e = Some (k, p)" by (auto simp: key_events_def map_filter_def)
  then obtain s where "key_bit X s = Some k" by (cases e) auto
  then show ?thesis by (rule key_bit_single)
qed

lemma power_bit_inject:
  assumes "n < 16" and "m < 16"
  shows "(2 :: u16) ^ n = 2 ^ m \<longleftrightarrow> n = m"
proof
  assume "(2 :: u16) ^ n = 2 ^ m"
  then have "bit ((2 :: u16) ^ n) n = bit ((2 :: u16) ^ m) n" by simp
  with assms(1) show "n = m" by (simp add: bit_simps)
qed simp

lemma bits_after_events:
  assumes "\<forall>(k, p) \<in> set kps. \<exists>m < 8. k = 2 ^ m" and "n < 16"
  shows "bit (fold (\<lambda>(k, p). adjustKeysym p k) kps km) n =
    (case map_of (rev kps) (2 ^ n) of None \<Rightarrow> bit km n | Some p \<Rightarrow> p)"
  using assms(1)
proof (induction kps arbitrary: km rule: rev_induct)
  case (snoc x kps)
  obtain k p where x: "x = (k, p)" by (cases x)
  with snoc.prems obtain m where m: "m < 8" "k = 2 ^ m" by auto
  have IH: "bit (fold (\<lambda>(k, p). adjustKeysym p k) kps km) n =
      (case map_of (rev kps) (2 ^ n) of None \<Rightarrow> bit km n | Some p \<Rightarrow> p)"
    using snoc.prems by (intro snoc.IH) simp
  have "(2 ^ n = k) = (n = m)" using power_bit_inject [of n m] m assms(2) by simp
  with IH show ?case by (simp add: x m(2) bit_adjust [OF assms(2)])
qed (simp add: assms(2))

lemma last_event_above: "16 \<le> n \<Longrightarrow> last_event X evs (2 ^ n) = None"
proof -
  assume "16 \<le> n"
  then have "(2 :: u16) ^ n = 0" by (simp add: exp_eq_zero_iff)
  moreover have "k \<noteq> 0" if m: "m < 8" and k: "k = 2 ^ m" for k :: u16 and m
  proof
    assume "k = 0"
    with k have "bit ((2 :: u16) ^ m) m = bit (0 :: u16) m" by (simp only:)
    with m show False by (simp add: bit_simps)
  qed
  then have "0 \<notin> fst ` set (key_events X evs)" using key_events_single by fastforce
  ultimately have "2 ^ n \<notin> fst ` set (key_events X evs)" by (simp only: not_False_eq_True)
  then show ?thesis by (simp add: last_event_def map_of_eq_None_iff)
qed

text \<open>
  C32: After the events of a frame every bit of the keyboard state is what the last press or release of
  its key made it, and unchanged if there was none; the server is sent one input message with the new
  state if any of the keys had an event, and none otherwise; the loop is told to end exactly if it was
  already or the window manager asked to close the window.
\<close>

theorem keyboard_state_follows_keys:
  "let c' = platformEvents X self evs c in
    (\<forall>n. bit (keymap c') n = (case last_event X evs (2 ^ n) of None \<Rightarrow> bit (keymap c) n | Some p \<Rightarrow> p)) \<and>
    lc_sent c' = lc_sent c @ (if key_events X evs = [] then [] else [ServerInputMsg self (Some (keymap c'))]) \<and>
    (m_finished c' \<longleftrightarrow> m_finished c \<or> ClientMessage (WM_PROTOCOLS X) (WM_DELETE_WINDOW X) \<in> set evs)"
proof -
  let ?km = "fold (\<lambda>(k, p). adjustKeysym p k) (key_events X evs) (keymap c)"
  have "\<forall>(k, p) \<in> set (key_events X evs). \<exists>m < 8. k = 2 ^ m" using key_events_single by blast
  from bits_after_events [OF this] have "bit ?km n =
      (case last_event X evs (2 ^ n) of None \<Rightarrow> bit (keymap c) n | Some p \<Rightarrow> p)" for n
    using last_event_above [of n X evs] bit_imp_le_length [of ?km n] bit_imp_le_length [of "keymap c" n]
    by (cases "n < 16") (auto simp: last_event_def)
  then show ?thesis
    by (simp add: platformEvents_def process_events Let_def)
qed

section \<open>Messages of a frame\<close>

lemma messages_newest_first:
  assumes "renderer_ok (lc_renderer c)"
  shows "\<exists>r. client_messages (fold client_pushMessage ms c) =
      Some (Inr (c\<lparr>lc_renderer := r, lc_queue := []\<rparr>)) \<and> renderer_ok r \<and>
    scene r = fold scene_step (rev ms @ lc_queue c) (scene (lc_renderer c))"
proof -
  have "renderer_ok (lc_renderer (fold client_pushMessage ms c))" using assms by (simp add: pushes_queue)
  from client_messages_scene [OF this] show ?thesis by (auto simp: pushes_queue)
qed

text \<open>
  Every message pushed before a frame reaches the renderer in that frame, once, the newest first, and
  the queue is empty afterwards; nothing is misused on the way.
\<close>

lemma frame_messages_newest_first:
  assumes "renderer_ok (lc_renderer c)"
  shows "\<exists>c'. client_messages (fold client_pushMessage ms c) = Some (Inr c') \<and> lc_queue c' = [] \<and>
    renderer_ok (lc_renderer c') \<and>
    scene (lc_renderer c') = fold scene_step (rev ms @ lc_queue c) (scene (lc_renderer c)) \<and>
    lc_sent c' = lc_sent c \<and> keymap c' = keymap c \<and> m_finished c' = m_finished c"
proof -
  obtain r where "client_messages (fold client_pushMessage ms c) = Some (Inr (c\<lparr>lc_renderer := r, lc_queue := []\<rparr>))"
    "renderer_ok r" "scene r = fold scene_step (rev ms @ lc_queue c) (scene (lc_renderer c))"
    using messages_newest_first [OF assms] by blast
  then show ?thesis by (intro exI [of _ "c\<lparr>lc_renderer := r, lc_queue := []\<rparr>"]) simp
qed

lemma frame_messages_newest_first_witness:
  "\<exists>c'. client_messages (fold client_pushMessage
      [ClientTransDrawableMsg 3 (Some [1]), ClientAddDrawableMsg 3 ''Baddie''] (client_init 7 :: int client)) =
      Some (Inr c') \<and>
    scene (lc_renderer c') 3 = Some \<lparr>d_color = (1, 0, 0), d_matrix = Some [1]\<rparr>"
proof -
  have "renderer_ok (lc_renderer (client_init 7 :: int client))"
    using renderer_init_ok(1) by (simp add: client_init_def)
  from frame_messages_newest_first [OF this,
      of "[ClientTransDrawableMsg 3 (Some [1]), ClientAddDrawableMsg 3 ''Baddie'']"]
  show ?thesis using renderer_init_ok(2) by (auto simp: client_init_def template_color_def)
qed

text \<open>
  A drawable whose addition and deletion arrive before the same frame stays on the screen, because the
  deletion is handled first and finds nothing; in the order they were sent nothing would stay. A drawable
  whose addition and first transform arrive before the same frame loses the transform, and drawing the
  frame reads its uninitialised matrix.
\<close>

lemma add_is_handled_last_in_its_frame:
  assumes "renderer_ok (lc_renderer c)" and "lc_queue c = []" and "scene (lc_renderer c) i = None"
  shows "(\<exists>c'. client_messages (fold client_pushMessage [ClientAddDrawableMsg i t, ClientDelDrawableMsg i] c) =
        Some (Inr c') \<and> scene (lc_renderer c') i \<noteq> None) \<and>
    fold scene_step [ClientAddDrawableMsg i t, ClientDelDrawableMsg i] (scene (lc_renderer c)) i = None \<and>
    (fi_messages fi = [ClientAddDrawableMsg i t, ClientTransDrawableMsg i (Some mat)] \<longrightarrow>
      frame X self fi c = Some (Inl Indeterminate))"
proof (intro conjI impI)
  show "\<exists>c'. client_messages (fold client_pushMessage [ClientAddDrawableMsg i t, ClientDelDrawableMsg i] c) =
      Some (Inr c') \<and> scene (lc_renderer c') i \<noteq> None"
    using messages_newest_first [OF assms(1), of "[ClientAddDrawableMsg i t, ClientDelDrawableMsg i]"] assms(2,3)
    by auto
  show "fold scene_step [ClientAddDrawableMsg i t, ClientDelDrawableMsg i] (scene (lc_renderer c)) i = None"
    by simp
next
  assume fi: "fi_messages fi = [ClientAddDrawableMsg i t, ClientTransDrawableMsg i (Some mat)]"
  obtain r where r: "client_messages (fold client_pushMessage (fi_messages fi) c) =
      Some (Inr (c\<lparr>lc_renderer := r, lc_queue := []\<rparr>))" "renderer_ok r"
    "scene r = fold scene_step (rev (fi_messages fi) @ lc_queue c) (scene (lc_renderer c))"
    using messages_newest_first [OF assms(1)] by blast
  have "scene r i = Some \<lparr>d_color = template_color t, d_matrix = None\<rparr>" using r(3) assms(2,3) by (simp add: fi)
  from draw_incomplete [OF r(2) this] have "draw r = Inl Indeterminate" by simp
  then show "frame X self fi c = Some (Inl Indeterminate)"
    by (simp add: frame_def r(1) Let_def platformEvents_def case_prod_unfold serverClosed_def)
qed

lemma add_is_handled_last_in_its_frame_witness:
  "frame \<lparr>XK_Left = 65361, XK_Right = 65363, WM_PROTOCOLS = 5, WM_DELETE_WINDOW = 6\<rparr> 7
      \<lparr>fi_messages = [ClientAddDrawableMsg 3 ''Player'', ClientTransDrawableMsg 3 (Some [1])],
       fi_closed = False, fi_events = []\<rparr> (client_init 7 :: int client) = Some (Inl Indeterminate)"
proof -
  have "renderer_ok (lc_renderer (client_init 7 :: int client))" "lc_queue (client_init 7 :: int client) = []"
    "scene (lc_renderer (client_init 7 :: int client)) 3 = None"
    using renderer_init_ok by (simp_all add: client_init_def)
  from add_is_handled_last_in_its_frame [OF this, where mat = "[1]" and t = "''Player''", THEN conjunct2, THEN conjunct2, rule_format]
  show ?thesis by simp
qed

section \<open>The end of the game\<close>

definition closes :: "x11 \<Rightarrow> frame_input \<Rightarrow> bool" where
  "closes X fi \<longleftrightarrow> fi_closed fi \<or> ClientMessage (WM_PROTOCOLS X) (WM_DELETE_WINDOW X) \<in> set (fi_events fi)"

fun is_shutdown :: "'f server_msg \<Rightarrow> bool" where
  "is_shutdown (ServerShutdownMsg _) = True"
| "is_shutdown _ = False"

definition shutdowns :: "'f client \<Rightarrow> nat" where
  "shutdowns c = length (filter is_shutdown (lc_sent c))"

lemma frame_result:
  assumes "frame X self fi c = Some (Inr c')"
  shows "(m_finished c' \<longleftrightarrow> m_finished c \<or> closes X fi) \<and> shutdowns c' = shutdowns c \<and>
    length (lc_frames c') = Suc (length (lc_frames c))"
proof -
  have "client_messages (fold client_pushMessage (fi_messages fi) c) \<noteq> None"
    using assms by (auto simp: frame_def)
  then obtain r where "client_messages (fold client_pushMessage (fi_messages fi) c) = Some r" by blast
  with assms obtain c1 rd q where c1: "client_messages (fold client_pushMessage (fi_messages fi) c) = Some (Inr c1)"
    and eq: "c1 = (fold client_pushMessage (fi_messages fi) c)\<lparr>lc_renderer := rd, lc_queue := q\<rparr>"
    by (auto simp: frame_def res_bind_eq_Inr client_messages_def)
  let ?c = "if fi_closed fi then serverClosed c1 else c1"
  from assms c1 obtain calls where
    "c' = (platformEvents X self (fi_events fi) ?c)\<lparr>lc_frames := lc_frames (platformEvents X self (fi_events fi) ?c) @ [calls]\<rparr>"
    by (auto simp: frame_def Let_def res_bind_eq_Inr)
  then show ?thesis
    by (auto simp: platformEvents_def process_events shutdowns_def closes_def eq pushes_queue serverClosed_def)
qed

text \<open>
  The main loop draws one frame after another until the first in which the server closes or the
  window is closed, and no frame after that one; it ends exactly if there is such a frame, and on ending
  it asks the server to shut down, once, if the server is in this process and not otherwise.
\<close>

lemma mainloop_ends_with_the_first_close:
  assumes "mainloop X isLocal self fis c = Some (Inr (ended, rest, c'))" and "\<not> m_finished c"
  shows "ended = (\<exists>fi \<in> set fis. closes X fi) \<and> rest = tl (dropWhile (\<lambda>fi. \<not> closes X fi) fis) \<and>
    length (lc_frames c') = length (lc_frames c) + (length fis - length rest) \<and>
    shutdowns c' = shutdowns c + (if ended \<and> isLocal then 1 else 0)"
  using assms
proof (induction fis arbitrary: c)
  case (Cons fi fis)
  then obtain c1 where c1: "frame X self fi c = Some (Inr c1)"
    and run: "mainloop X isLocal self fis c1 = Some (Inr (ended, rest, c'))"
    by (auto split: option.splits sum.splits)
  note R = frame_result [OF c1]
  show ?case
  proof (cases "closes X fi")
    case True
    with R have "m_finished c1" by simp
    with run have "ended \<and> rest = fis \<and> c' = leave isLocal self c1"
      by (cases fis) auto
    with True R show ?thesis by (auto simp: leave_def shutdowns_def)
  next
    case False
    with R Cons.prems(2) have "\<not> m_finished c1" by simp
    from Cons.IH [OF run this] R False show ?thesis
      using length_dropWhile_le [of "\<lambda>fi. \<not> closes X fi" fis] by (auto simp: Suc_diff_le)
  qed
qed (auto simp: leave_def)

lemma mainloop_ends_with_the_first_close_witness:
  "\<exists>X c'. mainloop X True 7 [\<lparr>fi_messages = [], fi_closed = True, fi_events = []\<rparr>] (client_init 7 :: int client) =
      Some (Inr (True, [], c')) \<and> shutdowns c' = 1 \<and> length (lc_frames c') = 1"
proof -
  let ?X = "\<lparr>XK_Left = 65361, XK_Right = 65363, WM_PROTOCOLS = 5, WM_DELETE_WINDOW = 6\<rparr>"
  let ?fi = "\<lparr>fi_messages = [], fi_closed = True, fi_events = []\<rparr>"
  let ?c = "client_init 7 :: int client"
  have ok: "renderer_ok (lc_renderer ?c)" using renderer_init_ok(1) by (simp add: client_init_def)
  obtain r where r: "client_messages ?c = Some (Inr (?c\<lparr>lc_renderer := r, lc_queue := []\<rparr>))" "renderer_ok r"
    "scene r = (\<lambda>_. None)"
    using messages_newest_first [OF ok, of "[]"] renderer_init_ok(2) by (auto simp: client_init_def)
  have "\<forall>i d. scene r i = Some d \<longrightarrow> d_matrix d \<noteq> None" using r(3) by simp
  from draw_complete [OF r(2) this] obtain ids where "draw r = Inr (GlClear # concat (map (drawn r) ids))"
    by blast
  with r(1) obtain c' where run: "mainloop ?X True 7 [?fi] ?c = Some (Inr (True, [], c'))"
    by (simp add: frame_def Let_def platformEvents_def serverClosed_def client_init_def)
  have "\<not> m_finished ?c" by (simp add: client_init_def)
  from mainloop_ends_with_the_first_close [OF run this] run show ?thesis
    by (intro exI [of _ ?X] exI [of _ c']) (simp add: shutdowns_def client_init_def closes_def)
qed

end
