(* ===== verification/RemoteClient.thy ===== *)
theory RemoteClient
  imports Messages
begin

text \<open>
  \<open>server/remoteclient.cpp\<close> and \<open>ListenServer\<close> of \<open>qntsrv.cpp\<close>: one connection of the listening server as
  its \<open>io_service\<close> runs it. The service has one thread: it runs posted handlers one after another, in the
  order of their posting; a pending asynchronous read posts its handler when the four bytes are there,
  when the stream ends, or when the socket is closed or destroyed. That is what the code relies on of
  \<open>boost::asio\<close>.
\<close>

section \<open>State\<close>

datatype handler = WriteMsg client_msg | ReadMsg int | DeleteSelf

datatype 'f server_call = CallAddClient | CallRemoveClient | CallPushMessage "'f server_msg"

text \<open>
  \<open>rc_reading\<close>: an \<open>async_read\<close> of the next type code is pending. \<open>rc_live\<close>: the object has not been deleted.
  \<open>rc_calls\<close>: the calls made on the server, oldest first.
\<close>

record 'f remote_client =
  rc_sock :: socket
  rc_posted :: "handler list"
  rc_reading :: bool
  m_next_msg_type :: u32
  m_marked_for_delete :: bool
  rc_live :: bool
  rc_calls :: "'f server_call list"

definition rc_init :: "socket \<Rightarrow> 'f remote_client" where
  "rc_init sock =
     \<lparr>rc_sock = sock, rc_posted = [], rc_reading = False, m_next_msg_type = 0,
      m_marked_for_delete = False, rc_live = True, rc_calls = []\<rparr>"

text \<open>The code of an operation on a cancelled socket (\<open>ECANCELED\<close>) and on a closed one (\<open>EBADF\<close>).\<close>

definition operation_aborted :: int where "operation_aborted = 125"
definition bad_descriptor :: int where "bad_descriptor = 9"

section \<open>Handlers\<close>

definition rc_pushMessage :: "client_msg \<Rightarrow> 'f remote_client \<Rightarrow> 'f remote_client" where
  "rc_pushMessage msg c = c\<lparr>rc_posted := rc_posted c @ [WriteMsg msg]\<rparr>"

definition spinup :: "'f remote_client \<Rightarrow> 'f remote_client" where
  "spinup c = c\<lparr>rc_calls := rc_calls c @ [CallAddClient], rc_reading := True\<rparr>"

text \<open>The three lines all failures share.\<close>

definition disconnect :: "'f remote_client \<Rightarrow> 'f remote_client" where
  "disconnect c = c\<lparr>rc_calls := rc_calls c @ [CallRemoveClient], m_marked_for_delete := True,
                    rc_posted := rc_posted c @ [DeleteSelf]\<rparr>"

text \<open>Only \<open>system_error\<close> is caught.\<close>

definition rc_writeMsg :: "client_msg \<Rightarrow> 'f remote_client \<Rightarrow> fault + 'f remote_client" where
  "rc_writeMsg msg c =
     (case client_send msg (rc_sock c) of
        (Inr _, sk) \<Rightarrow> Inr (c\<lparr>rc_sock := sk\<rparr>)
      | (Inl (SystemError e), sk) \<Rightarrow>
          Inr (if m_marked_for_delete c then c\<lparr>rc_sock := sk\<rparr> else disconnect (c\<lparr>rc_sock := sk\<rparr>))
      | (Inl e, sk) \<Rightarrow> Inl e)"

text \<open>\<open>self\<close> is the address of the object; nothing catches what \<open>msg->read\<close> throws.\<close>

definition rc_readMsg :: "ptr \<Rightarrow> int \<Rightarrow> 'f remote_client \<Rightarrow> fault + 'f remote_client" where
  "rc_readMsg self err c =
     (if m_marked_for_delete c then Inr c
      else if err \<noteq> 0 then Inr (disconnect c)
      else case server_create (m_next_msg_type c) self of
             None \<Rightarrow> Inr (disconnect c)
           | Some msg \<Rightarrow>
               (case server_read msg (rc_sock c) of
                  (Inl e, sk) \<Rightarrow> Inl e
                | (Inr m, sk) \<Rightarrow>
                    Inr (c\<lparr>rc_sock := sk, rc_calls := rc_calls c @ [CallPushMessage m], rc_reading := True\<rparr>)))"

text \<open>Destroying the socket cancels the pending read, whose handler is bound to the object.\<close>

definition deleteSelf :: "'f remote_client \<Rightarrow> 'f remote_client" where
  "deleteSelf c =
     c\<lparr>rc_live := False, rc_reading := False,
       rc_posted := rc_posted c @ (if rc_reading c then [ReadMsg operation_aborted] else [])\<rparr>"

fun rc_handle :: "ptr \<Rightarrow> handler \<Rightarrow> 'f remote_client \<Rightarrow> fault + 'f remote_client" where
  "rc_handle self (WriteMsg msg) c = rc_writeMsg msg c"
| "rc_handle self (ReadMsg err) c = rc_readMsg self err c"
| "rc_handle self DeleteSelf c = Inr (deleteSelf c)"

section \<open>The service\<close>

text \<open>
  \<open>Post\<close>: the server calls \<open>pushMessage\<close>; \<open>Close\<close>: it calls \<open>serverClosed\<close>; \<open>Complete\<close>: the pending read has its
  bytes, or the stream has ended; \<open>Run\<close>: the service runs the next handler. All handlers use the object.
\<close>

datatype rc_event = Post client_msg | Close | Complete | Run

definition complete_read :: "'f remote_client \<Rightarrow> 'f remote_client" where
  "complete_read c =
     (if \<not> rc_reading c then c
      else case readPod32 (rc_sock c) of
             (Inr t, sk) \<Rightarrow> c\<lparr>rc_sock := sk, m_next_msg_type := t, rc_reading := False,
                              rc_posted := rc_posted c @ [ReadMsg 0]\<rparr>
           | (Inl _, sk) \<Rightarrow> c\<lparr>rc_sock := sk, rc_reading := False,
                              rc_posted := rc_posted c @ [ReadMsg (sk_read_code sk)]\<rparr>)"

definition close_socket :: "'f remote_client \<Rightarrow> 'f remote_client" where
  "close_socket c =
     c\<lparr>rc_sock := (rc_sock c)\<lparr>sk_in := [], sk_read_code := bad_descriptor, sk_room := Some 0,
                             sk_write_code := bad_descriptor\<rparr>,
       rc_reading := False,
       rc_posted := rc_posted c @ (if rc_reading c then [ReadMsg operation_aborted] else [])\<rparr>"

fun rc_step :: "ptr \<Rightarrow> rc_event \<Rightarrow> 'f remote_client \<Rightarrow> fault + 'f remote_client" where
  "rc_step self (Post msg) c = (if rc_live c then Inr (rc_pushMessage msg c) else Inl UseAfterFree)"
| "rc_step self Close c = (if rc_live c then Inr (close_socket c) else Inl UseAfterFree)"
| "rc_step self Complete c = Inr (complete_read c)"
| "rc_step self Run c =
     (case rc_posted c of
        [] \<Rightarrow> Inr c
      | h # hs \<Rightarrow> if rc_live c then rc_handle self h (c\<lparr>rc_posted := hs\<rparr>) else Inl UseAfterFree)"

definition rc_steps :: "ptr \<Rightarrow> rc_event list \<Rightarrow> 'f remote_client \<Rightarrow> fault + 'f remote_client" where
  "rc_steps self = fold_res (rc_step self)"

section \<open>Accepting connections\<close>

text \<open>
  \<open>ListenServer\<close>: the client object of the next connection, those already spun up, and whether an
  \<open>async_accept\<close> is pending. \<open>handleAccept\<close> is given the error code and the address of the object \<open>new\<close>
  creates for the connection after this one.
\<close>

record listen_server =
  m_next_client :: ptr
  ls_spun :: "ptr list"
  ls_accepting :: bool

definition listen_init :: "ptr \<Rightarrow> listen_server" where
  "listen_init p = \<lparr>m_next_client = p, ls_spun = [], ls_accepting = True\<rparr>"

definition handleAccept :: "int \<Rightarrow> ptr \<Rightarrow> listen_server \<Rightarrow> listen_server" where
  "handleAccept err fresh l =
     (if err = 0
      then l\<lparr>ls_spun := ls_spun l @ [m_next_client l], m_next_client := fresh, ls_accepting := True\<rparr>
      else l\<lparr>ls_accepting := False\<rparr>)"

text \<open>The completions of the service; without a pending accept there is none.\<close>

definition accept_completes :: "int \<times> ptr \<Rightarrow> listen_server \<Rightarrow> listen_server" where
  "accept_completes e l =
     (if ls_accepting l then handleAccept (fst e) (snd e) (l\<lparr>ls_accepting := False\<rparr>) else l)"

lemma rc_steps_simps [simp]:
  "rc_steps self [] c = Inr c"
  "rc_steps self (e # es) c = res_bind (rc_step self e c) (rc_steps self es)"
  by (simp_all add: rc_steps_def)

lemma rc_steps_append: "rc_steps self (es @ fs) c = res_bind (rc_steps self es c) (rc_steps self fs)"
  by (simp add: rc_steps_def fold_res_append)

end
