(* ===== verification/RemoteClientProperties.thy ===== *)
theory RemoteClientProperties
  imports RemoteClient
begin

text \<open>
  The life of a connection of the listening server: what reaches the game server and in which order, when
  the client object is deleted, and what a broken connection does.
\<close>

section \<open>One message\<close>

lemma readPod32_code:
  "sk_in s = pod32 t @ rest \<Longrightarrow> readPod32 s = (Inr t, s\<lparr>sk_in := rest\<rparr>)"
  using parses_readPod32 by (auto simp: parses_def receives_def)

lemma server_read_message:
  assumes "server_sendable m" and "sk_in s = server_payload m @ rest"
  shows "server_read (server_fresh self m) s = (Inr (from_client self m), s\<lparr>sk_in := rest\<rparr>)"
  using parses_server_read [OF assms(1), of self] assms(2) by (auto simp: parses_def receives_def)

lemma receive_one:
  assumes "server_sendable m" and "sk_in (rc_sock c) = server_bytes m @ rest"
    and "rc_reading c" and "rc_posted c = []" and "\<not> m_marked_for_delete c" and "rc_live c"
  shows "rc_steps self [Complete, Run] c =
    Inr (c\<lparr>rc_sock := (rc_sock c)\<lparr>sk_in := rest\<rparr>, m_next_msg_type := server_type m,
           rc_calls := rc_calls c @ [CallPushMessage (from_client self m)]\<rparr>)"
proof -
  have "sk_in (rc_sock c) = pod32 (server_type m) @ server_payload m @ rest"
    using assms(2) by (simp add: server_bytes_def)
  from readPod32_code [OF this] assms show ?thesis
    by (simp add: complete_read_def rc_readMsg_def server_create_type server_read_message)
qed

lemma receive_many:
  assumes "list_all server_sendable ms" and "sk_in (rc_sock c) = concat (map server_bytes ms) @ rest"
    and "rc_reading c" and "rc_posted c = []" and "\<not> m_marked_for_delete c" and "rc_live c"
  shows "\<exists>t. rc_steps self (concat (replicate (length ms) [Complete, Run])) c =
    Inr (c\<lparr>rc_sock := (rc_sock c)\<lparr>sk_in := rest\<rparr>, m_next_msg_type := t,
           rc_calls := rc_calls c @ map (\<lambda>m. CallPushMessage (from_client self m)) ms\<rparr>)"
  using assms
proof (induction ms arbitrary: c)
  case Nil
  then show ?case by (intro exI [of _ "m_next_msg_type c"]) simp
next
  case (Cons m ms)
  let ?c = "c\<lparr>rc_sock := (rc_sock c)\<lparr>sk_in := concat (map server_bytes ms) @ rest\<rparr>,
      m_next_msg_type := server_type m, rc_calls := rc_calls c @ [CallPushMessage (from_client self m)]\<rparr>"
  have "rc_steps self [Complete, Run] c = Inr ?c"
    using Cons.prems by (intro receive_one) auto
  moreover obtain t where "rc_steps self (concat (replicate (length ms) [Complete, Run])) ?c =
      Inr (?c\<lparr>rc_sock := (rc_sock ?c)\<lparr>sk_in := rest\<rparr>, m_next_msg_type := t,
        rc_calls := rc_calls ?c @ map (\<lambda>m. CallPushMessage (from_client self m)) ms\<rparr>)"
    using Cons.IH [of ?c] Cons.prems by auto
  ultimately show ?case
    using rc_steps_append [of self "[Complete, Run]" "concat (replicate (length ms) [Complete, Run])" c]
    by (intro exI [of _ t]) (simp del: rc_steps_simps)
qed

text \<open>
  A remote client that sends any sequence of messages and then closes the connection is served in
  full: the game server is given exactly these messages, in order, each with this client as its sender,
  then it is told once to remove the client, and then the object deletes itself and nothing of it is left
  in the service.
\<close>

lemma connection_is_served_and_ends:
  assumes "list_all server_sendable ms" and "sk_in sock = concat (map server_bytes ms)"
    and "sk_read_code sock \<noteq> 0"
  shows "\<exists>c. rc_steps self (concat (replicate (length ms) [Complete, Run]) @ [Complete, Run, Run])
      (spinup (rc_init sock)) = Inr c \<and>
    rc_calls c = [CallAddClient] @ map (\<lambda>m. CallPushMessage (from_client self m)) ms @ [CallRemoveClient] \<and>
    \<not> rc_live c \<and> rc_posted c = [] \<and> \<not> rc_reading c"
proof -
  let ?c0 = "spinup (rc_init sock)"
  obtain t where many: "rc_steps self (concat (replicate (length ms) [Complete, Run])) ?c0 =
    Inr (?c0\<lparr>rc_sock := (rc_sock ?c0)\<lparr>sk_in := []\<rparr>, m_next_msg_type := t,
           rc_calls := rc_calls ?c0 @ map (\<lambda>m. CallPushMessage (from_client self m)) ms\<rparr>)" (is "_ = Inr ?c1")
    using receive_many [of ms ?c0 "[]" self] assms(1,2) by (auto simp: spinup_def rc_init_def)
  have "readPod32 (rc_sock ?c1) = (Inl (SystemError (sk_read_code sock)), rc_sock ?c1)"
    by (simp add: readPod32_def io_bind_def sock_read_def spinup_def rc_init_def)
  then have "\<exists>c. rc_steps self [Complete, Run, Run] ?c1 = Inr c \<and>
      rc_calls c = rc_calls ?c1 @ [CallRemoveClient] \<and> \<not> rc_live c \<and> rc_posted c = [] \<and> \<not> rc_reading c"
    using assms(3)
    by (simp add: complete_read_def spinup_def rc_init_def rc_readMsg_def disconnect_def deleteSelf_def)
  with many show ?thesis by (auto simp: rc_steps_append spinup_def rc_init_def)
qed

lemma connection_is_served_and_ends_witness:
  "\<exists>sock (c :: int remote_client). rc_steps 6 [Complete, Run, Complete, Run, Run] (spinup (rc_init sock)) = Inr c \<and>
    rc_calls c = [CallAddClient, CallPushMessage (ServerInputMsg 6 (Some 64)), CallRemoveClient] \<and> \<not> rc_live c"
proof -
  let ?ms = "[ServerInputMsg 1 (Some 64) :: int server_msg]"
  let ?sock = "\<lparr>sk_in = server_bytes (hd ?ms), sk_read_code = 2, sk_room = None, sk_write_code = 32, sk_out = []\<rparr>"
  show ?thesis using connection_is_served_and_ends [of ?ms ?sock 6] by (intro exI [of _ ?sock]) (simp del: rc_steps_simps, blast)
qed

section \<open>Broken connections\<close>

text \<open>
  C38: A client that sends the type code of an input message and then closes the connection inside the
  message takes the whole server down: the exception of the short read leaves \<open>readMsg\<close>, which nothing
  between it and \<open>main\<close> catches.
\<close>

theorem cut_message_escapes_the_service:
  assumes "sk_in sock = take n (server_bytes m)" and "server_sendable (m :: 'f server_msg)"
    and "4 \<le> n" and "n < length (server_bytes m)"
  shows "rc_steps self [Complete, Run] (spinup (rc_init sock) :: 'f remote_client) = Inl (SystemError (sk_read_code sock))"
proof -
  have split: "sk_in sock = pod32 (server_type m) @ take (n - 4) (server_payload m)"
    using assms(1,3) by (simp add: server_bytes_def)
  let ?s = "sock\<lparr>sk_in := take (n - 4) (server_payload m)\<rparr>"
  have "truncation_fails (server_read (server_fresh self m)) (server_payload m)"
    using parses_server_read [OF assms(2)] by (simp add: parses_def)
  moreover have "n - 4 < length (server_payload m)"
    using assms(3,4) by (simp add: server_bytes_def)
  ultimately have "fst (server_read (server_fresh self m) ?s) = Inl (SystemError (sk_read_code sock))"
    by (simp add: truncation_fails_def)
  then obtain sk where "server_read (server_fresh self m) ?s = (Inl (SystemError (sk_read_code sock)), sk)"
    by (cases "server_read (server_fresh self m) ?s") simp
  with readPod32_code [OF split] show ?thesis
    by (simp add: complete_read_def spinup_def rc_init_def rc_readMsg_def server_create_type [OF assms(2)])
qed

theorem cut_message_escapes_the_service_witness:
  "\<exists>sock. length (sk_in sock) = 5 \<and>
    rc_steps 6 [Complete, Run] (spinup (rc_init sock) :: int remote_client) = Inl (SystemError 2)"
proof -
  let ?m = "ServerInputMsg 1 (Some 64) :: int server_msg"
  let ?sock = "\<lparr>sk_in = take 5 (server_bytes ?m), sk_read_code = 2, sk_room = None, sk_write_code = 32, sk_out = []\<rparr>"
  have len: "length (server_bytes ?m) = 6" by (simp add: server_bytes_def)
  then show ?thesis
    using cut_message_escapes_the_service [of ?sock 5 ?m 6] by (intro exI [of _ ?sock]) simp
qed

text \<open>
  A write that fails while the next type code is being waited for, which is always between two
  messages of the client, ends in a use of the deleted object: the failed write has the object deleted,
  its destruction cancels the pending read, and the service still runs the handler of that read.
\<close>

lemma failed_write_uses_deleted_client:
  assumes "client_sendable msg" and "sk_room (rc_sock c) = Some k" and "k < length (client_bytes msg)"
    and "rc_reading c" and "rc_posted c = []" and "\<not> m_marked_for_delete c" and "rc_live c"
  shows "rc_steps self [Post msg, Run, Run, Run] c = Inl UseAfterFree"
proof -
  have "client_send msg (rc_sock c) = sock_write (client_bytes msg) (rc_sock c)"
    using sends_client_send [OF assms(1)] by (simp add: sends_def)
  with assms show ?thesis
    by (simp add: rc_pushMessage_def rc_writeMsg_def sock_write_def disconnect_def deleteSelf_def)
qed

lemma failed_write_uses_deleted_client_witness:
  "rc_steps 6 [Post (ClientDelDrawableMsg 3), Run, Run, Run]
     (spinup (rc_init \<lparr>sk_in = [], sk_read_code = 2, sk_room = Some 7, sk_write_code = 32, sk_out = []\<rparr>)
       :: int remote_client) = Inl UseAfterFree"
  by (rule failed_write_uses_deleted_client [where k = 7])
    (simp_all add: spinup_def rc_init_def client_bytes_def)

section \<open>Every life of a connection\<close>

text \<open>The form of the calls on the server, and what the marks mean.\<close>

definition call_history :: "ptr \<Rightarrow> 'f remote_client \<Rightarrow> bool" where
  "call_history self c \<longleftrightarrow>
     (\<exists>ms. (\<forall>m \<in> set ms. server_sender m = self \<and> server_type m < SubsystemInternalStart) \<and>
       rc_calls c = [CallAddClient] @ map CallPushMessage ms @
         (if m_marked_for_delete c then [CallRemoveClient] else [])) \<and>
     (\<not> rc_live c \<longrightarrow> m_marked_for_delete c) \<and>
     (DeleteSelf \<in> set (rc_posted c) \<longrightarrow> m_marked_for_delete c)"

lemma history_frame:
  assumes "call_history self c" and "rc_calls c' = rc_calls c" and "m_marked_for_delete c' = m_marked_for_delete c"
    and "\<not> rc_live c' \<longrightarrow> \<not> rc_live c \<or> DeleteSelf \<in> set (rc_posted c)"
    and "DeleteSelf \<in> set (rc_posted c') \<longrightarrow> DeleteSelf \<in> set (rc_posted c)"
  shows "call_history self c'"
  using assms unfolding call_history_def by auto

lemma history_disconnect:
  assumes "call_history self c" and "\<not> m_marked_for_delete c"
  shows "call_history self (disconnect c)"
  using assms by (auto simp: call_history_def disconnect_def)

lemma history_push:
  assumes "call_history self c" and "\<not> m_marked_for_delete c"
    and "server_sender m = self" and "server_type m < SubsystemInternalStart"
    and "c' = c\<lparr>rc_sock := sk, rc_calls := rc_calls c @ [CallPushMessage m], rc_reading := True\<rparr>"
  shows "call_history self c'"
proof -
  obtain ms where ms: "\<forall>m \<in> set ms. server_sender m = self \<and> server_type m < SubsystemInternalStart"
    "rc_calls c = [CallAddClient] @ map CallPushMessage ms"
    using assms(1,2) by (auto simp: call_history_def)
  then have "rc_calls c' = [CallAddClient] @ map CallPushMessage (ms @ [m])" by (simp add: assms(5))
  moreover have "\<forall>x \<in> set (ms @ [m]). server_sender x = self \<and> server_type x < SubsystemInternalStart"
    using ms(1) assms(3,4) by simp
  moreover have "\<not> m_marked_for_delete c'" "rc_live c'" "DeleteSelf \<notin> set (rc_posted c')"
    using assms(1,2) by (auto simp: call_history_def assms(5))
  ultimately show ?thesis
    unfolding call_history_def by (intro conjI exI [of _ "ms @ [m]"]) simp_all
qed

lemma history_handle:
  assumes "call_history self c" and "rc_handle self h c = Inr c'"
    and "h = DeleteSelf \<longrightarrow> m_marked_for_delete c"
  shows "call_history self c'"
proof (cases h)
  case (WriteMsg msg)
  obtain r sk where send: "client_send msg (rc_sock c) = (r, sk)" by (cases "client_send msg (rc_sock c)")
  have sk: "call_history self (c\<lparr>rc_sock := sk\<rparr>)" by (rule history_frame [OF assms(1)]) auto
  show ?thesis
  proof (cases r)
    case (Inl e)
    with WriteMsg send assms(2) have "c' = (if m_marked_for_delete c then c\<lparr>rc_sock := sk\<rparr> else disconnect (c\<lparr>rc_sock := sk\<rparr>))"
      by (cases e) (auto simp: rc_writeMsg_def)
    then show ?thesis using sk history_disconnect [OF sk] by auto
  next
    case (Inr u)
    with WriteMsg send assms(2) sk show ?thesis by (auto simp: rc_writeMsg_def)
  qed
next
  case (ReadMsg err)
  show ?thesis
  proof (cases "m_marked_for_delete c \<or> err \<noteq> 0 \<or> server_create (m_next_msg_type c) self = (None :: 'a server_msg option)")
    case True
    with ReadMsg assms history_disconnect [OF assms(1)] show ?thesis
      by (auto simp: rc_readMsg_def split: if_splits)
  next
    case False
    then obtain m0 where m0: "server_create (m_next_msg_type c) self = Some (m0 :: 'a server_msg)" by auto
    with False ReadMsg assms(2) obtain m sk where m: "server_read m0 (rc_sock c) = (Inr m, sk)"
      "c' = c\<lparr>rc_sock := sk, rc_calls := rc_calls c @ [CallPushMessage m], rc_reading := True\<rparr>"
      by (auto simp: rc_readMsg_def split: prod.splits sum.splits)
    have "server_sender m0 = self" "server_type m0 < SubsystemInternalStart"
      using server_create_public [OF m0] by (auto simp: server_codes)
    from server_read_public [OF this m(1)] \<open>server_type m0 < SubsystemInternalStart\<close>
    show ?thesis using history_push [OF assms(1) _ _ _ m(2)] False by simp
  qed
next
  case DeleteSelf
  with assms show ?thesis by (auto simp: deleteSelf_def call_history_def)
qed

lemma history_step:
  assumes "call_history self c" and "rc_step self e c = Inr c'"
  shows "call_history self c'"
proof (cases e)
  case (Post msg)
  with assms have "c' = rc_pushMessage msg c" by (auto split: if_splits)
  with history_frame [OF assms(1), of c'] show ?thesis by (simp add: rc_pushMessage_def)
next
  case Close
  with assms have "c' = close_socket c" by (auto split: if_splits)
  with history_frame [OF assms(1), of c'] show ?thesis by (auto simp: close_socket_def)
next
  case Complete
  with assms have "c' = complete_read c" by simp
  with history_frame [OF assms(1), of c'] show ?thesis
    by (auto simp: complete_read_def split: prod.splits sum.splits if_splits)
next
  case Run
  show ?thesis
  proof (cases "rc_posted c")
    case Nil
    with Run assms show ?thesis by simp
  next
    case (Cons h hs)
    with Run assms(2) have run: "rc_handle self h (c\<lparr>rc_posted := hs\<rparr>) = Inr c'" by (auto split: if_splits)
    have "call_history self (c\<lparr>rc_posted := hs\<rparr>)"
      by (rule history_frame [OF assms(1)]) (auto simp: Cons)
    moreover have "h = DeleteSelf \<longrightarrow> m_marked_for_delete (c\<lparr>rc_posted := hs\<rparr>)"
      using assms(1) by (auto simp: call_history_def Cons)
    ultimately show ?thesis using history_handle [OF _ run] by blast
  qed
qed

text \<open>
  Whatever the peer, the network and the server do, in any order, the game server hears of a client
  in a fixed form: it is added first, then come messages of this client and of the public kinds, and its
  removal comes last and at most once; exactly the removed clients are marked, and only marked ones are
  deleted.
\<close>

lemma server_hears_add_messages_remove:
  assumes "rc_steps self es (spinup (rc_init sock)) = Inr c"
  shows "(\<exists>ms. (\<forall>m \<in> set ms. server_sender m = self \<and> server_type m < SubsystemInternalStart) \<and>
      rc_calls c = [CallAddClient] @ map CallPushMessage ms @
        (if m_marked_for_delete c then [CallRemoveClient] else [])) \<and>
    (\<not> rc_live c \<longrightarrow> m_marked_for_delete c)"
proof -
  have "call_history self (spinup (rc_init sock))"
    by (auto simp: call_history_def spinup_def rc_init_def)
  with assms have "call_history self c"
    unfolding rc_steps_def by (rule fold_res_invariant) (rule history_step)
  then show ?thesis by (simp add: call_history_def)
qed

lemma server_hears_add_messages_remove_witness:
  "\<exists>sock (c :: int remote_client). rc_steps 6 [Complete, Run, Run] (spinup (rc_init sock)) = Inr c \<and>
    m_marked_for_delete c \<and> (\<exists>ms. rc_calls c = [CallAddClient] @ map CallPushMessage ms @ [CallRemoveClient])"
proof -
  let ?sock = "\<lparr>sk_in = [1], sk_read_code = 2, sk_room = None, sk_write_code = 32, sk_out = []\<rparr>"
  obtain c :: "int remote_client" where c: "rc_steps 6 [Complete, Run, Run] (spinup (rc_init ?sock)) = Inr c"
    and marked: "m_marked_for_delete c"
    by (simp add: complete_read_def readPod32_def io_bind_def sock_read_def spinup_def rc_init_def
        rc_readMsg_def disconnect_def deleteSelf_def)
  from server_hears_add_messages_remove [OF c] marked c show ?thesis
    by (intro exI [of _ ?sock] exI [of _ c]) auto
qed

section \<open>When the object is safe\<close>

text \<open>The conditions: no write fails, and the server neither writes to a removed client nor closes it.\<close>

fun rc_calm :: "rc_event \<Rightarrow> 'f remote_client \<Rightarrow> bool" where
  "rc_calm (Post _) c = (\<not> m_marked_for_delete c)"
| "rc_calm Close c = False"
| "rc_calm _ c = True"

fun rc_calm_run :: "ptr \<Rightarrow> rc_event list \<Rightarrow> 'f remote_client \<Rightarrow> bool" where
  "rc_calm_run self [] c = True"
| "rc_calm_run self (e # es) c =
     (rc_calm e c \<and> (case rc_step self e c of Inl _ \<Rightarrow> True | Inr c' \<Rightarrow> rc_calm_run self es c'))"

fun is_read :: "handler \<Rightarrow> bool" where
  "is_read (ReadMsg _) = True"
| "is_read _ = False"

definition rc_shape :: "'f remote_client \<Rightarrow> bool" where
  "rc_shape c \<longleftrightarrow> sk_room (rc_sock c) = None \<and>
     (if m_marked_for_delete c
      then \<not> rc_reading c \<and>
        (if rc_live c then \<exists>ws. rc_posted c = map WriteMsg ws @ [DeleteSelf] else rc_posted c = [])
      else rc_live c \<and> DeleteSelf \<notin> set (rc_posted c) \<and>
        length (filter is_read (rc_posted c)) + (if rc_reading c then 1 else 0) \<le> 1)"

text \<open>On a connection that accepts every byte, an operation throws only what is in \<open>E\<close> and stays on such a connection.\<close>

definition quiet :: "fault set \<Rightarrow> 'a io \<Rightarrow> bool" where
  "quiet E m \<longleftrightarrow>
     (\<forall>s. sk_room s = None \<longrightarrow> sk_room (snd (m s)) = None \<and> (\<forall>e. fst (m s) = Inl e \<longrightarrow> e \<in> E))"

lemma quiet_bind: "quiet E m \<Longrightarrow> (\<And>x. quiet E (f x)) \<Longrightarrow> quiet E (io_bind m f)"
  unfolding quiet_def io_bind_def by (auto split: prod.splits sum.splits) (metis fst_conv snd_conv)+

lemma quiet_simps:
  "quiet E (io_return x)" "e \<in> E \<Longrightarrow> quiet E (io_throw e)" "quiet E (sock_write bs)"
  "range SystemError \<subseteq> E \<Longrightarrow> quiet E (sock_read n)"
  by (auto simp: quiet_def io_return_def io_throw_def sock_write_def sock_read_def)

lemma quiet_client_send: "quiet {Indeterminate} (client_send m)"
proof -
  have "quiet {Indeterminate} (write_transform t)" for t
    by (cases t) (simp_all add: quiet_simps)
  then show ?thesis
    by (cases m) (auto simp: client_send_def writePod32_def writeString_def add_object_write_def
        trans_object_write_def Let_def intro!: quiet_bind quiet_simps)
qed

lemma quiet_server_read: "quiet (UNIV - {UseAfterFree}) (server_read m)"
  by (cases m) (auto simp: readPod16_def readPod32_def readString_def intro!: quiet_bind quiet_simps)

lemma quietD: "quiet E m \<Longrightarrow> sk_room s = None \<Longrightarrow> m s = (r, s') \<Longrightarrow> sk_room s' = None \<and> (\<forall>e. r = Inl e \<longrightarrow> e \<in> E)"
  unfolding quiet_def by (metis fst_conv snd_conv)

lemma writes_if_no_reads:
  "\<forall>h \<in> set hs. h \<noteq> DeleteSelf \<and> \<not> is_read h \<Longrightarrow> \<exists>ws. hs = map WriteMsg ws"
proof (induction hs)
  case (Cons h hs)
  then obtain ws where "hs = map WriteMsg ws" by auto
  moreover obtain w where "h = WriteMsg w" using Cons.prems by (cases h) auto
  ultimately have "h # hs = map WriteMsg (w # ws)" by simp
  then show ?case ..
qed simp

lemma shape_handle:
  assumes shape: "rc_shape c" and c: "rc_posted c = h # hs"
  shows "rc_handle self h (c\<lparr>rc_posted := hs\<rparr>) \<noteq> Inl UseAfterFree \<and> rc_live c \<and>
    (\<forall>c'. rc_handle self h (c\<lparr>rc_posted := hs\<rparr>) = Inr c' \<longrightarrow> rc_shape c')"
proof -
  have room: "sk_room (rc_sock c) = None" and live: "rc_live c"
    using shape c by (auto simp: rc_shape_def split: if_splits)
  show ?thesis
  proof (cases h)
    case (WriteMsg msg)
    obtain r sk where send: "client_send msg (rc_sock c) = (r, sk)" by (cases "client_send msg (rc_sock c)")
    note q = quietD [OF quiet_client_send room send]
    have "rc_shape (c\<lparr>rc_posted := hs, rc_sock := sk\<rparr>)"
      using shape c q WriteMsg by (auto simp: rc_shape_def Cons_eq_map_conv Cons_eq_append_conv)
    then show ?thesis using WriteMsg send q live by (cases r) (auto simp: rc_writeMsg_def)
  next
    case (ReadMsg err)
    have unmarked: "\<not> m_marked_for_delete c"
    proof
      assume "m_marked_for_delete c"
      with shape live c ReadMsg obtain ws where "ReadMsg err # hs = map WriteMsg ws @ [DeleteSelf]"
        by (auto simp: rc_shape_def)
      then show False by (cases ws) auto
    qed
    with shape c ReadMsg have hs: "\<not> rc_reading c" "\<forall>h \<in> set hs. h \<noteq> DeleteSelf \<and> \<not> is_read h"
      by (auto simp: rc_shape_def filter_empty_conv split: if_splits)
    from writes_if_no_reads [OF hs(2)] have gone: "rc_shape (disconnect (c\<lparr>rc_posted := hs\<rparr>))"
      using room live hs(1) by (auto simp: rc_shape_def disconnect_def)
    show ?thesis
    proof (cases "err \<noteq> 0 \<or> server_create (m_next_msg_type c) self = (None :: 'a server_msg option)")
      case True
      with gone unmarked ReadMsg live show ?thesis by (auto simp: rc_readMsg_def)
    next
      case False
      then obtain m0 where m0: "server_create (m_next_msg_type c) self = Some (m0 :: 'a server_msg)" by auto
      obtain r sk where read: "server_read m0 (rc_sock c) = (r, sk)" by (cases "server_read m0 (rc_sock c)")
      note q = quietD [OF quiet_server_read room read]
      have "rc_shape (c\<lparr>rc_posted := hs, rc_sock := sk, rc_calls := x, rc_reading := True\<rparr>)" for x
        using q hs unmarked live by (auto simp: rc_shape_def filter_empty_conv)
      with False ReadMsg unmarked m0 read q live show ?thesis by (cases r) (auto simp: rc_readMsg_def)
    qed
  next
    case DeleteSelf
    with shape c have "m_marked_for_delete c" by (auto simp: rc_shape_def split: if_splits)
    with shape live c DeleteSelf obtain ws where "DeleteSelf # hs = map WriteMsg ws @ [DeleteSelf]" "\<not> rc_reading c"
      by (auto simp: rc_shape_def)
    then have "hs = []" "\<not> rc_reading c" by (cases ws; auto)+
    with DeleteSelf \<open>m_marked_for_delete c\<close> room live show ?thesis by (auto simp: rc_shape_def deleteSelf_def)
  qed
qed

lemma shape_step:
  assumes shape: "rc_shape c" and calm: "rc_calm e c"
  shows "rc_step self e c \<noteq> Inl UseAfterFree \<and> (\<forall>c'. rc_step self e c = Inr c' \<longrightarrow> rc_shape c')"
proof (cases e)
  case (Post msg)
  with calm have "\<not> m_marked_for_delete c" by simp
  with shape Post show ?thesis by (auto simp: rc_shape_def rc_pushMessage_def)
next
  case Close
  with calm show ?thesis by simp
next
  case Complete
  obtain r sk where read: "readPod32 (rc_sock c) = (r, sk)" by (cases "readPod32 (rc_sock c)")
  have "sk_room sk = None" if "sk_room (rc_sock c) = None"
    using that read by (auto simp: readPod32_def io_bind_def io_return_def sock_read_def split: if_splits)
  with shape read have "rc_shape (complete_read c)"
    by (cases r) (auto simp: complete_read_def rc_shape_def split: if_splits)
  with Complete show ?thesis by simp
next
  case Run
  show ?thesis
  proof (cases "rc_posted c")
    case Nil
    with Run shape show ?thesis by simp
  next
    case (Cons h hs)
    with Run shape_handle [OF shape Cons, of self] show ?thesis by simp
  qed
qed

text \<open>
  The object is never used after its deletion, and never deleted twice, as long as its writes succeed
  and the server, once told to remove the client, neither writes to it nor closes it: whatever is
  received, and whenever the peer closes the connection, all handlers still waiting run before the one
  that deletes.
\<close>

lemma client_object_safe_while_writes_succeed:
  assumes "sk_room sock = None" and "rc_calm_run self es (spinup (rc_init sock) :: 'f remote_client)"
  shows "rc_steps self es (spinup (rc_init sock) :: 'f remote_client) \<noteq> Inl UseAfterFree"
proof -
  have safe: "rc_shape c \<Longrightarrow> rc_calm_run self es c \<Longrightarrow> rc_steps self es c \<noteq> Inl UseAfterFree" for c :: "'f remote_client"
  proof (induction es arbitrary: c)
    case (Cons e es)
    with shape_step [of c e self] show ?case by (cases "rc_step self e c") auto
  qed simp
  have "rc_shape (spinup (rc_init sock) :: 'f remote_client)"
    using assms(1) by (simp add: rc_shape_def spinup_def rc_init_def)
  from safe [OF this assms(2)] show ?thesis .
qed

lemma client_object_safe_while_writes_succeed_witness:
  "\<exists>sock. rc_steps 6 [Post (ClientDelDrawableMsg 3), Complete, Run, Run, Run]
      (spinup (rc_init sock) :: int remote_client) \<noteq> Inl UseAfterFree"
proof -
  let ?sock = "\<lparr>sk_in = [1], sk_read_code = 2, sk_room = None, sk_write_code = 32, sk_out = []\<rparr>"
  have calm: "rc_calm_run 6 [Post (ClientDelDrawableMsg 3), Complete, Run, Run, Run]
      (spinup (rc_init ?sock) :: int remote_client)"
    by (simp add: complete_read_def readPod32_def io_bind_def sock_read_def spinup_def rc_init_def
        rc_readMsg_def rc_writeMsg_def rc_pushMessage_def client_send_def writePod32_def sock_write_def
        disconnect_def deleteSelf_def)
  have "sk_room ?sock = None" by simp
  from client_object_safe_while_writes_succeed [OF this calm] show ?thesis by (rule exI)
qed

section \<open>The listening server\<close>

text \<open>
  Every connection accepted before the first failing accept gets the client object made for it, in
  order, and each object serves one connection; the first failure ends the accepting for good: no later
  connection is served.
\<close>

lemma listening_stops_at_first_error:
  assumes "\<forall>e \<in> set oks. fst e = 0" and "err \<noteq> 0"
  shows "fold accept_completes (oks @ (err, p) # later) (listen_init p0) =
    \<lparr>m_next_client = last (p0 # map snd oks), ls_spun = butlast (p0 # map snd oks), ls_accepting = False\<rparr>"
proof -
  have ok: "ls_accepting l \<Longrightarrow> fold accept_completes oks l =
      \<lparr>m_next_client = last (m_next_client l # map snd oks),
       ls_spun = ls_spun l @ butlast (m_next_client l # map snd oks), ls_accepting = True\<rparr>" for l
    using assms(1)
  proof (induction oks arbitrary: l)
    case (Cons e oks)
    let ?l = "\<lparr>m_next_client = snd e, ls_spun = ls_spun l @ [m_next_client l], ls_accepting = True\<rparr>"
    from Cons.prems have "accept_completes e l = ?l" by (simp add: accept_completes_def handleAccept_def)
    with Cons.IH [of ?l] Cons.prems(2) show ?case by simp
  qed simp
  have stopped: "\<not> ls_accepting l \<Longrightarrow> fold accept_completes later l = l" for l
    by (induction later) (auto simp: accept_completes_def)
  show ?thesis
    using ok [of "listen_init p0"] assms(2) stopped
    by (simp add: listen_init_def accept_completes_def handleAccept_def)
qed

lemma listening_stops_at_first_error_witness:
  "ls_spun (fold accept_completes [(0, 8), (24, 9), (0, 10)] (listen_init 7)) = [7]"
  using listening_stops_at_first_error [of "[(0, 8)]" 24 9 "[(0, 10)]" 7] by simp

end
