(* ===== verification/WorldLoading.thy ===== *)
theory WorldLoading
  imports ServerProperties Complex_Main
begin

text \<open>
  The loading of the world: \<open>core/util/xml_helpers.hpp\<close> and \<open>LocalServer::loadWorld\<close> and
  \<open>loadMobGroup\<close>, over the document tree that the bundled \<open>rapidxml\<close> builds and the queries on it the code
  uses. The parser itself is a parameter. Numbers are read exactly and then rounded by a parameter, so
  that the definitions stand for \<open>float\<close>; theorems about exact positions instantiate the scalar type with
  an ordered field.
\<close>

section \<open>The document tree\<close>

text \<open>
  A node with its name, its value and its children. The text of an element is its value and also the
  value of a child with an empty name.
\<close>

datatype xml_node = XmlNode (node_name: string) (node_value: string) (node_children: "xml_node list")

definition first_node :: "string \<Rightarrow> xml_node \<Rightarrow> xml_node option" where
  "first_node name n = find (\<lambda>c. node_name c = name) (node_children n)"

text \<open>The first node of the name with every node \<open>next_sibling()\<close> leads to from there.\<close>

definition nodes_from :: "string \<Rightarrow> xml_node \<Rightarrow> xml_node list" where
  "nodes_from name n = dropWhile (\<lambda>c. node_name c \<noteq> name) (node_children n)"

text \<open>\<open>node->first_node(name)\<close> for a pointer that may be null, and \<open>node->first_node(name)->value()\<close>.\<close>

definition child :: "string \<Rightarrow> xml_node option \<Rightarrow> fault + xml_node option" where
  "child name p = res_bind (deref p) (\<lambda>n. Inr (first_node name n))"

definition child_text :: "string \<Rightarrow> xml_node option \<Rightarrow> fault + string" where
  "child_text name p = res_bind (child name p) (\<lambda>c. res_bind (deref c) (\<lambda>n. Inr (node_value n)))"

section \<open>Numbers\<close>

definition isspace :: "char \<Rightarrow> bool" where
  "isspace c \<longleftrightarrow> of_char c \<in> {9, 10, 11, 12, 13, 32 :: nat}"

definition isdigit :: "char \<Rightarrow> bool" where
  "isdigit c \<longleftrightarrow> 48 \<le> (of_char c :: nat) \<and> (of_char c :: nat) \<le> 57"

definition digits_value :: "string \<Rightarrow> nat" where
  "digits_value ds = foldl (\<lambda>n c. 10 * n + (of_char c - 48)) 0 ds"

text \<open>White space and an optional sign; whether the sign is a minus, and the rest.\<close>

definition strip_sign :: "string \<Rightarrow> bool \<times> string" where
  "strip_sign s =
     (case dropWhile isspace s of
        [] \<Rightarrow> (False, [])
      | c # cs \<Rightarrow> if c = CHR ''-'' then (True, cs) else if c = CHR ''+'' then (False, cs) else (False, c # cs))"

text \<open>\<open>atoi\<close>: the value of the longest prefix that is a number, undefined where it does not fit an \<open>int\<close>.\<close>

definition atoi :: "string \<Rightarrow> fault + int" where
  "atoi s =
     (let (neg, cs) = strip_sign s;
          n = int (digits_value (takeWhile isdigit cs));
          n = (if neg then - n else n)
      in if - (2 ^ 31) \<le> n \<and> n < 2 ^ 31 then Inr n else Inl Indeterminate)"

text \<open>
  \<open>atof\<close> on decimal numbers, before rounding: digits with an optional fraction, and an exponent if one is
  complete. Text without digits gives 0; the hexadecimal form, infinities and NaNs that newer C libraries
  also read are left out, and the sign of a zero is not kept.
\<close>

definition exponent_part :: "string \<Rightarrow> int" where
  "exponent_part s =
     (case s of
        [] \<Rightarrow> 0
      | c # cs \<Rightarrow>
          if c = CHR ''e'' \<or> c = CHR ''E'' then
            let (neg, ds) =
                  (case cs of
                     [] \<Rightarrow> (False, [])
                   | d # ds \<Rightarrow> if d = CHR ''-'' then (True, ds) else if d = CHR ''+'' then (False, ds) else (False, cs));
                n = int (digits_value (takeWhile isdigit ds))
            in if neg then - n else n
          else 0)"

definition scale10 :: "rat \<Rightarrow> int \<Rightarrow> rat" where
  "scale10 q e = (if 0 \<le> e then q * 10 ^ nat e else q / 10 ^ nat (- e))"

definition atof :: "string \<Rightarrow> rat" where
  "atof s =
     (let (neg, cs) = strip_sign s;
          ip = takeWhile isdigit cs;
          rest = dropWhile isdigit cs;
          (fp, rest) =
            (case rest of
               [] \<Rightarrow> ([], [])
             | c # ds \<Rightarrow> if c = CHR ''.'' then (takeWhile isdigit ds, dropWhile isdigit ds) else ([], rest));
          q = (if ip @ fp = [] then 0
               else scale10 (of_nat (digits_value (ip @ fp))) (exponent_part rest - int (length fp)))
      in if neg then - q else q)"

text \<open>The conversions to \<open>float\<close>: of what \<open>atof\<close> reads, and of an \<open>int\<close>.\<close>

record 'f float_conv =
  of_decimal :: "rat \<Rightarrow> 'f"
  of_integer :: "int \<Rightarrow> 'f"

definition exact :: "'f::field_char_0 float_conv" where
  "exact = \<lparr>of_decimal = of_rat, of_integer = of_int\<rparr>"

definition child_float :: "'f float_conv \<Rightarrow> string \<Rightarrow> xml_node option \<Rightarrow> fault + 'f" where
  "child_float F name p = res_bind (child_text name p) (\<lambda>t. Inr (of_decimal F (atof t)))"

definition child_int :: "string \<Rightarrow> xml_node option \<Rightarrow> fault + int" where
  "child_int name p = res_bind (child_text name p) atoi"

section \<open>Transforms\<close>

text \<open>The four reads and the constructor call shared by \<open>parseTransform\<close> and \<open>parseQuaternion\<close>.\<close>

definition read_quat :: "'f float_conv \<Rightarrow> xml_node option \<Rightarrow> fault + 'f quat" where
  "read_quat F p =
     res_bind (child_float F ''X'' p) (\<lambda>x.
     res_bind (child_float F ''Y'' p) (\<lambda>y.
     res_bind (child_float F ''Z'' p) (\<lambda>z.
     res_bind (child_float F ''W'' p) (\<lambda>w. Inr (quat_of_wxyz x y z w)))))"

definition read_position :: "'f float_conv \<Rightarrow> xml_node option \<Rightarrow> fault + 'f vec3" where
  "read_position F p =
     res_bind (child_float F ''X'' p) (\<lambda>x.
     res_bind (child_float F ''Y'' p) (\<lambda>y.
     res_bind (child_float F ''Z'' p) (\<lambda>z. Inr (Vec3 x y z))))"

definition parseTransform ::
    "'f::{zero,one,plus,minus,times} float_conv \<Rightarrow> xml_node option \<Rightarrow> fault + 'f mat4" where
  "parseTransform F p =
     (case p of
        None \<Rightarrow> Inr mat4_identity
      | Some node \<Rightarrow>
          let pos = first_node ''Position'' node; quat = first_node ''Quaternion'' node in
          res_bind
            (case pos of
               None \<Rightarrow> Inr mat4_identity
             | Some _ \<Rightarrow> res_bind (read_position F pos) (\<lambda>v. Inr (translate mat4_identity v)))
            (\<lambda>trans.
              case quat of
                None \<Rightarrow> Inr trans
              | Some _ \<Rightarrow> res_bind (read_quat F quat) (\<lambda>q. Inr (mat4_mul trans (mat4_cast q)))))"

definition parseQuaternion :: "'f::{zero,one} float_conv \<Rightarrow> xml_node option \<Rightarrow> fault + 'f quat" where
  "parseQuaternion F p = (case p of None \<Rightarrow> Inr quat_default | Some _ \<Rightarrow> read_quat F p)"

section \<open>The grid of mobs\<close>

text \<open>What \<open>loadMobGroup\<close> reads before its loops.\<close>

record 'f mob_group =
  mg_templ :: string
  mg_quat :: "'f quat"
  mg_height :: 'f
  mg_xmin :: 'f
  mg_ymin :: 'f
  mg_xdelta :: 'f
  mg_ydelta :: 'f
  mg_xdiv :: int
  mg_ydiv :: int

text \<open>\<open>n - 1\<close> on \<open>int\<close>.\<close>

definition int_pred :: "int \<Rightarrow> fault + int" where
  "int_pred n = (if n = - (2 ^ 31) then Inl Indeterminate else Inr (n - 1))"

definition read_mob_group ::
    "'f::{zero,one,minus,inverse} float_conv \<Rightarrow> xml_node option \<Rightarrow> fault + 'f mob_group" where
  "read_mob_group F node =
     res_bind (child_text ''Template'' node) (\<lambda>templ.
     res_bind (child ''Quaternion'' node) (\<lambda>qnode.
     res_bind (parseQuaternion F qnode) (\<lambda>quat.
     res_bind (child_float F ''Height'' node) (\<lambda>height.
     res_bind (child ''Grid'' node) (\<lambda>grid_node.
     res_bind (child_float F ''xmin'' grid_node) (\<lambda>xmin.
     res_bind (child_float F ''xmax'' grid_node) (\<lambda>xmax.
     res_bind (child_float F ''ymin'' grid_node) (\<lambda>ymin.
     res_bind (child_float F ''ymax'' grid_node) (\<lambda>ymax.
     res_bind (child_int ''xdiv'' grid_node) (\<lambda>xdiv.
     res_bind (child_int ''ydiv'' grid_node) (\<lambda>ydiv.
     res_bind (int_pred xdiv) (\<lambda>xgaps.
     res_bind (int_pred ydiv) (\<lambda>ygaps.
     Inr \<lparr>mg_templ = templ, mg_quat = quat, mg_height = height, mg_xmin = xmin, mg_ymin = ymin,
          mg_xdelta = (xmax - xmin) / of_integer F xgaps, mg_ydelta = (ymax - ymin) / of_integer F ygaps,
          mg_xdiv = xdiv, mg_ydiv = ydiv\<rparr>)))))))))))))"

text \<open>
  \<open>for(float x = xmin, i = 0; i < n; ++i, x += delta) body(x)\<close>. The counter is a \<open>float\<close>, so the loop
  need not end; \<open>None\<close> stands for that.
\<close>

partial_function (option) count_loop ::
    "'f::{one,plus,ord} \<Rightarrow> 'f \<Rightarrow> ('f \<Rightarrow> 's \<Rightarrow> 's option) \<Rightarrow> 'f \<Rightarrow> 'f \<Rightarrow> 's \<Rightarrow> 's option" where
  [code]: "count_loop n delta body i x s =
     (if i < n then Option.bind (body x s) (count_loop n delta body (i + 1) (x + delta)) else Some s)"

text \<open>The body of the inner loop.\<close>

definition place_baddie ::
    "'f::{zero,one,plus,minus,times} mob_group \<Rightarrow> 'f \<Rightarrow> 'f \<Rightarrow> ('f, 'w) server \<Rightarrow> ('f, 'w) server" where
  "place_baddie g x y s =
     (let (i, s) = getNextIdentifier s;
          trans = mat4_mul (translate mat4_identity (Vec3 x y (mg_height g))) (mat4_cast (mg_quat g));
          s = s\<lparr>m_physics := addPhysical i (mg_templ g) (value_ptr trans) True (m_physics s)\<rparr>
      in s\<lparr>m_baddies := m_baddies s @ [(mg_templ g, i)]\<rparr>)"

definition place_mobs ::
    "'f::{zero,one,plus,minus,times,ord} float_conv \<Rightarrow> 'f mob_group \<Rightarrow> ('f, 'w) server \<Rightarrow>
      ('f, 'w) server option" where
  "place_mobs F g s =
     count_loop (of_integer F (mg_xdiv g)) (mg_xdelta g)
       (\<lambda>x. count_loop (of_integer F (mg_ydiv g)) (mg_ydelta g) (\<lambda>y s. Some (place_baddie g x y s))
          0 (mg_ymin g))
       0 (mg_xmin g) s"

definition loadMobGroup ::
    "'f::{zero,one,plus,minus,times,inverse,ord} float_conv \<Rightarrow> xml_node option \<Rightarrow> ('f, 'w) server \<Rightarrow>
      (fault + ('f, 'w) server) option" where
  "loadMobGroup F node s =
     (case read_mob_group F node of
        Inl e \<Rightarrow> Some (Inl e)
      | Inr g \<Rightarrow> map_option Inr (place_mobs F g s))"

section \<open>The world\<close>

definition load_blocker ::
    "'f::{zero,one,plus,minus,times} float_conv \<Rightarrow> xml_node \<Rightarrow> ('f, 'w) server \<Rightarrow> fault + ('f, 'w) server" where
  "load_blocker F node s =
     res_bind (child_text ''Template'' (Some node)) (\<lambda>templ.
     res_bind (parseTransform F (first_node ''Transform'' node)) (\<lambda>trans.
     let (i, s) = getNextIdentifier s in
     Inr (s\<lparr>m_physics := addPhysical i templ (value_ptr trans) False (m_physics s)\<rparr>)))"

definition load_spawn ::
    "'f::{zero,one,plus,minus,times} float_conv \<Rightarrow> xml_node \<Rightarrow> ('f, 'w) server \<Rightarrow> fault + ('f, 'w) server" where
  "load_spawn F world s =
     (case first_node ''PlayerSpawn'' world of
        None \<Rightarrow> Inr s
      | Some n \<Rightarrow> res_bind (parseTransform F (first_node ''Transform'' n)) (\<lambda>m. Inr (s\<lparr>m_player_spawn := m\<rparr>)))"

text \<open>\<open>loadWorld\<close> from the point where the document is parsed.\<close>

definition load_document ::
    "'f::{zero,one,plus,minus,times,inverse,ord} float_conv \<Rightarrow> xml_node \<Rightarrow> ('f, 'w) server \<Rightarrow>
      (fault + ('f, 'w) server) option" where
  "load_document F doc s =
     (case first_node ''QuintsesWorld'' doc of
        None \<Rightarrow> Some (Inr s)
      | Some world \<Rightarrow>
          (case load_spawn F world s of
             Inl e \<Rightarrow> Some (Inl e)
           | Inr s \<Rightarrow>
               map_option (\<lambda>r. res_bind r (fold_res (load_blocker F) (nodes_from ''Blocker'' world)))
                 (loadMobGroup F (first_node ''MobGroup'' world) s)))"

text \<open>
  \<open>std::copy\<close> from an \<open>istream_iterator<char>\<close>, which skips white space, to the start of a string: the
  characters overwrite those that are there, and the string does not grow.
\<close>

definition copy_to_begin :: "string \<Rightarrow> string \<Rightarrow> fault + string" where
  "copy_to_begin from to =
     (if length from \<le> length to then Inr (from @ drop (length from) to) else Inl OutOfBounds)"

text \<open>The whole of \<open>loadWorld\<close>; \<open>file\<close> is the content of \<open>data/world.xml\<close>, \<open>None\<close> if it cannot be opened.\<close>

definition loadWorld ::
    "(string \<Rightarrow> xml_node) \<Rightarrow> 'f::{zero,one,plus,minus,times,inverse,ord} float_conv \<Rightarrow> string option \<Rightarrow>
      ('f, 'w) server \<Rightarrow> (fault + ('f, 'w) server) option" where
  "loadWorld parse F file s =
     (case file of
        None \<Rightarrow> Some (Inr s)
      | Some text \<Rightarrow>
          (case copy_to_begin (filter (\<lambda>c. \<not> isspace c) text) '''' of
             Inl e \<Rightarrow> Some (Inl e)
           | Inr xml_data \<Rightarrow> load_document F (parse xml_data) s))"

end
