(* ===== verification/WorldProperties.thy ===== *)
theory WorldProperties
  imports WorldLoading
begin

text \<open>
  Properties of the loading of the world: where the grid puts its mobs, which identifiers they get, what
  clients hear of it, what the shipped \<open>data/world.xml\<close> describes, and the ways in which loading fails.
\<close>

section \<open>Counted loops\<close>

text \<open>
  Over an ordered field the counter is exact: the loop ends and runs its body at \<open>x\<close>, \<open>x + delta\<close>, \dots
  as often as the bound says.
\<close>

lemma count_loop_total:
  fixes x delta :: "'f::linordered_field"
  shows "count_loop (of_int n) delta (\<lambda>x s. Some (body x s)) (of_nat k) x s =
    Some (fold body (map (\<lambda>j. x + of_nat j * delta) [0..<nat n - k]) s)"
proof (induction "nat n - k" arbitrary: k x s)
  case 0
  then have "\<not> (of_nat k :: 'f) < of_int n"
    by (metis diff_is_0_eq nat_le_iff not_less of_int_le_iff of_int_of_nat_eq)
  then show ?case using 0 by (subst count_loop.simps) simp
next
  case (Suc m)
  then have less: "k < nat n" by simp
  then have "int k < n" by linarith
  then have lt: "(of_nat k :: 'f) < of_int n" by (metis of_int_less_iff of_int_of_nat_eq)
  have upt: "[0..<nat n - k] = 0 # map Suc [0..<nat n - Suc k]"
    using less by (metis Suc_diff_Suc map_Suc_upt upt_conv_Cons zero_less_Suc)
  have step: "(of_nat k :: 'f) + 1 = of_nat (Suc k)" by simp
  have "m = nat n - Suc k" using Suc.hyps(2) by simp
  from Suc.hyps(1) [OF this] show ?case
    by (subst count_loop.simps) (simp only: lt if_True bind.bind_lunit step, simp add: upt o_def algebra_simps)
qed

text \<open>A body that keeps an invariant keeps it through a loop that returns, whatever the scalars are.\<close>

lemma count_loop_invariant:
  assumes "count_loop n delta body i x s = Some t" and "I s"
    and keep: "\<And>x s s'. I s \<Longrightarrow> body x s = Some s' \<Longrightarrow> I s'"
  shows "I t"
proof -
  let ?P = "\<lambda>f. \<forall>i x s t. f n delta body i x s = Some t \<longrightarrow> I s \<longrightarrow> I t"
  let ?Q = "\<lambda>(((((n', d), b), i), x), s) t. n' = n \<and> d = delta \<and> b = body \<longrightarrow> I s \<longrightarrow> I t"
  have "?P count_loop"
  proof (rule count_loop.fixp_induct)
    show "option.admissible (\<lambda>f. ?P (curry (curry (curry (curry (curry f))))))"
      by (rule back_subst [of option.admissible, OF option_admissible [of ?Q]])
        (rule ext, auto simp: curry_def)
    show "?P (\<lambda>n delta body i x s. if i < n then Option.bind (body x s) (f n delta body (i + 1) (x + delta))
        else Some s)" if "?P f" for f
    proof (intro allI impI)
      fix i x s t
      assume run: "(if i < n then Option.bind (body x s) (f n delta body (i + 1) (x + delta)) else Some s) = Some t"
        and "I s"
      show "I t"
      proof (cases "i < n")
        case True
        with run obtain s' where "body x s = Some s'" and "f n delta body (i + 1) (x + delta) s' = Some t"
          by (auto simp: bind_eq_Some_conv)
        with that keep \<open>I s\<close> show ?thesis by blast
      qed (use run \<open>I s\<close> in simp)
    qed
  qed simp
  with assms(1,2) show ?thesis by blast
qed


section \<open>The grid\<close>

definition grid_columns :: "'f::{plus,times,semiring_1} mob_group \<Rightarrow> 'f list" where
  "grid_columns g = map (\<lambda>j. mg_xmin g + of_nat j * mg_xdelta g) [0..<nat (mg_xdiv g)]"

definition grid_rows :: "'f::{plus,times,semiring_1} mob_group \<Rightarrow> 'f list" where
  "grid_rows g = map (\<lambda>j. mg_ymin g + of_nat j * mg_ydelta g) [0..<nat (mg_ydiv g)]"

definition grid_points :: "'f::{plus,times,semiring_1} mob_group \<Rightarrow> ('f \<times> 'f) list" where
  "grid_points g = concat (map (\<lambda>x. map (Pair x) (grid_rows g)) (grid_columns g))"

definition mob_matrix :: "'f::{zero,one,plus,minus,times} mob_group \<Rightarrow> 'f \<times> 'f \<Rightarrow> 'f list" where
  "mob_matrix g p =
     value_ptr (mat4_mul (translate mat4_identity (Vec3 (fst p) (snd p) (mg_height g))) (mat4_cast (mg_quat g)))"

text \<open>The next \<open>n\<close> identifiers.\<close>

definition fresh_ids :: "('f, 'w) server \<Rightarrow> nat \<Rightarrow> oid list" where
  "fresh_ids s n = map (\<lambda>k. m_next_id s + of_nat k) [0..<n]"

lemma fresh_ids_Suc: "fresh_ids s (Suc n) = fresh_ids s n @ [m_next_id s + of_nat n]"
  by (simp add: fresh_ids_def)

lemma length_fresh_ids [simp]: "length (fresh_ids s n) = n"
  by (simp add: fresh_ids_def)

lemma fold_map_Pair_concat:
  "fold (\<lambda>p. f (fst p) (snd p)) (concat (map (\<lambda>x. map (Pair x) ys) xs)) s = fold (\<lambda>x. fold (f x) ys) xs s"
proof (induction xs arbitrary: s)
  case (Cons x xs)
  have "fold (\<lambda>p. f (fst p) (snd p)) (map (Pair x) ys) = fold (f x) ys"
    by (simp add: fold_map o_def)
  with Cons show ?case by simp
qed simp

lemma place_mobs_exact:
  "place_mobs exact (g :: 'f::linordered_field mob_group) s =
    Some (fold (\<lambda>p. place_baddie g (fst p) (snd p)) (grid_points g) s)"
proof -
  have loop: "count_loop (of_int n) delta (\<lambda>x s. Some (body x s)) 0 (x :: 'f) =
      (\<lambda>s. Some (fold body (map (\<lambda>j. x + of_nat j * delta) [0..<nat n]) s))" for n delta body x
    using count_loop_total [where k = 0] by fastforce
  show ?thesis
    unfolding place_mobs_def grid_points_def fold_map_Pair_concat grid_rows_def grid_columns_def
    by (simp add: exact_def loop)
qed

text \<open>The state after placing mobs at a list of points.\<close>

definition with_mobs :: "'f::{zero,one,plus,minus,times} mob_group \<Rightarrow> ('f \<times> 'f) list \<Rightarrow>
    ('f, 'w) server \<Rightarrow> ('f, 'w) server" where
  "with_mobs g ps s =
     s\<lparr>m_next_id := m_next_id s + of_nat (length ps),
       m_baddies := m_baddies s @ map (Pair (mg_templ g)) (fresh_ids s (length ps)),
       m_physics := (m_physics s)\<lparr>ph_queue :=
         rev (map2 (\<lambda>i p. AddCharObjMsg i (mg_templ g) (mob_matrix g p)) (fresh_ids s (length ps)) ps) @
         ph_queue (m_physics s)\<rparr>\<rparr>"

lemma place_baddie_with_mobs:
  "place_baddie g x y (with_mobs g ps s) = with_mobs g (ps @ [(x, y)]) s"
  by (simp add: place_baddie_def with_mobs_def getNextIdentifier_def Let_def fresh_ids_Suc mob_matrix_def
      physics_post_defs queue_push_def lockless_push_def)

lemma fold_place_baddie:
  "fold (\<lambda>p. place_baddie g (fst p) (snd p)) ps s = with_mobs g ps s"
proof (induction ps rule: rev_induct)
  case Nil
  show ?case by (simp add: with_mobs_def fresh_ids_def)
next
  case (snoc p ps)
  then show ?case by (simp add: place_baddie_with_mobs)
qed


section \<open>What loading leaves alone\<close>

text \<open>Loading touches the spawn matrix, the counter, the list of baddies and the physics queue.\<close>

definition same_clients :: "('f, 'w) server \<Rightarrow> ('f, 'w) server \<Rightarrow> bool" where
  "same_clients s t \<longleftrightarrow>
     m_clients t = m_clients s \<and> m_lobby_clients t = m_lobby_clients s \<and> m_ticks t = m_ticks s \<and>
     srv_live t = srv_live s \<and> srv_sent t = srv_sent s \<and> srv_closed t = srv_closed s \<and>
     ph_objects (m_physics t) = ph_objects (m_physics s) \<and>
     ph_characters (m_physics t) = ph_characters (m_physics s) \<and> ph_world (m_physics t) = ph_world (m_physics s)"

text \<open>\<open>k\<close> identifiers have gone to mobs of one template.\<close>

definition mobs_placed :: "string \<Rightarrow> nat \<Rightarrow> ('f, 'w) server \<Rightarrow> ('f, 'w) server \<Rightarrow> bool" where
  "mobs_placed templ k s t \<longleftrightarrow>
     same_clients s t \<and> m_player_spawn t = m_player_spawn s \<and>
     m_next_id t = m_next_id s + of_nat k \<and> m_baddies t = m_baddies s @ map (Pair templ) (fresh_ids s k)"

lemma mobs_placed_step:
  "mobs_placed (mg_templ g) k s t \<Longrightarrow> mobs_placed (mg_templ g) (Suc k) s (place_baddie g x y t)"
  by (simp add: mobs_placed_def same_clients_def place_baddie_def getNextIdentifier_def Let_def fresh_ids_Suc)

lemma place_mobs_placed:
  assumes "place_mobs F g s = Some t"
  shows "\<exists>k. mobs_placed (mg_templ g) k s t"
  using assms unfolding place_mobs_def
proof (rule count_loop_invariant)
  show "\<exists>k. mobs_placed (mg_templ g) k s s"
    by (rule exI [of _ 0]) (simp add: mobs_placed_def same_clients_def fresh_ids_def)
  fix x u u'
  assume inv: "\<exists>k. mobs_placed (mg_templ g) k s u"
    and run: "count_loop (of_integer F (mg_ydiv g)) (mg_ydelta g) (\<lambda>y s. Some (place_baddie g x y s)) 0 (mg_ymin g) u
      = Some u'"
  show "\<exists>k. mobs_placed (mg_templ g) k s u'"
    using run inv by (rule count_loop_invariant) (use mobs_placed_step in blast)
qed

lemma load_blockers_steps:
  assumes "fold_res (load_blocker F) ns s = Inr t"
  shows "same_clients s t \<and> m_player_spawn t = m_player_spawn s \<and> m_baddies t = m_baddies s \<and>
    m_next_id t = m_next_id s + of_nat (length ns)"
  using assms
proof (induction ns arbitrary: s)
  case (Cons n ns)
  then obtain u where u: "load_blocker F n s = Inr u" and rest: "fold_res (load_blocker F) ns u = Inr t"
    by (auto simp: res_bind_eq_Inr)
  from u have "same_clients s u \<and> m_player_spawn u = m_player_spawn s \<and> m_baddies u = m_baddies s \<and>
      m_next_id u = m_next_id s + 1"
    by (auto simp: load_blocker_def res_bind_eq_Inr getNextIdentifier_def same_clients_def)
  with Cons.IH [OF rest] show ?case by (simp add: same_clients_def)
qed (simp add: same_clients_def)

text \<open>A document that loads has allocated for its mobs and its blockers and told nobody.\<close>

lemma load_document_effect:
  assumes "load_document F doc s = Some (Inr t)"
  shows "\<exists>templ k n. same_clients s t \<and> m_baddies t = m_baddies s @ map (Pair templ) (fresh_ids s k) \<and>
    m_next_id t = m_next_id s + of_nat (k + n) \<and>
    n = (case first_node ''QuintsesWorld'' doc of None \<Rightarrow> 0 | Some w \<Rightarrow> length (nodes_from ''Blocker'' w))"
proof (cases "first_node ''QuintsesWorld'' doc")
  case None
  with assms show ?thesis
    by (intro exI [of _ "[]"] exI [of _ 0]) (simp add: load_document_def same_clients_def fresh_ids_def)
next
  case (Some w)
  with assms obtain u where u: "load_spawn F w s = Inr u"
    by (auto simp: load_document_def split: sum.splits)
  have spawn: "same_clients s u \<and> m_baddies u = m_baddies s \<and> m_next_id u = m_next_id s"
    using u by (auto simp: load_spawn_def res_bind_eq_Inr same_clients_def split: option.splits)
  from assms Some u obtain g v where g: "place_mobs F g u = Some v"
    and rest: "fold_res (load_blocker F) (nodes_from ''Blocker'' w) v = Inr t"
    by (auto simp: load_document_def loadMobGroup_def split: sum.splits)
  from place_mobs_placed [OF g] obtain k where "mobs_placed (mg_templ g) k u v" ..
  with spawn load_blockers_steps [OF rest] show ?thesis
    by (intro exI [of _ "mg_templ g"] exI [of _ k] exI [of _ "length (nodes_from ''Blocker'' w)"])
      (auto simp: mobs_placed_def same_clients_def fresh_ids_def Some)
qed

lemma ids_inv_loaded:
  assumes inv: "ids_inv s" and load: "load_document F doc s = Some (Inr t)"
    and room: "unat (m_next_id s) + length (m_baddies t) +
      (case first_node ''QuintsesWorld'' doc of None \<Rightarrow> 0 | Some w \<Rightarrow> length (nodes_from ''Blocker'' w)) < 2 ^ 32"
  shows "ids_inv t \<and> unat (m_next_id t) \<le> unat (m_next_id s) + length (m_baddies t) +
      (case first_node ''QuintsesWorld'' doc of None \<Rightarrow> 0 | Some w \<Rightarrow> length (nodes_from ''Blocker'' w))"
proof -
  obtain templ k n where same: "same_clients s t"
    and bad: "m_baddies t = m_baddies s @ map (Pair templ) (fresh_ids s k)"
    and nxt: "m_next_id t = m_next_id s + of_nat (k + n)"
    and n: "n = (case first_node ''QuintsesWorld'' doc of None \<Rightarrow> 0 | Some w \<Rightarrow> length (nodes_from ''Blocker'' w))"
    using load_document_effect [OF load] by blast
  have small: "unat (m_next_id s) + (k + n) < 2 ^ 32" using room bad n by simp
  have add: "unat (m_next_id s + of_nat j) = unat (m_next_id s) + j" if "j \<le> k + n" for j
  proof -
    have "j < 2 ^ 32" using that small by simp
    then have "unat (of_nat j :: u32) = j" by (simp add: unat_of_nat)
    with that small show ?thesis by (simp add: unat_word_ariths)
  qed
  note D = ids_invD [OF inv]
  have clients: "m_clients t = m_clients s" using same by (simp add: same_clients_def)
  have next_t: "unat (m_next_id t) = unat (m_next_id s) + (k + n)" unfolding nxt by (rule add) simp
  have fresh: "unat (m_next_id s) \<le> unat i \<and> unat i < unat (m_next_id s) + k" if "i \<in> set (fresh_ids s k)" for i
    using that add by (auto simp: fresh_ids_def)
  have "ids_inv t"
  proof (rule ids_invI)
    show "i \<noteq> 0 \<and> unat i < unat (m_next_id t)" if "(tm, i) \<in> set (m_baddies t)" for tm i
      using that bad D(1) D(3) [of tm i] fresh [of i] next_t by (auto simp: unat_eq_0)
    show "(tm, i) \<notin> set (m_baddies t)" if "map_find c (m_clients t) = Some i" for c tm i
      using that clients D(2) [of c i] D(5) [of c i tm] fresh [of i] bad by auto
  qed (use D clients next_t in \<open>auto dest: D(2)\<close>)
  moreover have "unat (m_next_id t) \<le> unat (m_next_id s) + length (m_baddies t) + n" using next_t bad by simp
  ultimately show ?thesis by (simp add: n)
qed

lemma server_ok_loaded:
  "server_ok s \<Longrightarrow> load_document F doc s = Some (Inr t) \<Longrightarrow> server_ok t"
  by (drule load_document_effect) (auto simp: server_ok_def same_clients_def)

section \<open>The shipped world\<close>

text \<open>An element with text has a text node below it.\<close>

definition element :: "string \<Rightarrow> string \<Rightarrow> xml_node" where
  "element name text = XmlNode name text [XmlNode '''' text []]"

definition group :: "string \<Rightarrow> xml_node list \<Rightarrow> xml_node" where
  "group name ns = XmlNode name '''' ns"

definition position :: "string \<Rightarrow> string \<Rightarrow> string \<Rightarrow> xml_node" where
  "position x y z =
     group ''Transform'' [group ''Position'' [element ''X'' x, element ''Y'' y, element ''Z'' z]]"

text \<open>
  The document of \<open>data/world.xml\<close>. The parser does not compare closing tags with opening ones; the text of
  \<open>ymin\<close> has a stray \<open>>\<close>, which \<open>atof\<close> ignores.
\<close>

definition shipped_world :: xml_node where
  "shipped_world =
     group '''' [group ''QuintsesWorld''
       [group ''PlayerSpawn'' [position ''0.0'' ''-13.0'' ''-25.0''],
        group ''MobGroup''
          [element ''Template'' ''Baddie'', element ''Height'' ''-25.0'',
           group ''Quaternion'' [element ''X'' ''0.0'', element ''Y'' ''0.0'', element ''Z'' ''0.0'',
             element ''W'' ''-1.0''],
           group ''Grid'' [element ''xmin'' ''-8.0'', element ''xmax'' ''8.0'', element ''ymin'' ''-4.0>'',
             element ''ymax'' ''12.0'', element ''xdiv'' ''7'', element ''ydiv'' ''5'']],
        group ''Blocker'' [element ''Template'' ''Floor'', position ''0.0'' ''0.0'' ''-30.0''],
        group ''Blocker'' [element ''Template'' ''LWall'', position ''-13.0'' ''0.0'' ''0.0''],
        group ''Blocker'' [element ''Template'' ''RWall'', position ''13.0'' ''0.0'' ''0.0'']]]"

lemmas number_defs = atof_def atoi_def strip_sign_def isspace_def isdigit_def digits_value_def
  scale10_def exponent_part_def int_pred_def

lemmas query_defs = first_node_def child_def child_text_def child_float_def child_int_def
  nodes_from_def group_def element_def position_def

lemma shipped_numbers:
  "atof ''0.0'' = 0" "atof ''-13.0'' = -13" "atof ''-25.0'' = -25" "atof ''-1.0'' = -1"
  "atof ''-8.0'' = -8" "atof ''8.0'' = 8" "atof ''-4.0>'' = -4" "atof ''12.0'' = 12"
  "atof ''-30.0'' = -30" "atof ''13.0'' = 13" "atoi ''7'' = Inr 7" "atoi ''5'' = Inr 5"
  by (simp_all add: number_defs)

definition shipped_mobs :: "rat mob_group" where
  "shipped_mobs =
     \<lparr>mg_templ = ''Baddie'', mg_quat = Quat 0 0 (-1) 0, mg_height = -25, mg_xmin = -8, mg_ymin = -4,
      mg_xdelta = 8 / 3, mg_ydelta = 4, mg_xdiv = 7, mg_ydiv = 5\<rparr>"

lemma shipped_mobs_read:
  "read_mob_group exact (first_node ''MobGroup'' (hd (node_children shipped_world))) = Inr shipped_mobs"
  by (simp add: shipped_world_def query_defs read_mob_group_def parseQuaternion_def read_quat_def
      shipped_numbers exact_def int_pred_def quat_of_wxyz_def shipped_mobs_def)

definition translation_list :: "'f::{zero,one} \<Rightarrow> 'f \<Rightarrow> 'f \<Rightarrow> 'f list" where
  "translation_list x y z = [1, 0, 0, 0, 0, 1, 0, 0, 0, 0, 1, 0, x, y, z, 1]"

text \<open>Half a turn about the vertical axis, then a move.\<close>

definition turned_list :: "'f::{zero,one,uminus} \<Rightarrow> 'f \<Rightarrow> 'f \<Rightarrow> 'f list" where
  "turned_list x y z = [- 1, 0, 0, 0, 0, - 1, 0, 0, 0, 0, 1, 0, x, y, z, 1]"

lemma value_ptr_translate: "value_ptr (translate mat4_identity (Vec3 (x::'f::comm_ring_1) y z)) = translation_list x y z"
  by (simp add: value_ptr_def translate_identity translation_list_def)

lemma mat4_cast_half_turn:
  "w * w = (1::'f::comm_ring_1) \<Longrightarrow>
    mat4_cast (Quat 0 0 w 0) = Mat4 (Vec4 (- 1) 0 0 0) (Vec4 0 (- 1) 0 0) (Vec4 0 0 1 0) (Vec4 0 0 0 1)"
  by (simp add: two_def mult.assoc)

lemma shipped_mob_matrix: "mob_matrix shipped_mobs p = turned_list (fst p) (snd p) (-25)"
proof -
  have "mat4_cast (Quat 0 0 (-1) 0) = Mat4 (Vec4 (- 1) 0 0 0) (Vec4 0 (- 1) 0 0) (Vec4 0 0 1 0) (Vec4 0 0 0 (1::rat))"
    by (rule mat4_cast_half_turn) simp
  then show ?thesis
    by (simp add: mob_matrix_def shipped_mobs_def translate_mul value_ptr_def turned_list_def del: mat4_cast.simps)
qed

lemma parse_position:
  "parseTransform exact (first_node ''Transform'' (group nm [element t v, position x y z])) =
    (if t = ''Transform'' then parseTransform exact (Some (element t v))
     else Inr (translate mat4_identity (Vec3 (of_rat (atof x)) (of_rat (atof y)) (of_rat (atof z)) :: 'f::field_char_0 vec3)))"
  by (simp add: query_defs parseTransform_def read_position_def exact_def)

lemma load_blocker_position:
  "load_blocker exact (group nm [element ''Template'' t, position x y z]) s =
    Inr (s\<lparr>m_next_id := m_next_id s + 1,
      m_physics := addPhysical (m_next_id s) t
        (translation_list (of_rat (atof x)) (of_rat (atof y)) (of_rat (atof z) :: 'f::field_char_0)) False (m_physics s)\<rparr>)"
  by (simp add: load_blocker_def parse_position getNextIdentifier_def value_ptr_translate query_defs
      parseTransform_def read_position_def exact_def del: translate.simps)

lemma load_shipped:
  "\<exists>t. load_document exact shipped_world (s :: (rat, 'w) server) = Some (Inr t) \<and> same_clients s t \<and>
     m_baddies t = m_baddies s @ map (Pair ''Baddie'') (fresh_ids s 35) \<and> m_next_id t = m_next_id s + 38 \<and>
     m_player_spawn t = translate mat4_identity (Vec3 0 (-13) (-25)) \<and>
     ph_queue (m_physics t) =
       AddPhysObjMsg (m_next_id s + 37) ''RWall'' (translation_list 13 0 0) #
       AddPhysObjMsg (m_next_id s + 36) ''LWall'' (translation_list (-13) 0 0) #
       AddPhysObjMsg (m_next_id s + 35) ''Floor'' (translation_list 0 0 (-30)) #
       rev (map2 (\<lambda>i (x, y). AddCharObjMsg i ''Baddie'' (turned_list x y (-25))) (fresh_ids s 35)
         (List.product [-8, -16/3, -8/3, 0, 8/3, 16/3, 8] [-4, 0, 4, 8, 12])) @ ph_queue (m_physics s)"
proof -
  let ?w = "hd (node_children shipped_world)"
  let ?s = "s\<lparr>m_player_spawn := translate mat4_identity (Vec3 0 (-13) (-25))\<rparr>"
  have world: "first_node ''QuintsesWorld'' shipped_world = Some ?w"
    by (simp add: shipped_world_def query_defs)
  have spawn: "load_spawn exact ?w s = Inr ?s"
    by (simp add: load_spawn_def shipped_world_def query_defs parseTransform_def read_position_def
        shipped_numbers exact_def del: translate.simps)
  have points: "grid_points shipped_mobs = List.product [-8, -16/3, -8/3, 0, 8/3, 16/3, 8] [-4, 0, 4, 8, 12]"
    by (simp add: grid_points_def grid_columns_def grid_rows_def shipped_mobs_def upt_rec product_concat_map)
  have len: "length (grid_points shipped_mobs) = 35" by (simp add: points)
  have ids: "fresh_ids ?s 35 = fresh_ids s 35" by (simp add: fresh_ids_def)
  let ?t = "with_mobs shipped_mobs (grid_points shipped_mobs) ?s"
  have mobs: "loadMobGroup exact (first_node ''MobGroup'' ?w) ?s = Some (Inr ?t)"
    by (simp add: loadMobGroup_def shipped_mobs_read place_mobs_exact fold_place_baddie)
  have blockers: "nodes_from ''Blocker'' ?w =
      [group ''Blocker'' [element ''Template'' ''Floor'', position ''0.0'' ''0.0'' ''-30.0''],
       group ''Blocker'' [element ''Template'' ''LWall'', position ''-13.0'' ''0.0'' ''0.0''],
       group ''Blocker'' [element ''Template'' ''RWall'', position ''13.0'' ''0.0'' ''0.0'']]"
    by (simp add: shipped_world_def nodes_from_def group_def)
  have t: "m_baddies ?t = m_baddies s @ map (Pair ''Baddie'') (fresh_ids s 35)" "m_next_id ?t = m_next_id s + 35"
    "same_clients s ?t" "m_player_spawn ?t = translate mat4_identity (Vec3 0 (-13) (-25))"
    by (simp_all only: with_mobs_def len ids) (simp_all add: shipped_mobs_def same_clients_def)
  have queue: "ph_queue (m_physics ?t) =
      rev (map2 (\<lambda>i (x, y). AddCharObjMsg i ''Baddie'' (turned_list x y (-25))) (fresh_ids s 35)
        (grid_points shipped_mobs)) @ ph_queue (m_physics s)"
    unfolding with_mobs_def len ids
    by (simp add: shipped_mob_matrix case_prod_unfold, simp add: shipped_mobs_def)
  show ?thesis
    unfolding load_document_def points [symmetric]
    using t(3)
    by (simp add: world spawn mobs blockers load_blocker_position shipped_numbers t(1,2,4) queue same_clients_def
        del: translate.simps)
qed


section \<open>Properties\<close>

lemma read_mob_group_deltas:
  assumes "read_mob_group F node = Inr g" and "child ''Grid'' node = Inr grid"
    and "child_float F ''xmax'' grid = Inr xmax" and "child_float F ''ymax'' grid = Inr ymax"
  shows "mg_xdelta g = (xmax - mg_xmin g) / of_integer F (mg_xdiv g - 1)"
    and "mg_ydelta g = (ymax - mg_ymin g) / of_integer F (mg_ydiv g - 1)"
  using assms by (auto simp: read_mob_group_def res_bind_eq_Inr int_pred_def split: if_splits)

lemma last_of_grid:
  "1 < n \<Longrightarrow> last (map (\<lambda>j. x + of_nat j * ((y - x) / of_int (n - 1))) [0..<nat n]) = (y :: 'f::linordered_field)"
proof -
  assume n: "1 < n"
  then have "(of_nat (nat n - 1) :: 'f) = of_int (n - 1)"
    by (metis int_minus nat_one_as_int of_int_of_nat_eq int_nat_eq le_less_trans less_imp_le nat_diff_distrib' of_nat_nat zero_less_one diff_ge_0_iff_ge zero_le_one)
  moreover have "(of_int (n - 1) :: 'f) \<noteq> 0" using n by (metis diff_gt_0_iff_gt of_int_eq_0_iff less_irrefl)
  ultimately show ?thesis using n by (simp add: last_map)
qed

text \<open>
  C26: A readable mob group is loaded in full: the loops end, there is one mob for each of the \<open>xdiv\<close> by
  \<open>ydiv\<close> points, the columns run from \<open>xmin\<close> to \<open>xmax\<close> and the rows from \<open>ymin\<close> to \<open>ymax\<close> in equal
  steps, the mobs get consecutive identifiers from the counter in the order of the points, each is
  recorded with the template of the group and posted to the physics as a character at its point, and
  nothing else of the server changes. Positions are exact where the scalars are an ordered field.
\<close>

theorem mob_grid_is_placed:
  fixes g :: "'f::linordered_field mob_group"
  assumes "read_mob_group exact node = Inr g" and "child ''Grid'' node = Inr grid"
    and "child_float exact ''xmax'' grid = Inr xmax" and "child_float exact ''ymax'' grid = Inr ymax"
  shows "\<exists>t. loadMobGroup exact node s = Some (Inr t) \<and> same_clients s t \<and>
    m_player_spawn t = m_player_spawn s \<and>
    m_next_id t = m_next_id s + of_nat (nat (mg_xdiv g) * nat (mg_ydiv g)) \<and>
    m_baddies t = m_baddies s @ map (Pair (mg_templ g)) (fresh_ids s (nat (mg_xdiv g) * nat (mg_ydiv g))) \<and>
    ph_queue (m_physics t) =
      rev (map2 (\<lambda>i p. AddCharObjMsg i (mg_templ g) (mob_matrix g p))
        (fresh_ids s (nat (mg_xdiv g) * nat (mg_ydiv g))) (grid_points g)) @ ph_queue (m_physics s) \<and>
    (1 < mg_xdiv g \<longrightarrow> hd (grid_columns g) = mg_xmin g \<and> last (grid_columns g) = xmax) \<and>
    (1 < mg_ydiv g \<longrightarrow> hd (grid_rows g) = mg_ymin g \<and> last (grid_rows g) = ymax)"
proof -
  have len: "length (grid_points g) = nat (mg_xdiv g) * nat (mg_ydiv g)"
    unfolding grid_points_def product_concat_map [symmetric] by (simp add: grid_columns_def grid_rows_def)
  have load: "loadMobGroup exact node s = Some (Inr (with_mobs g (grid_points g) s))"
    by (simp add: loadMobGroup_def assms(1) place_mobs_exact fold_place_baddie)
  have delta: "mg_xdelta g = (xmax - mg_xmin g) / of_int (mg_xdiv g - 1)"
    "mg_ydelta g = (ymax - mg_ymin g) / of_int (mg_ydiv g - 1)"
    using read_mob_group_deltas [OF assms] by (simp_all add: exact_def)
  have "hd (grid_columns g) = mg_xmin g \<and> last (grid_columns g) = xmax" if "1 < mg_xdiv g"
    unfolding grid_columns_def delta last_of_grid [OF that] using that by (simp add: hd_map)
  moreover have "hd (grid_rows g) = mg_ymin g \<and> last (grid_rows g) = ymax" if "1 < mg_ydiv g"
    unfolding grid_rows_def delta last_of_grid [OF that] using that by (simp add: hd_map)
  ultimately show ?thesis
    by (intro exI [of _ "with_mobs g (grid_points g) s"]) (simp add: load with_mobs_def len same_clients_def)
qed

theorem mob_grid_is_placed_witness:
  "\<exists>t. loadMobGroup exact (first_node ''MobGroup'' (hd (node_children shipped_world)))
      (server_init () :: (rat, unit) server) = Some (Inr t) \<and>
    m_next_id t = 36 \<and> last (grid_columns shipped_mobs) = 8"
proof -
  let ?n = "first_node ''MobGroup'' (hd (node_children shipped_world))"
  have "child ''Grid'' ?n = Inr (first_node ''Grid'' (the ?n))"
    and "child_float exact ''xmax'' (first_node ''Grid'' (the ?n)) = Inr (8 :: rat)"
    and "child_float exact ''ymax'' (first_node ''Grid'' (the ?n)) = Inr (12 :: rat)"
    by (simp_all add: shipped_world_def query_defs shipped_numbers exact_def)
  from mob_grid_is_placed [OF shipped_mobs_read this, of "server_init () :: (rat, unit) server"]
  obtain t where "loadMobGroup exact ?n (server_init () :: (rat, unit) server) = Some (Inr t)"
    and "m_next_id t = m_next_id (server_init () :: (rat, unit) server) + of_nat (7 * 5)"
    and "last (grid_columns shipped_mobs) = 8"
    by (auto simp: shipped_mobs_def)
  then show ?thesis by (simp add: server_init_def)
qed

lemma distinct_fresh_ids: "k < 2 ^ 32 \<Longrightarrow> distinct (fresh_ids s k)"
proof -
  assume k: "k < 2 ^ 32"
  have "inj_on (\<lambda>j. m_next_id s + of_nat j) {0..<k}"
  proof (rule inj_onI)
    fix i j
    assume ij: "i \<in> {0..<k}" "j \<in> {0..<k}" and eq: "m_next_id s + of_nat i = m_next_id s + of_nat j"
    from eq have "unat (of_nat i :: u32) = unat (of_nat j :: u32)" by simp
    with ij k show "i = j" by (simp add: unat_of_nat)
  qed
  then show ?thesis by (simp add: fresh_ids_def distinct_map)
qed

lemma server_step_baddies: "server_step op s = Inr s' \<Longrightarrow> m_baddies s' = m_baddies s"
  by (cases op) (auto simp: getClientId_state split: if_splits
      dest!: step_add step_remove step_load step_transforms
      simp del: server_step.simps(2,3,5,7))

lemma server_steps_baddies: "server_steps ops s = Inr s' \<Longrightarrow> m_baddies s' = m_baddies s"
  by (induction ops arbitrary: s) (auto simp: res_bind_eq_Inr dest: server_step_baddies)
text \<open>The blockers of a document: the nodes the last loop of \<open>loadWorld\<close> runs over.\<close>

definition blockers :: "xml_node \<Rightarrow> xml_node list" where
  "blockers doc = (case first_node ''QuintsesWorld'' doc of None \<Rightarrow> [] | Some w \<Rightarrow> nodes_from ''Blocker'' w)"

lemma length_blockers:
  "length (blockers doc) =
    (case first_node ''QuintsesWorld'' doc of None \<Rightarrow> 0 | Some w \<Rightarrow> length (nodes_from ''Blocker'' w))"
  by (simp add: blockers_def split: option.split)

text \<open>
  C2: Identifiers are never shared, in a world with baddies: after clients have come and gone, the world
  has been loaded from any document and any further client, player and physics calls, and with fewer than
  \<open>2^32 - 1\<close> identifiers given out, every identifier in use is below the counter, a nonzero one belongs to
  one client only, no client has the identifier of a baddie, and no two baddies share one. This holds for
  every scalar type.
\<close>

theorem world_identifiers_unique:
  assumes "server_steps ops (server_init w) = Inr s" and "load_document F doc s = Some (Inr t)"
    and "server_steps ops' t = Inr u"
    and "length (filter is_load (ops @ ops')) + length (m_baddies t) + length (blockers doc) < 2 ^ 32 - 1"
  shows "server_ok u \<and> distinct (map snd (m_baddies u)) \<and>
    (\<forall>c d i. map_find c (m_clients u) = Some i \<and> map_find d (m_clients u) = Some i \<and> i \<noteq> 0 \<longrightarrow> c = d) \<and>
    (\<forall>c i. map_find c (m_clients u) = Some i \<longrightarrow>
      unat i < unat (m_next_id u) \<and> i \<notin> snd ` set (m_baddies u))"
proof -
  have start: "unat (m_next_id (server_init w :: ('a, 'b) server)) = 1" by (simp add: server_init_def)
  have s: "server_ok s" "ids_inv s" "unat (m_next_id s) = 1 + length (filter is_load ops)"
    using ids_steps [OF assms(1) server_init_inv(1,2)] start assms(4) by auto
  have t: "ids_inv t" "unat (m_next_id t) \<le> unat (m_next_id s) + length (m_baddies t) + length (blockers doc)"
    using ids_inv_loaded [OF s(2) assms(2)] s(3) assms(4) unfolding length_blockers by auto
  have "server_ok t" using s(1) assms(2) by (rule server_ok_loaded)
  then have u: "server_ok u" "ids_inv u"
    using ids_steps [OF assms(3) _ t(1)] t(2) s(3) assms(4) by auto
  obtain templ k where "m_baddies t = m_baddies s @ map (Pair templ) (fresh_ids s k)"
    using load_document_effect [OF assms(2)] by blast
  moreover have "m_baddies s = []"
    using server_steps_baddies [OF assms(1)] by (simp add: server_init_def)
  ultimately have "m_baddies u = map (Pair templ) (fresh_ids s k)"
    using server_steps_baddies [OF assms(3)] by simp
  moreover have "k < 2 ^ 32" using assms(4) \<open>m_baddies s = []\<close> \<open>m_baddies t = _\<close> by simp
  ultimately have "distinct (map snd (m_baddies u))" by (simp add: o_def distinct_fresh_ids)
  with u ids_invD(2,4,5) [OF u(2)] show ?thesis by fastforce
qed

theorem world_identifiers_unique_witness:
  "\<exists>u. map_find 8 (m_clients u) = Some 39 \<and> length (m_baddies u) = 35 \<and> distinct (map snd (m_baddies u)) \<and>
    39 \<notin> snd ` set (m_baddies (u :: (rat, unit) server))"
proof -
  let ?ops = "[OpCreate 8, OpAdd 8]" and ?ops' = "[OpLoad 8 ''Player'']"
  let ?s = "(server_init () :: (rat, unit) server)\<lparr>srv_live := [8], m_lobby_clients := [8]\<rparr>"
  have s: "server_steps ?ops (server_init ()) = Inr ?s"
    by (simp add: server_init_def addClient_def push_all_def set_insert_def)
  obtain t where load: "load_document exact shipped_world ?s = Some (Inr t)" and same: "same_clients ?s t"
    and t: "m_baddies t = m_baddies ?s @ map (Pair ''Baddie'') (fresh_ids ?s 35)" "m_next_id t = m_next_id ?s + 38"
    using load_shipped [of ?s] by blast
  let ?u = "(with_player 8 ''Player'' t)\<lparr>srv_sent := srv_sent t @
      map (\<lambda>(d, _). (d, ClientAddDrawableMsg (m_next_id t) ''Player'')) (m_clients (with_player 8 ''Player'' t))\<rparr>"
  have "clients_live t" and "live_client 8 t"
    using same by (auto simp: same_clients_def clients_live_def everybody_def live_client_def server_init_def)
  then have u: "server_steps ?ops' t = Inr ?u" by (simp add: loadPlayer_live)
  have "length (blockers shipped_world) = 3"
    by (simp add: blockers_def shipped_world_def query_defs)
  with t(1) have "length (filter is_load (?ops @ ?ops')) + length (m_baddies t) + length (blockers shipped_world)
      < 2 ^ 32 - 1"
    by (simp add: server_init_def)
  from world_identifiers_unique [OF s load u this] have "distinct (map snd (m_baddies ?u))"
    and "\<forall>c i. map_find c (m_clients ?u) = Some i \<longrightarrow> unat i < unat (m_next_id ?u) \<and> i \<notin> snd ` set (m_baddies ?u)"
    by blast+
  moreover have "map_find 8 (m_clients ?u) = Some 39" and "length (m_baddies ?u) = 35"
    using same t by (simp_all add: same_clients_def server_init_def map_insert_def map_find_Cons)
  ultimately show ?thesis by blast
qed

lemma messages_to_map_Pair:
  "srv_sent t = srv_sent s @ map (Pair c) ms \<Longrightarrow> messages_to c t = messages_to c s @ ms"
  by (simp add: messages_to_def filter_map o_def)

text \<open>
  Loading the world tells nobody. A client that was added before the world was loaded, which the
  server thread does after it has let its creator continue, has heard of the players there were and is
  never told of a baddie by the loading; a client added after it hears of the players and of every baddie.
\<close>

lemma early_client_misses_baddies:
  assumes "live_client c s" and "addClient c s = Inr s1" and "load_document F doc s1 = Some (Inr s2)"
    and "m_baddies s = []"
  shows "messages_to c s2 = messages_to c s @ map (\<lambda>(_, i). ClientAddDrawableMsg i ''Player'') (m_clients s) \<and>
    (live_client d s2 \<longrightarrow> (\<exists>s3. addClient d s2 = Inr s3 \<and>
      messages_to d s3 = messages_to d s2 @
        map (\<lambda>(_, i). ClientAddDrawableMsg i ''Player'') (m_clients s) @
        map (\<lambda>(templ, i). ClientAddDrawableMsg i templ) (m_baddies s2)))"
proof -
  have s1: "srv_sent s1 = srv_sent s @ map (Pair c) (announcements s)" "m_clients s1 = m_clients s"
    using assms(2) unfolding addClient_live [OF assms(1)] by auto
  have same: "same_clients s1 s2" using load_document_effect [OF assms(3)] by blast
  have "messages_to c s2 = messages_to c s1" using same by (simp add: messages_to_def same_clients_def)
  also have "\<dots> = messages_to c s @ announcements s" by (rule messages_to_map_Pair) (rule s1(1))
  finally have early: "messages_to c s2 = messages_to c s @ announcements s" .
  have "\<exists>s3. addClient d s2 = Inr s3 \<and> messages_to d s3 = messages_to d s2 @ announcements s2"
    if "live_client d s2"
    unfolding addClient_live [OF that] by (auto intro!: messages_to_map_Pair)
  with early same s1(2) assms(4) show ?thesis by (auto simp: announcements_def same_clients_def)
qed

lemma early_client_misses_baddies_witness:
  "\<exists>s2 :: (rat, unit) server. messages_to 8 s2 = [] \<and> length (m_baddies s2) = 35"
proof -
  let ?s = "(server_init () :: (rat, unit) server)\<lparr>srv_live := [8]\<rparr>"
  let ?s1 = "?s\<lparr>m_lobby_clients := [8]\<rparr>"
  have live: "live_client 8 ?s" and none: "m_baddies ?s = []"
    by (simp_all add: live_client_def server_init_def)
  have add: "addClient 8 ?s = Inr ?s1"
    by (simp add: server_init_def addClient_def push_all_def set_insert_def)
  obtain t where load: "load_document exact shipped_world ?s1 = Some (Inr t)"
    and t: "m_baddies t = m_baddies ?s1 @ map (Pair ''Baddie'') (fresh_ids ?s1 35)"
    using load_shipped [of ?s1] by blast
  from early_client_misses_baddies [OF live add load none] have "messages_to 8 t = []"
    by (simp add: messages_to_def server_init_def)
  with t show ?thesis by (auto simp: server_init_def intro!: exI [of _ t])
qed

text \<open>
  C40: No run of \<open>loadWorld\<close> loads anything. The file is copied to the start of an empty string: if it has
  any visible character the copy writes outside the string, and if it is missing or blank the server is
  left as it is. The parser finds no node in an empty text.
\<close>

theorem world_file_is_never_read:
  assumes "first_node ''QuintsesWorld'' (parse '''') = None"
  shows "loadWorld parse F content s =
    (case content of
       None \<Rightarrow> Some (Inr s)
     | Some text \<Rightarrow> if \<exists>c \<in> set text. \<not> isspace c then Some (Inl OutOfBounds) else Some (Inr s))"
proof (cases content)
  case (Some chars)
  show ?thesis
  proof (cases "\<exists>c \<in> set chars. \<not> isspace c")
    case True
    then have "filter (\<lambda>c. \<not> isspace c) chars \<noteq> []" by (auto simp: filter_empty_conv)
    with True Some show ?thesis by (simp add: loadWorld_def copy_to_begin_def)
  next
    case False
    then have "filter (\<lambda>c. \<not> isspace c) chars = []" by (auto simp: filter_empty_conv)
    with False Some assms show ?thesis by (simp add: loadWorld_def copy_to_begin_def load_document_def)
  qed
qed (simp add: loadWorld_def)

theorem world_file_is_never_read_witness:
  "loadWorld (\<lambda>t. if t = '''' then group '''' [] else shipped_world) exact (Some ''<QuintsesWorld>'')
     (server_init () :: (rat, unit) server) = Some (Inl OutOfBounds)"
proof -
  let ?p = "\<lambda>t. if t = '''' then group '''' [] else shipped_world"
  have "first_node ''QuintsesWorld'' (?p '''') = None" by (simp add: query_defs)
  from world_file_is_never_read [where parse = ?p, OF this, of exact "Some ''<QuintsesWorld>''" "server_init () :: (rat, unit) server"]
  show ?thesis by (simp add: isspace_def)
qed

text \<open>
  The four elements of a quaternion reach the constructor one place off: the text of \<open>X\<close> becomes the
  scalar part, those of \<open>Y\<close>, \<open>Z\<close> and \<open>W\<close> the vector part. The quaternion written with zero \<open>X\<close>, \<open>Y\<close>,
  \<open>Z\<close> and a \<open>W\<close> of square one, which is no rotation, is read as half a turn about the vertical axis.
\<close>

lemma quaternion_elements_are_shifted:
  fixes x :: "'f::comm_ring_1"
  assumes "p = Some node"
    and "child_float F ''X'' p = Inr x" and "child_float F ''Y'' p = Inr y"
    and "child_float F ''Z'' p = Inr z" and "child_float F ''W'' p = Inr w"
  shows "parseQuaternion F p = Inr (Quat y z w x) \<and>
    (x = 0 \<and> y = 0 \<and> z = 0 \<and> w * w = 1 \<longrightarrow>
      mat4_cast (Quat x y z w) = mat4_identity \<and>
      mat4_cast (Quat y z w x) =
        Mat4 (Vec4 (- 1) 0 0 0) (Vec4 0 (- 1) 0 0) (Vec4 0 0 1 0) (Vec4 0 0 0 1))"
  using assms mat4_cast_half_turn [of w]
  by (simp add: parseQuaternion_def read_quat_def quat_of_wxyz_def mat4_identity_def del: mat4_cast.simps)
    (simp add: two_def)

lemma quaternion_elements_are_shifted_witness:
  "parseQuaternion exact (Some (group ''Quaternion''
      [element ''X'' ''0.0'', element ''Y'' ''0.0'', element ''Z'' ''0.0'', element ''W'' ''-1.0''])) =
    Inr (Quat 0 0 (- 1) (0 :: rat))"
proof -
  let ?n = "group ''Quaternion''
      [element ''X'' ''0.0'', element ''Y'' ''0.0'', element ''Z'' ''0.0'', element ''W'' ''-1.0'']"
  have "child_float exact ''X'' (Some ?n) = Inr (0 :: rat)" "child_float exact ''Y'' (Some ?n) = Inr (0 :: rat)"
    "child_float exact ''Z'' (Some ?n) = Inr (0 :: rat)" "child_float exact ''W'' (Some ?n) = Inr (- 1 :: rat)"
    by (simp_all add: query_defs shipped_numbers exact_def)
  from quaternion_elements_are_shifted [OF refl this] show ?thesis by blast
qed

lemma fold_res_fails:
  assumes "n \<in> set ns" and "\<And>s. \<exists>e. h n s = Inl e"
  shows "\<exists>e. fold_res h ns s = Inl e"
  using assms(1)
proof (induction ns arbitrary: s)
  case (Cons m ns)
  show ?case
  proof (cases "h m s")
    case (Inr s')
    with Cons assms(2) [of s] show ?thesis by auto
  qed simp
qed simp

text \<open>
  What a document must contain. Without a mob group the server dereferences a null pointer; and from
  the first blocker on every node of the world, whatever its name, is taken for a blocker, so that one of
  them without a template makes the loading fail.
\<close>

lemma world_needs_its_elements:
  assumes "first_node ''QuintsesWorld'' doc = Some w" and "load_spawn F w s = Inr u"
  shows "(first_node ''MobGroup'' w = None \<longrightarrow> load_document F doc s = Some (Inl NullDereference)) \<and>
    ((\<exists>n \<in> set (nodes_from ''Blocker'' w). first_node ''Template'' n = None) \<longrightarrow>
      (\<nexists>t. load_document F doc s = Some (Inr t)))"
proof (intro conjI impI)
  assume "first_node ''MobGroup'' w = None"
  then show "load_document F doc s = Some (Inl NullDereference)"
    by (simp add: load_document_def assms loadMobGroup_def read_mob_group_def child_text_def child_def)
next
  assume "\<exists>n \<in> set (nodes_from ''Blocker'' w). first_node ''Template'' n = None"
  then obtain n where n: "n \<in> set (nodes_from ''Blocker'' w)" "first_node ''Template'' n = None" by blast
  have fails: "\<exists>e. fold_res (load_blocker F) (nodes_from ''Blocker'' w) v = Inl e" for v
    by (rule fold_res_fails [OF n(1)]) (simp add: load_blocker_def child_text_def child_def n(2))
  show "\<nexists>t. load_document F doc s = Some (Inr t)"
  proof
    assume "\<exists>t. load_document F doc s = Some (Inr t)"
    then obtain t where "load_document F doc s = Some (Inr t)" ..
    then obtain v where "fold_res (load_blocker F) (nodes_from ''Blocker'' w) v = Inr t"
      by (auto simp: load_document_def assms res_bind_eq_Inr)
    with fails [of v] show False by simp
  qed
qed

lemma world_needs_its_elements_witness:
  "(\<nexists>t. load_document exact (group '''' [group ''QuintsesWorld'' [group ''Blocker'' [element ''Template'' ''Floor''],
        group ''Light'' []]]) (server_init () :: (rat, unit) server) = Some (Inr t))"
proof -
  let ?w = "group ''QuintsesWorld'' [group ''Blocker'' [element ''Template'' ''Floor''], group ''Light'' []]"
  have "first_node ''QuintsesWorld'' (group '''' [?w]) = Some ?w" by (simp add: query_defs)
  moreover have "load_spawn exact ?w (server_init () :: (rat, unit) server) = Inr (server_init ())"
    by (simp add: load_spawn_def query_defs)
  moreover have "\<exists>n \<in> set (nodes_from ''Blocker'' ?w). first_node ''Template'' n = None"
    by (simp add: query_defs)
  ultimately show ?thesis using world_needs_its_elements by blast
qed

end
