(* ===== verification/XmlHandles.thy ===== *)
theory XmlHandles
  imports WorldLoading
begin

text \<open>
  \<open>XmlDom\<close> of \<open>core/util/xml.hpp\<close>: handles that share a document and count themselves in a heap cell. The
  heap is explicit: the counters and the documents that exist, by address, and the variables of the
  class. Use or deletion of memory that is not there is a fault.
\<close>

section \<open>State\<close>

record xml_handle =
  xd_count :: ptr
  xd_document :: ptr

record dom_heap =
  dh_counts :: "ptr \<Rightarrow> u32 option"
  dh_docs :: "ptr \<Rightarrow> xml_node option"
  dh_vars :: "nat \<Rightarrow> xml_handle option"

definition dom_heap_empty :: dom_heap where
  "dom_heap_empty = \<lparr>dh_counts = (\<lambda>_. None), dh_docs = (\<lambda>_. None), dh_vars = (\<lambda>_. None)\<rparr>"

section \<open>Operations\<close>

text \<open>\<open>fetchAndIncrementP\<close> and \<open>fetchAndDecrementP\<close>: the counter at an address plus 1 or -1.\<close>

definition counter_add :: "ptr \<Rightarrow> u32 \<Rightarrow> dom_heap \<Rightarrow> fault + dom_heap" where
  "counter_add p k st =
     (case dh_counts st p of
        None \<Rightarrow> Inl UseAfterFree
      | Some n \<Rightarrow> Inr (st\<lparr>dh_counts := (dh_counts st)(p \<mapsto> n + k)\<rparr>))"

text \<open>The test after the decrement, which reads the counter again.\<close>

definition delete_if_zero :: "xml_handle \<Rightarrow> dom_heap \<Rightarrow> fault + dom_heap" where
  "delete_if_zero x st =
     (case dh_counts st (xd_count x) of
        None \<Rightarrow> Inl UseAfterFree
      | Some n \<Rightarrow>
          if n = 0 then
            (case dh_docs st (xd_document x) of
               None \<Rightarrow> Inl UseAfterFree
             | Some _ \<Rightarrow>
                 Inr (st\<lparr>dh_counts := (dh_counts st)(xd_count x := None),
                         dh_docs := (dh_docs st)(xd_document x := None)\<rparr>))
          else Inr st)"

definition drop_ref :: "xml_handle \<Rightarrow> dom_heap \<Rightarrow> fault + dom_heap" where
  "drop_ref x st = res_bind (counter_add (xd_count x) (- 1) st) (delete_if_zero x)"

definition set_var :: "nat \<Rightarrow> xml_handle option \<Rightarrow> dom_heap \<Rightarrow> dom_heap" where
  "set_var v x st = st\<lparr>dh_vars := (dh_vars st)(v := x)\<rparr>"

text \<open>A variable that is used exists.\<close>

definition get_var :: "nat \<Rightarrow> dom_heap \<Rightarrow> fault + xml_handle" where
  "get_var v st = (case dh_vars st v of None \<Rightarrow> Inl UseAfterFree | Some x \<Rightarrow> Inr x)"

definition xml_empty :: "nat \<Rightarrow> dom_heap \<Rightarrow> fault + dom_heap" where
  "xml_empty v st = Inr (set_var v (Some \<lparr>xd_count = 0, xd_document = 0\<rparr>) st)"

text \<open>
  Construction from text; \<open>c\<close> and \<open>d\<close> are the addresses the two calls of \<open>new\<close> return. The text is copied
  up to its first NUL. If the parser throws, no variable comes into being, and the counter and the
  document stay allocated.
\<close>

definition xml_parse ::
    "(string \<Rightarrow> xml_node option) \<Rightarrow> nat \<Rightarrow> string \<Rightarrow> ptr \<Rightarrow> ptr \<Rightarrow> dom_heap \<Rightarrow> fault + dom_heap" where
  "xml_parse parse v text c d st =
     (let s = takeWhile (\<lambda>x. x \<noteq> CHR 0x00) text;
          st = st\<lparr>dh_counts := (dh_counts st)(c \<mapsto> 1)\<rparr> in
      case parse s of
        None \<Rightarrow> Inr (st\<lparr>dh_docs := (dh_docs st)(d \<mapsto> XmlNode '''' '''' [])\<rparr>)
      | Some doc \<Rightarrow>
          Inr (set_var v (Some \<lparr>xd_count = c, xd_document = d\<rparr>) (st\<lparr>dh_docs := (dh_docs st)(d \<mapsto> doc)\<rparr>)))"

definition xml_copy :: "nat \<Rightarrow> nat \<Rightarrow> dom_heap \<Rightarrow> fault + dom_heap" where
  "xml_copy v rhs st =
     res_bind (get_var rhs st) (\<lambda>x.
     let st = set_var v (Some x) st in
     if xd_count x \<noteq> 0 then counter_add (xd_count x) 1 st else Inr st)"

definition xml_destroy :: "nat \<Rightarrow> dom_heap \<Rightarrow> fault + dom_heap" where
  "xml_destroy v st =
     res_bind (get_var v st) (\<lambda>x.
     res_bind (if xd_count x \<noteq> 0 then drop_ref x st else Inr st) (\<lambda>st.
     Inr (set_var v None st)))"

definition xml_assign :: "nat \<Rightarrow> nat \<Rightarrow> dom_heap \<Rightarrow> fault + dom_heap" where
  "xml_assign v rhs st =
     res_bind (get_var v st) (\<lambda>x.
     res_bind (if xd_document x \<noteq> 0 then drop_ref x st else Inr st) (\<lambda>st.
     res_bind (get_var rhs st) (\<lambda>y.
     let st = set_var v (Some y) st in
     if xd_count y \<noteq> 0 then counter_add (xd_count y) 1 st else Inr st)))"

definition xml_doc :: "nat \<Rightarrow> dom_heap \<Rightarrow> fault + ptr" where
  "xml_doc v st = res_bind (get_var v st) (\<lambda>x. Inr (xd_document x))"

section \<open>Programs over handles\<close>

datatype xml_op =
    XmlEmpty nat
  | XmlParse nat string ptr ptr
  | XmlCopy nat nat
  | XmlAssign nat nat
  | XmlDestroy nat

fun xml_step :: "(string \<Rightarrow> xml_node option) \<Rightarrow> xml_op \<Rightarrow> dom_heap \<Rightarrow> fault + dom_heap" where
  "xml_step parse (XmlEmpty v) st = xml_empty v st"
| "xml_step parse (XmlParse v t c d) st = xml_parse parse v t c d st"
| "xml_step parse (XmlCopy v w) st = xml_copy v w st"
| "xml_step parse (XmlAssign v w) st = xml_assign v w st"
| "xml_step parse (XmlDestroy v) st = xml_destroy v st"

text \<open>
  What the compiler and the allocator provide: a constructed variable is new, a used one exists, and
  \<open>new\<close> returns unused addresses. What the class asks for in addition: the text can be parsed, and no
  variable is assigned to itself.
\<close>

fun xml_scoped :: "(string \<Rightarrow> xml_node option) \<Rightarrow> xml_op \<Rightarrow> dom_heap \<Rightarrow> bool" where
  "xml_scoped parse (XmlEmpty v) st \<longleftrightarrow> dh_vars st v = None"
| "xml_scoped parse (XmlParse v t c d) st \<longleftrightarrow>
     dh_vars st v = None \<and> parse (takeWhile (\<lambda>x. x \<noteq> CHR 0x00) t) \<noteq> None \<and>
     c \<noteq> 0 \<and> d \<noteq> 0 \<and> dh_counts st c = None \<and> dh_docs st d = None"
| "xml_scoped parse (XmlCopy v w) st \<longleftrightarrow> dh_vars st v = None \<and> dh_vars st w \<noteq> None"
| "xml_scoped parse (XmlAssign v w) st \<longleftrightarrow> dh_vars st v \<noteq> None \<and> dh_vars st w \<noteq> None \<and> v \<noteq> w"
| "xml_scoped parse (XmlDestroy v) st \<longleftrightarrow> dh_vars st v \<noteq> None"

fun xml_run_scoped :: "(string \<Rightarrow> xml_node option) \<Rightarrow> xml_op list \<Rightarrow> dom_heap \<Rightarrow> bool" where
  "xml_run_scoped parse [] st = True"
| "xml_run_scoped parse (x # xs) st =
     (xml_scoped parse x st \<and> (case xml_step parse x st of Inl _ \<Rightarrow> True | Inr st' \<Rightarrow> xml_run_scoped parse xs st'))"

section \<open>The invariant\<close>

text \<open>The variables that refer to a counter.\<close>

definition refs :: "ptr \<Rightarrow> dom_heap \<Rightarrow> nat set" where
  "refs c st = {v. \<exists>x. dh_vars st v = Some x \<and> xd_count x = c}"

definition dom_inv :: "dom_heap \<Rightarrow> bool" where
  "dom_inv st \<longleftrightarrow>
     finite (dom (dh_vars st)) \<and>
     (\<forall>v x. dh_vars st v = Some x \<longrightarrow> (xd_count x = 0 \<longleftrightarrow> xd_document x = 0)) \<and>
     (\<forall>v x. dh_vars st v = Some x \<and> xd_count x \<noteq> 0 \<longrightarrow>
       dh_counts st (xd_count x) \<noteq> None \<and> dh_docs st (xd_document x) \<noteq> None) \<and>
     (\<forall>v w x y. dh_vars st v = Some x \<and> dh_vars st w = Some y \<longrightarrow>
       (xd_count x = xd_count y \<longleftrightarrow> xd_document x = xd_document y)) \<and>
     (\<forall>c n. dh_counts st c = Some n \<longrightarrow> c \<noteq> 0 \<and> refs c st \<noteq> {} \<and> unat n = card (refs c st)) \<and>
     (\<forall>d. dh_docs st d \<noteq> None \<longrightarrow> d \<noteq> 0 \<and> (\<exists>v x. dh_vars st v = Some x \<and> xd_document x = d))"

lemma dom_invI:
  assumes "finite (dom (dh_vars st))"
    and "\<And>v x. dh_vars st v = Some x \<Longrightarrow> xd_count x = 0 \<longleftrightarrow> xd_document x = 0"
    and "\<And>v x. dh_vars st v = Some x \<Longrightarrow> xd_count x \<noteq> 0 \<Longrightarrow>
      dh_counts st (xd_count x) \<noteq> None \<and> dh_docs st (xd_document x) \<noteq> None"
    and "\<And>v w x y. dh_vars st v = Some x \<Longrightarrow> dh_vars st w = Some y \<Longrightarrow>
      xd_count x = xd_count y \<longleftrightarrow> xd_document x = xd_document y"
    and "\<And>c n. dh_counts st c = Some n \<Longrightarrow> c \<noteq> 0 \<and> refs c st \<noteq> {} \<and> unat n = card (refs c st)"
    and "\<And>d. dh_docs st d \<noteq> None \<Longrightarrow> d \<noteq> 0 \<and> (\<exists>v x. dh_vars st v = Some x \<and> xd_document x = d)"
  shows "dom_inv st"
  using assms unfolding dom_inv_def by blast

lemma dom_invD:
  assumes "dom_inv st"
  shows "finite (dom (dh_vars st))"
    and "dh_vars st v = Some x \<Longrightarrow> xd_count x = 0 \<longleftrightarrow> xd_document x = 0"
    and "dh_vars st v = Some x \<Longrightarrow> xd_count x \<noteq> 0 \<Longrightarrow>
      dh_counts st (xd_count x) \<noteq> None \<and> dh_docs st (xd_document x) \<noteq> None"
    and "dh_vars st v = Some x \<Longrightarrow> dh_vars st w = Some y \<Longrightarrow>
      xd_count x = xd_count y \<longleftrightarrow> xd_document x = xd_document y"
    and "dh_counts st c = Some n \<Longrightarrow> c \<noteq> 0 \<and> refs c st \<noteq> {} \<and> unat n = card (refs c st)"
    and "dh_docs st d \<noteq> None \<Longrightarrow> d \<noteq> 0 \<and> (\<exists>v x. dh_vars st v = Some x \<and> xd_document x = d)"
  using assms unfolding dom_inv_def by blast+

lemma refs_dom: "refs c st \<subseteq> dom (dh_vars st)"
  by (auto simp: refs_def)

lemma refs_frame [simp]:
  "refs c (st\<lparr>dh_counts := m\<rparr>) = refs c st"
  "refs c (st\<lparr>dh_docs := m'\<rparr>) = refs c st"
  by (simp_all add: refs_def)

lemma refs_set_var:
  "refs c (set_var v x st) = refs c st - {v} \<union> (case x of Some y \<Rightarrow> if xd_count y = c then {v} else {} | None \<Rightarrow> {})"
  by (auto simp: refs_def set_var_def split: option.splits)

lemma set_var_simps [simp]:
  "dh_vars (set_var v x st) = (dh_vars st)(v := x)"
  "dh_counts (set_var v x st) = dh_counts st"
  "dh_docs (set_var v x st) = dh_docs st"
  by (simp_all add: set_var_def)

text \<open>What destruction does in a state that satisfies the invariant.\<close>

lemma xml_destroy_eq:
  assumes inv: "dom_inv st" and x: "dh_vars st v = Some x"
  shows "xml_destroy v st = Inr (set_var v None
    (if xd_count x = 0 then st
     else if refs (xd_count x) st = {v} then
       st\<lparr>dh_counts := (dh_counts st)(xd_count x := None), dh_docs := (dh_docs st)(xd_document x := None)\<rparr>
     else st\<lparr>dh_counts := (dh_counts st)(xd_count x \<mapsto> of_nat (card (refs (xd_count x) st) - 1))\<rparr>))"
proof (cases "xd_count x = 0")
  case True
  then show ?thesis by (simp add: xml_destroy_def get_var_def x)
next
  case False
  note D = dom_invD [OF inv]
  obtain n t where n: "dh_counts st (xd_count x) = Some n" and t: "dh_docs st (xd_document x) = Some t"
    using D(3) [OF x False] by blast
  have card: "unat n = card (refs (xd_count x) st)" using D(5) [OF n] by blast
  have mem: "v \<in> refs (xd_count x) st" using x by (simp add: refs_def)
  have fin: "finite (refs (xd_count x) st)" using D(1) refs_dom finite_subset by blast
  have pos: "0 < unat n" using card mem fin by (metis card_gt_0_iff empty_iff)
  then have pred: "n + (- 1) = of_nat (card (refs (xd_count x) st) - 1)"
    unfolding card [symmetric] by (simp add: of_nat_diff)
  have "n + (- 1) = 0 \<longleftrightarrow> unat n = 1"
  proof -
    have "n + (- 1) = 0 \<longleftrightarrow> n = 1" by simp
    also have "\<dots> \<longleftrightarrow> unat n = 1" by (metis unat_1 word_unat_eq_iff)
    finally show ?thesis .
  qed
  also have "\<dots> \<longleftrightarrow> refs (xd_count x) st = {v}"
    unfolding card using mem by (metis One_nat_def card_1_singletonE card.empty card.insert empty_iff finite.emptyI singletonD)
  finally have zero: "n + (- 1) = 0 \<longleftrightarrow> refs (xd_count x) st = {v}" .
  show ?thesis
    using False zero pred
    by (auto simp: xml_destroy_def get_var_def x drop_ref_def counter_add_def n delete_if_zero_def t)
qed

lemma dom_inv_destroy:
  assumes inv: "dom_inv st" and x: "dh_vars st v = Some x" and small: "card (dom (dh_vars st)) < 2 ^ 32"
  shows "\<exists>st'. xml_destroy v st = Inr st' \<and> dom_inv st' \<and> dh_vars st' = (dh_vars st)(v := None)"
proof -
  note D = dom_invD [OF inv]
  define c where "c = xd_count x"
  define st' where "st' = set_var v None
    (if c = 0 then st
     else if refs c st = {v} then
       st\<lparr>dh_counts := (dh_counts st)(c := None), dh_docs := (dh_docs st)(xd_document x := None)\<rparr>
     else st\<lparr>dh_counts := (dh_counts st)(c \<mapsto> of_nat (card (refs c st) - 1))\<rparr>)"
  have run: "xml_destroy v st = Inr st'"
    unfolding st'_def c_def by (rule xml_destroy_eq [OF inv x])
  have vars: "dh_vars st' = (dh_vars st)(v := None)" by (simp add: st'_def)
  have refs': "refs b st' = refs b st - {v}" for b by (auto simp: refs_def vars)
  have fin: "finite (refs b st)" for b using D(1) refs_dom finite_subset by blast
  have v: "v \<in> refs c st" using x by (simp add: refs_def c_def)
  have other: "v \<notin> refs b st" if "b \<noteq> c" for b using that x by (auto simp: refs_def c_def)
  have size: "card (refs c st) < 2 ^ 32"
    using small card_mono [OF D(1) refs_dom, of c] by simp
  have "dom_inv st'"
  proof (rule dom_invI)
    show "finite (dom (dh_vars st'))" using D(1) by (simp add: vars)
    show "xd_count y = 0 \<longleftrightarrow> xd_document y = 0" if "dh_vars st' w = Some y" for w y
      using that D(2) [of w y] by (auto simp: vars split: if_splits)
    show "xd_count y = xd_count z \<longleftrightarrow> xd_document y = xd_document z"
      if "dh_vars st' w = Some y" "dh_vars st' u = Some z" for w u y z
      using that D(4) [of w y u z] by (auto simp: vars split: if_splits)
    show "dh_counts st' (xd_count y) \<noteq> None \<and> dh_docs st' (xd_document y) \<noteq> None"
      if "dh_vars st' w = Some y" "xd_count y \<noteq> 0" for w y
    proof -
      have w: "dh_vars st w = Some y" "w \<noteq> v" using that(1) by (auto simp: vars split: if_splits)
      then have "refs c st = {v} \<Longrightarrow> xd_count y \<noteq> c" by (auto simp: refs_def)
      with D(3) [OF w(1) that(2)] D(4) [OF w(1) x] show ?thesis by (auto simp: st'_def c_def)
    qed
    show "b \<noteq> 0 \<and> refs b st' \<noteq> {} \<and> unat n = card (refs b st')" if "dh_counts st' b = Some n" for b n
    proof (cases "b = c")
      case True
      with that D(5) [of c n] have n: "c \<noteq> 0" "refs c st \<noteq> {v}" "n = of_nat (card (refs c st) - 1)"
        by (auto simp: st'_def split: if_splits)
      have "unat n = card (refs c st) - 1" using n(3) size by (simp add: unat_of_nat)
      moreover have "refs c st - {v} \<noteq> {}" using n(2) v by blast
      ultimately show ?thesis using True n(1) v fin by (simp add: refs')
    next
      case False
      with that have "dh_counts st b = Some n" by (auto simp: st'_def split: if_splits)
      with D(5) [of b n] other [OF False] show ?thesis by (simp add: refs')
    qed
    show "d \<noteq> 0 \<and> (\<exists>w y. dh_vars st' w = Some y \<and> xd_document y = d)" if "dh_docs st' d \<noteq> None" for d
    proof -
      have d: "dh_docs st d \<noteq> None" using that by (auto simp: st'_def split: if_splits)
      then obtain w y where w: "dh_vars st w = Some y" "xd_document y = d" "d \<noteq> 0" using D(6) by blast
      show ?thesis
      proof (cases "w = v")
        case True
        with w x have "xd_document x = d" "c \<noteq> 0" using D(2) [OF x] by (auto simp: c_def)
        with that have "refs c st \<noteq> {v}" by (auto simp: st'_def)
        with v obtain u where "u \<in> refs c st" "u \<noteq> v" by blast
        then obtain z where "dh_vars st u = Some z" "xd_count z = xd_count x" "u \<noteq> v" by (auto simp: refs_def c_def)
        with D(4) [OF _ x, of u z] \<open>xd_document x = d\<close> w(3) show ?thesis
          by (intro conjI exI [of _ u] exI [of _ z]) (auto simp: vars)
      next
        case False
        with w show ?thesis by (auto simp: vars)
      qed
    qed
  qed
  with run vars show ?thesis by blast
qed

lemma dom_inv_copy:
  assumes inv: "dom_inv st" and v: "dh_vars st v = None" and x: "dh_vars st w = Some x"
    and small: "card (dom (dh_vars st)) + 1 < 2 ^ 32"
  shows "\<exists>st'. xml_copy v w st = Inr st' \<and> dom_inv st' \<and> dh_vars st' = (dh_vars st)(v \<mapsto> x)"
proof -
  note D = dom_invD [OF inv]
  define c where "c = xd_count x"
  define st' where "st' = set_var v (Some x)
    (if c = 0 then st else st\<lparr>dh_counts := (dh_counts st)(c \<mapsto> of_nat (card (refs c st) + 1))\<rparr>)"
  have vars: "dh_vars st' = (dh_vars st)(v \<mapsto> x)" by (simp add: st'_def)
  have v': "v \<notin> refs b st" for b using v by (auto simp: refs_def)
  have fin: "finite (refs b st)" for b using D(1) refs_dom finite_subset by blast
  have refs': "refs b st' = (if b = c then insert v (refs b st) else refs b st)" for b
    using v by (auto simp: refs_def vars c_def)
  have size: "card (refs c st) + 1 < 2 ^ 32"
    using small card_mono [OF D(1) refs_dom, of c] by simp
  have run: "xml_copy v w st = Inr st'"
  proof (cases "c = 0")
    case False
    then obtain n where n: "dh_counts st c = Some n" using D(3) [OF x] by (auto simp: c_def)
    then have "card (refs c st) = unat n" using D(5) [OF n] by simp
    then have "n = of_nat (card (refs c st))" by simp
    with n False show ?thesis
      by (simp add: xml_copy_def get_var_def x counter_add_def st'_def c_def [symmetric] set_var_def)
        (simp add: add.commute)
  qed (simp add: xml_copy_def get_var_def x st'_def c_def)
  have "dom_inv st'"
  proof (rule dom_invI)
    show "finite (dom (dh_vars st'))" using D(1) by (simp add: vars)
    have old: "\<exists>u. dh_vars st u = Some y" if "dh_vars st' u = Some y" for u y
      using that x by (auto simp: vars split: if_splits)
    show "xd_count y = 0 \<longleftrightarrow> xd_document y = 0" if "dh_vars st' u = Some y" for u y
      using old [OF that] D(2) by blast
    show "xd_count y = xd_count z \<longleftrightarrow> xd_document y = xd_document z"
      if "dh_vars st' u = Some y" "dh_vars st' u' = Some z" for u u' y z
      using old [OF that(1)] old [OF that(2)] D(4) by blast
    show "dh_counts st' (xd_count y) \<noteq> None \<and> dh_docs st' (xd_document y) \<noteq> None"
      if "dh_vars st' u = Some y" "xd_count y \<noteq> 0" for u y
      using old [OF that(1)] D(3) [OF _ that(2)] by (auto simp: st'_def)
    show "b \<noteq> 0 \<and> refs b st' \<noteq> {} \<and> unat n = card (refs b st')" if "dh_counts st' b = Some n" for b n
    proof (cases "b = c \<and> c \<noteq> 0")
      case True
      with that have "n = of_nat (card (refs c st) + 1)" by (simp add: st'_def)
      with size have "unat n = card (refs c st) + 1" by (simp only: unat_of_nat) simp
      with True v' fin show ?thesis by (simp add: refs')
    next
      case False
      with that have n: "dh_counts st b = Some n" by (auto simp: st'_def split: if_splits)
      with D(5) [OF n] False show ?thesis by (auto simp: refs')
    qed
    show "d \<noteq> 0 \<and> (\<exists>u y. dh_vars st' u = Some y \<and> xd_document y = d)" if "dh_docs st' d \<noteq> None" for d
    proof -
      have "dh_docs st d \<noteq> None" using that by (auto simp: st'_def split: if_splits)
      then obtain u y where "dh_vars st u = Some y" "xd_document y = d" "d \<noteq> 0" using D(6) by blast
      with v show ?thesis by (intro conjI exI [of _ u] exI [of _ y]) (auto simp: vars)
    qed
  qed
  with run vars show ?thesis by blast
qed

lemma dom_inv_empty: "dom_inv st \<Longrightarrow> dh_vars st v = None \<Longrightarrow>
  \<exists>st'. xml_empty v st = Inr st' \<and> dom_inv st' \<and> dh_vars st' = (dh_vars st)(v \<mapsto> \<lparr>xd_count = 0, xd_document = 0\<rparr>)"
proof -
  assume inv: "dom_inv st" and v: "dh_vars st v = None"
  note D = dom_invD [OF inv]
  let ?st = "set_var v (Some \<lparr>xd_count = 0, xd_document = 0\<rparr>) st"
  have refs': "b \<noteq> 0 \<Longrightarrow> refs b ?st = refs b st" for b using v by (auto simp: refs_def)
  have "dom_inv ?st"
  proof (rule dom_invI)
    show "finite (dom (dh_vars ?st))" using D(1) by simp
    show "xd_count y = 0 \<longleftrightarrow> xd_document y = 0" if "dh_vars ?st u = Some y" for u y
      using that D(2) [of u y] by (auto split: if_splits)
    show "xd_count y = xd_count z \<longleftrightarrow> xd_document y = xd_document z"
      if "dh_vars ?st u = Some y" "dh_vars ?st u' = Some z" for u u' y z
      using that D(4) [of u y u' z] D(2) [of u y] D(2) [of u' z] by (auto split: if_splits)
    show "dh_counts ?st (xd_count y) \<noteq> None \<and> dh_docs ?st (xd_document y) \<noteq> None"
      if "dh_vars ?st u = Some y" "xd_count y \<noteq> 0" for u y
      using that D(3) [of u y] by (auto split: if_splits)
    show "b \<noteq> 0 \<and> refs b ?st \<noteq> {} \<and> unat n = card (refs b ?st)" if "dh_counts ?st b = Some n" for b n
      using that D(5) [of b n] refs' [of b] by simp
    show "d \<noteq> 0 \<and> (\<exists>u y. dh_vars ?st u = Some y \<and> xd_document y = d)" if "dh_docs ?st d \<noteq> None" for d
      using that D(6) [of d] v by (auto intro: exI [of _ v]) (metis option.distinct(1))
  qed
  then show ?thesis by (simp add: xml_empty_def)
qed

lemma dom_inv_parse:
  assumes inv: "dom_inv st" and new: "xml_scoped parse (XmlParse v t c d) st"
  shows "\<exists>st'. xml_parse parse v t c d st = Inr st' \<and> dom_inv st' \<and>
    dh_vars st' = (dh_vars st)(v \<mapsto> \<lparr>xd_count = c, xd_document = d\<rparr>)"
proof -
  note D = dom_invD [OF inv]
  from new obtain doc where doc: "parse (takeWhile (\<lambda>x. x \<noteq> CHR 0x00) t) = Some doc"
    and v: "dh_vars st v = None" and c: "c \<noteq> 0" "dh_counts st c = None" and d: "d \<noteq> 0" "dh_docs st d = None"
    by auto
  let ?st = "set_var v (Some \<lparr>xd_count = c, xd_document = d\<rparr>)
    (st\<lparr>dh_counts := (dh_counts st)(c \<mapsto> 1), dh_docs := (dh_docs st)(d \<mapsto> doc)\<rparr>)"
  have fresh: "xd_count y \<noteq> c \<and> xd_document y \<noteq> d" if "dh_vars st u = Some y" for u y
    using that c d D(2) [of u y] D(3) [of u y] by auto
  then have refs': "refs b ?st = (if b = c then {v} else refs b st)" for b
    using v by (auto simp: refs_def)
  have "dom_inv ?st"
  proof (rule dom_invI)
    show "finite (dom (dh_vars ?st))" using D(1) by simp
    show "xd_count y = 0 \<longleftrightarrow> xd_document y = 0" if "dh_vars ?st u = Some y" for u y
      using that D(2) [of u y] c d by (auto split: if_splits)
    show "xd_count y = xd_count z \<longleftrightarrow> xd_document y = xd_document z"
      if "dh_vars ?st u = Some y" "dh_vars ?st u' = Some z" for u u' y z
      using that D(4) [of u y u' z] fresh [of u y] fresh [of u' z] by (auto split: if_splits)
    show "dh_counts ?st (xd_count y) \<noteq> None \<and> dh_docs ?st (xd_document y) \<noteq> None"
      if "dh_vars ?st u = Some y" "xd_count y \<noteq> 0" for u y
      using that D(3) [of u y] by (auto split: if_splits)
    show "b \<noteq> 0 \<and> refs b ?st \<noteq> {} \<and> unat n = card (refs b ?st)" if "dh_counts ?st b = Some n" for b n
      using that D(5) [of b n] c unfolding refs' by (auto split: if_splits)
    show "d' \<noteq> 0 \<and> (\<exists>u y. dh_vars ?st u = Some y \<and> xd_document y = d')" if "dh_docs ?st d' \<noteq> None" for d'
    proof (cases "d' = d")
      case True
      with d show ?thesis by (intro conjI exI [of _ v]) auto
    next
      case False
      with that obtain u y where "dh_vars st u = Some y" "xd_document y = d'" "d' \<noteq> 0" using D(6) [of d'] by auto
      with v show ?thesis by (intro conjI exI [of _ u] exI [of _ y]) auto
    qed
  qed
  then show ?thesis by (simp add: xml_parse_def doc set_var_def)
qed

text \<open>Assignment to another variable is destruction followed by copy construction.\<close>

lemma xml_assign_eq:
  assumes "dom_inv st" and "dh_vars st v = Some x" and "v \<noteq> w"
  shows "xml_assign v w st = res_bind (xml_destroy v st) (xml_copy v w)"
proof -
  have zero: "xd_document x \<noteq> 0 \<longleftrightarrow> xd_count x \<noteq> 0" using dom_invD(2) [OF assms(1,2)] by simp
  have frame: "get_var w (set_var v None u) = get_var w u" for u using assms(3) by (simp add: get_var_def)
  have gv: "get_var v st = Inr x" by (simp add: get_var_def assms(2))
  have over: "set_var v y (set_var v None u) = set_var v y u" for u y by (simp add: set_var_def)
  show ?thesis
    unfolding xml_assign_def xml_destroy_def xml_copy_def res_bind_assoc res_bind_simps frame over
    by (simp only: gv res_bind_simps zero)
qed

lemma xml_step_inv:
  assumes inv: "dom_inv st" and op: "xml_scoped parse x st" and small: "card (dom (dh_vars st)) + 1 < 2 ^ 32"
  shows "\<exists>st'. xml_step parse x st = Inr st' \<and> dom_inv st' \<and> card (dom (dh_vars st')) \<le> card (dom (dh_vars st)) + 1"
proof -
  have fin: "finite (dom (dh_vars st))" using dom_invD(1) [OF inv] .
  have put: "card (dom ((dh_vars st)(v \<mapsto> y))) \<le> card (dom (dh_vars st)) + 1" for v y
    using fin by (simp add: card_insert_if)
  have del: "card (dom ((dh_vars st)(v := None))) \<le> card (dom (dh_vars st))" for v
    using fin by (simp add: card_Diff1_le)
  show ?thesis
  proof (cases x)
    case (XmlEmpty v)
    with op dom_inv_empty [OF inv, of v] put [of v] show ?thesis by fastforce
  next
    case (XmlParse v t c d)
    with op dom_inv_parse [OF inv, of parse v t c d] put [of v] show ?thesis by fastforce
  next
    case (XmlCopy v w)
    with op obtain y where "dh_vars st v = None" "dh_vars st w = Some y" by auto
    with XmlCopy dom_inv_copy [OF inv, of v w y] small put [of v] show ?thesis by fastforce
  next
    case (XmlDestroy v)
    with op obtain y where "dh_vars st v = Some y" by auto
    with XmlDestroy dom_inv_destroy [OF inv, of v y] small del [of v] show ?thesis by fastforce
  next
    case (XmlAssign v w)
    with op obtain y z where y: "dh_vars st v = Some y" and z: "dh_vars st w = Some z" and "v \<noteq> w" by auto
    obtain st1 where st1: "xml_destroy v st = Inr st1" "dom_inv st1" "dh_vars st1 = (dh_vars st)(v := None)"
      using dom_inv_destroy [OF inv y] small by auto
    then have "dh_vars st1 v = None" "dh_vars st1 w = Some z" "card (dom (dh_vars st1)) + 1 < 2 ^ 32"
      using z \<open>v \<noteq> w\<close> del [of v] small by auto
    from dom_inv_copy [OF st1(2) this] obtain st2 where
      st2: "xml_copy v w st1 = Inr st2" "dom_inv st2" "dh_vars st2 = (dh_vars st1)(v \<mapsto> z)" by blast
    have "xml_step parse x st = Inr st2"
      by (simp add: XmlAssign xml_assign_eq [OF inv y \<open>v \<noteq> w\<close>] st1(1) st2(1))
    moreover have "dh_vars st2 = (dh_vars st)(v \<mapsto> z)" using st2(3) st1(3) by simp
    ultimately show ?thesis using st2(2) put [of v] by metis
  qed
qed

lemma xml_run_inv:
  assumes "dom_inv st" and "xml_run_scoped parse xs st" and "card (dom (dh_vars st)) + length xs < 2 ^ 32"
  shows "\<exists>st'. fold_res (xml_step parse) xs st = Inr st' \<and> dom_inv st'"
  using assms
proof (induction xs arbitrary: st)
  case (Cons x xs)
  then obtain st1 where st1: "xml_step parse x st = Inr st1" "dom_inv st1"
    "card (dom (dh_vars st1)) \<le> card (dom (dh_vars st)) + 1"
    using xml_step_inv [of st parse x] by auto
  with Cons show ?case by auto
qed simp

lemma dom_inv_init: "dom_inv dom_heap_empty"
  by (rule dom_invI) (simp_all add: dom_heap_empty_def)

section \<open>Properties\<close>

text \<open>
  C33: The shared documents are managed correctly: any sequence of constructions, copies, assignments and
  destructions by one thread, with parseable texts and no variable assigned to itself, runs without
  touching freed memory; at every end a document exists exactly if a variable refers to it, and every
  counter holds the number of variables that refer to it. In particular, once all variables are destroyed
  nothing is left.
\<close>

theorem xml_handles_are_counted:
  assumes "xml_run_scoped parse xs dom_heap_empty" and "length xs < 2 ^ 32"
  shows "\<exists>st. fold_res (xml_step parse) xs dom_heap_empty = Inr st \<and>
    (\<forall>d. dh_docs st d \<noteq> None \<longleftrightarrow> d \<noteq> 0 \<and> (\<exists>v x. dh_vars st v = Some x \<and> xd_document x = d)) \<and>
    (\<forall>c n. dh_counts st c = Some n \<longrightarrow> unat n = card {v. \<exists>x. dh_vars st v = Some x \<and> xd_count x = c}) \<and>
    (dh_vars st = (\<lambda>_. None) \<longrightarrow> dh_counts st = (\<lambda>_. None) \<and> dh_docs st = (\<lambda>_. None))"
proof -
  obtain st where run: "fold_res (xml_step parse) xs dom_heap_empty = Inr st" and inv: "dom_inv st"
    using xml_run_inv [OF dom_inv_init assms(1)] assms(2) by (auto simp: dom_heap_empty_def)
  note D = dom_invD [OF inv]
  have "dh_docs st d \<noteq> None \<longleftrightarrow> d \<noteq> 0 \<and> (\<exists>v x. dh_vars st v = Some x \<and> xd_document x = d)" for d
    using D(6) [of d] D(2,3) by metis
  moreover have "unat n = card {v. \<exists>x. dh_vars st v = Some x \<and> xd_count x = c}" if "dh_counts st c = Some n" for c n
    using D(5) [OF that] by (simp add: refs_def)
  moreover have "dh_counts st = (\<lambda>_. None) \<and> dh_docs st = (\<lambda>_. None)" if "dh_vars st = (\<lambda>_. None)"
  proof
    have "refs c st = {}" for c using that by (simp add: refs_def)
    then have "dh_counts st c = None" for c using D(5) [of c] by (cases "dh_counts st c") auto
    then show "dh_counts st = (\<lambda>_. None)" by blast
    have "dh_docs st d = None" for d using D(6) [of d] that by (cases "dh_docs st d") auto
    then show "dh_docs st = (\<lambda>_. None)" by blast
  qed
  ultimately show ?thesis using run by blast
qed

text \<open>A run with a copy, an assignment over a second document, and the destruction of both.\<close>

abbreviation sample_parse :: "string \<Rightarrow> xml_node option" where
  "sample_parse \<equiv> \<lambda>t. Some (XmlNode '''' t [])"

theorem xml_handles_are_counted_witness:
  "\<exists>st. fold_res (xml_step sample_parse)
      [XmlParse 1 ''a'' 8 16, XmlParse 2 ''b'' 24 32, XmlCopy 3 1, XmlAssign 2 3, XmlDestroy 1] dom_heap_empty =
      Inr st \<and> dh_docs st 32 = None \<and> dh_docs st 16 \<noteq> None"
proof -
  let ?xs = "[XmlParse 1 ''a'' 8 16, XmlParse 2 ''b'' 24 32, XmlCopy 3 1, XmlAssign 2 3, XmlDestroy 1]"
  have scoped: "xml_run_scoped sample_parse ?xs dom_heap_empty"
    by (simp add: dom_heap_empty_def xml_parse_def xml_copy_def xml_assign_def xml_destroy_def get_var_def
        set_var_def counter_add_def drop_ref_def delete_if_zero_def)
  have "\<exists>st. fold_res (xml_step sample_parse) ?xs dom_heap_empty = Inr st \<and> dh_vars st 2 =
      Some \<lparr>xd_count = 8, xd_document = 16\<rparr> \<and> dh_docs st 32 = None"
    by (simp add: dom_heap_empty_def xml_parse_def xml_copy_def xml_assign_def xml_destroy_def get_var_def
        set_var_def counter_add_def drop_ref_def delete_if_zero_def)
  with xml_handles_are_counted [OF scoped] show ?thesis by fastforce
qed

text \<open>
  In every state such a program reaches, the assignment of one variable to another does what
  destroying the one and constructing it as a copy of the other does.
\<close>

lemma xml_assignment_is_destroy_and_copy:
  assumes "xml_run_scoped parse xs dom_heap_empty" and "length xs < 2 ^ 32"
    and "fold_res (xml_step parse) xs dom_heap_empty = Inr st" and "dh_vars st v = Some x" and "v \<noteq> w"
  shows "xml_assign v w st = res_bind (xml_destroy v st) (xml_copy v w)"
proof -
  have "dom_inv st"
    using xml_run_inv [OF dom_inv_init assms(1)] assms(2,3) by (auto simp: dom_heap_empty_def)
  then show ?thesis using assms(4,5) by (rule xml_assign_eq)
qed

lemmas xml_run_defs = dom_heap_empty_def xml_parse_def xml_copy_def xml_assign_def xml_destroy_def get_var_def
  set_var_def counter_add_def drop_ref_def delete_if_zero_def

lemma xml_assignment_is_destroy_and_copy_witness:
  "\<exists>st. fold_res (xml_step sample_parse) [XmlParse 1 ''a'' 8 16, XmlParse 2 ''b'' 24 32] dom_heap_empty = Inr st \<and>
    xml_assign 1 2 st = res_bind (xml_destroy 1 st) (xml_copy 1 2)"
proof -
  let ?xs = "[XmlParse 1 ''a'' 8 16, XmlParse 2 ''b'' 24 32]"
  have scoped: "xml_run_scoped sample_parse ?xs dom_heap_empty" by (simp add: xml_run_defs)
  obtain st where run: "fold_res (xml_step sample_parse) ?xs dom_heap_empty = Inr st"
    and "dh_vars st 1 = Some \<lparr>xd_count = 8, xd_document = 16\<rparr>"
    by (simp add: xml_run_defs)
  from xml_assignment_is_destroy_and_copy [OF scoped _ run this(2), of 2] run show ?thesis by auto
qed

text \<open>
  Where the class stops being safe. A variable that is the only one of its document and is assigned to
  itself frees the document and then uses the freed counter; and two threads that destroy the last two
  variables of a document can both decrement before either tests, after which both delete.
\<close>

lemma xml_handle_hazards:
  assumes "dom_inv st" and "dh_vars st v = Some x" and "xd_count x \<noteq> 0"
  shows "(refs (xd_count x) st = {v} \<longrightarrow> xml_assign v v st = Inl UseAfterFree) \<and>
    (v \<noteq> w \<and> refs (xd_count x) st = {v, w} \<longrightarrow>
      res_bind (counter_add (xd_count x) (- 1) st) (\<lambda>st.
      res_bind (counter_add (xd_count x) (- 1) st) (\<lambda>st.
      res_bind (delete_if_zero x st) (delete_if_zero x))) = Inl UseAfterFree)"
proof -
  note D = dom_invD [OF assms(1)]
  obtain n t where n: "dh_counts st (xd_count x) = Some n" and t: "dh_docs st (xd_document x) = Some t"
    using D(3) [OF assms(2,3)] by blast
  have card: "unat n = card (refs (xd_count x) st)" using D(5) [OF n] by blast
  have doc: "xd_document x \<noteq> 0" using D(2) [OF assms(2)] assms(3) by blast
  have one: "xml_assign v v st = Inl UseAfterFree" if "refs (xd_count x) st = {v}"
  proof -
    have "unat n = unat (1 :: u32)" using card that by simp
    then have "n = 1" by (rule unsigned_word_eqI)
    then show ?thesis
      using assms(3) doc
      by (simp add: xml_assign_def get_var_def assms(2) drop_ref_def counter_add_def n delete_if_zero_def t set_var_def)
  qed
  have two: "res_bind (counter_add (xd_count x) (- 1) st) (\<lambda>st.
      res_bind (counter_add (xd_count x) (- 1) st) (\<lambda>st.
      res_bind (delete_if_zero x st) (delete_if_zero x))) = Inl UseAfterFree"
    if "v \<noteq> w" "refs (xd_count x) st = {v, w}"
  proof -
    have "unat n = unat (2 :: u32)" using card that by simp
    then have "n = 2" by (rule unsigned_word_eqI)
    then show ?thesis by (simp add: counter_add_def n delete_if_zero_def t)
  qed
  from one two show ?thesis by blast
qed

lemma xml_handle_hazards_witness:
  "\<exists>st. fold_res (xml_step sample_parse) [XmlParse 1 ''a'' 8 16] dom_heap_empty = Inr st \<and>
    xml_assign 1 1 st = Inl UseAfterFree"
proof -
  let ?xs = "[XmlParse 1 ''a'' 8 16]"
  obtain st where run: "fold_res (xml_step sample_parse) ?xs dom_heap_empty = Inr st"
    and x: "dh_vars st 1 = Some \<lparr>xd_count = 8, xd_document = 16\<rparr>" and "refs 8 st = {1}"
    by (auto simp: xml_run_defs refs_def)
  have "xml_run_scoped sample_parse ?xs dom_heap_empty" by (simp add: xml_run_defs)
  then have "dom_inv st" using xml_run_inv [OF dom_inv_init, of sample_parse ?xs] run
    by (auto simp: dom_heap_empty_def)
  from xml_handle_hazards [OF this x, of 2] \<open>refs 8 st = {1}\<close> run show ?thesis by simp
qed

end
