(* ===== verification/ThreadLifecycle.thy ===== *)
theory ThreadLifecycle
  imports Prelude
begin

text \<open>
  The start and the end of the program's threads. \<open>LocalServer\<close>, \<open>BtPhysics\<close>, \<open>GlLoader\<close> and \<open>AlAudio\<close> each
  start a thread in their constructor, wait for it under \<open>m_status_mutex\<close> and \<open>m_status_cond\<close> until it has
  set \<open>m_running\<close>, and later wait in the same way until it has cleared it. Here the two threads are lists
  of instructions that interleave; the sections under the mutex are single steps, as nothing inside them
  blocks but the wait, which gives the mutex up. What the threads compute is a parameter.
\<close>

section \<open>Instructions and state\<close>

text \<open>
  The worker computes, stores to \<open>m_running\<close> under the mutex, notifies, and loops: the body gets the value
  of the request to stop and returns whether to go on.
\<close>

datatype 's worker_instr =
    Work "'s \<Rightarrow> fault + 's"
  | SetRunning bool
  | NotifyAll
  | Loop "bool \<Rightarrow> 's \<Rightarrow> fault + (bool \<times> 's)"

text \<open>
  The owner waits until \<open>m_running\<close> has a value, asks the thread to stop, and deletes the object.
\<close>

datatype owner_instr = Await bool | PutFinish | Delete

text \<open>
  \<open>lf_finish\<close> is the request to stop: \<open>m_finish\<close>, or for \<open>LocalServer\<close> that a shutdown message has been
  pushed. \<open>lf_asleep\<close> says that the owner sleeps in \<open>m_status_cond.wait\<close>, \<open>lf_alive\<close> that the object has
  not been deleted.
\<close>

record 's life =
  lf_running :: bool
  lf_finish :: bool
  lf_asleep :: bool
  lf_alive :: bool
  lf_owner :: "owner_instr list"
  lf_worker :: "'s worker_instr list"
  lf_data :: 's

section \<open>Steps\<close>

fun owner_step :: "'s life \<Rightarrow> 's life option" where
  "owner_step l =
     (case lf_owner l of
        [] \<Rightarrow> None
      | Await b # os \<Rightarrow>
          if lf_asleep l then None
          else if lf_running l = b then Some (l\<lparr>lf_owner := os\<rparr>)
          else Some (l\<lparr>lf_asleep := True\<rparr>)
      | PutFinish # os \<Rightarrow> Some (l\<lparr>lf_finish := True, lf_owner := os\<rparr>)
      | Delete # os \<Rightarrow> Some (l\<lparr>lf_alive := False, lf_owner := os\<rparr>))"

text \<open>Every use of a member by the worker needs the object.\<close>

fun worker_step :: "'s life \<Rightarrow> (fault + 's life) option" where
  "worker_step l =
     (case lf_worker l of
        [] \<Rightarrow> None
      | Work f # ws \<Rightarrow>
          Some (res_bind (f (lf_data l)) (\<lambda>d. Inr (l\<lparr>lf_data := d, lf_worker := ws\<rparr>)))
      | SetRunning b # ws \<Rightarrow>
          Some (if lf_alive l then Inr (l\<lparr>lf_running := b, lf_worker := ws\<rparr>) else Inl UseAfterFree)
      | NotifyAll # ws \<Rightarrow>
          Some (if lf_alive l then Inr (l\<lparr>lf_asleep := False, lf_worker := ws\<rparr>) else Inl UseAfterFree)
      | Loop body # ws \<Rightarrow>
          Some (if lf_alive l
            then res_bind (body (lf_finish l) (lf_data l)) (\<lambda>(go, d).
              Inr (l\<lparr>lf_data := d, lf_worker := if go then lf_worker l else ws\<rparr>))
            else Inl UseAfterFree))"

text \<open>
  The states two threads reach. A wait may also return without a notification, and once the object is
  constructed others may ask for the stop.
\<close>

inductive life_reach :: "'s life \<Rightarrow> 's life \<Rightarrow> bool" for start where
  start: "life_reach start start"
| owner: "life_reach start l \<Longrightarrow> owner_step l = Some l' \<Longrightarrow> life_reach start l'"
| worker: "life_reach start l \<Longrightarrow> worker_step l = Some (Inr l') \<Longrightarrow> life_reach start l'"
| spurious: "life_reach start l \<Longrightarrow> life_reach start (l\<lparr>lf_asleep := False\<rparr>)"
| request: "life_reach start l \<Longrightarrow> Await True \<notin> set (lf_owner l) \<Longrightarrow> life_reach start (l\<lparr>lf_finish := True\<rparr>)"

text \<open>A run given by who moves: the worker or the owner.\<close>

datatype mover = Worker | Owner

fun schedule :: "mover list \<Rightarrow> 's life \<Rightarrow> 's life option" where
  "schedule [] l = Some l"
| "schedule (Worker # ms) l = (case worker_step l of Some (Inr l') \<Rightarrow> schedule ms l' | _ \<Rightarrow> None)"
| "schedule (Owner # ms) l = (case owner_step l of Some l' \<Rightarrow> schedule ms l' | None \<Rightarrow> None)"

lemma schedule_reach: "schedule ms l = Some l' \<Longrightarrow> life_reach start l \<Longrightarrow> life_reach start l'"
  by (induction ms l rule: schedule.induct)
    (auto intro: life_reach.intros simp del: worker_step.simps owner_step.simps split: option.splits sum.splits)

section \<open>The four classes\<close>

text \<open>\<open>while(!m_finish) body\<close>.\<close>

definition until_finish :: "('s \<Rightarrow> fault + 's) \<Rightarrow> bool \<Rightarrow> 's \<Rightarrow> fault + (bool \<times> 's)" where
  "until_finish body fin d = (if fin then Inr (False, d) else res_bind (body d) (\<lambda>d. Inr (True, d)))"

text \<open>The state after the assignments of a constructor, with its thread launched.\<close>

definition launched :: "owner_instr list \<Rightarrow> 's worker_instr list \<Rightarrow> 's \<Rightarrow> 's life" where
  "launched os ws d =
     \<lparr>lf_running = False, lf_finish = False, lf_asleep = False, lf_alive = True,
      lf_owner = os, lf_worker = ws, lf_data = d\<rparr>"

definition bt_ctor :: "owner_instr list" where "bt_ctor = [Await True]"
definition bt_finish :: "owner_instr list" where "bt_finish = [PutFinish, Await False]"

definition bt_run :: "('s \<Rightarrow> fault + 's) \<Rightarrow> ('s \<Rightarrow> fault + 's) \<Rightarrow> ('s \<Rightarrow> fault + 's) \<Rightarrow> 's worker_instr list" where
  "bt_run create tick destroy =
     [Work create, SetRunning True, NotifyAll, Loop (until_finish tick), Work destroy, SetRunning False, NotifyAll]"

definition gl_ctor :: "owner_instr list" where "gl_ctor = [Await True]"
definition gl_finish :: "owner_instr list" where "gl_finish = [PutFinish, Await False]"

definition gl_run :: "('s \<Rightarrow> fault + 's) \<Rightarrow> ('s \<Rightarrow> fault + 's) \<Rightarrow> 's worker_instr list" where
  "gl_run initializePlatform finalizePlatform =
     [Work initializePlatform, SetRunning True, NotifyAll, Loop (until_finish Inr), Work finalizePlatform,
      SetRunning False, NotifyAll]"

definition al_ctor :: "owner_instr list" where "al_ctor = [Await True]"
definition al_finish :: "owner_instr list" where "al_finish = [PutFinish, Await False]"

definition al_run :: "('s \<Rightarrow> fault + 's) \<Rightarrow> ('s \<Rightarrow> fault + 's) \<Rightarrow> ('s \<Rightarrow> fault + 's) \<Rightarrow> ('s \<Rightarrow> fault + 's) \<Rightarrow>
    's worker_instr list" where
  "al_run open_device update_streams delete_streams close_device =
     [Work open_device, SetRunning True, NotifyAll, Loop (until_finish update_streams), Work delete_streams,
      Work close_device, SetRunning False, NotifyAll]"

definition server_ctor :: "owner_instr list" where "server_ctor = [Await True]"
definition waitForTermination :: "owner_instr list" where "waitForTermination = [Await False]"

text \<open>The loop of the server ends when it takes a shutdown message, so when there is one it ends in time.\<close>

definition server_run :: "('s \<Rightarrow> fault + 's) \<Rightarrow> ('s \<Rightarrow> fault + 's) \<Rightarrow> ('s \<Rightarrow> fault + 's) \<Rightarrow> ('s \<Rightarrow> fault + 's) \<Rightarrow>
    ('s \<Rightarrow> fault + 's) \<Rightarrow> 's worker_instr list" where
  "server_run new_physics loadWorld serve finish_physics close_clients =
     [Work new_physics, SetRunning True, NotifyAll, Work loadWorld, Loop (until_finish serve),
      Work finish_physics, Work close_clients, SetRunning False, NotifyAll]"

section \<open>Invariant\<close>

fun is_work :: "'s worker_instr \<Rightarrow> bool" where
  "is_work (Work f) = True"
| "is_work _ = False"

text \<open>How far the worker is: \<open>m1\<close> and \<open>m2\<close> are the work before and after the loop.\<close>

definition worker_at :: "'s worker_instr list \<Rightarrow> ('s \<Rightarrow> fault + 's) \<Rightarrow> 's worker_instr list \<Rightarrow> nat \<Rightarrow>
    's worker_instr list \<Rightarrow> bool" where
  "worker_at m1 body m2 k w \<longleftrightarrow>
     (let stop = [SetRunning False, NotifyAll]; serve = Loop (until_finish body) # m2 @ stop in
      (k = 0 \<and> (\<exists>p. list_all is_work p \<and> w = p @ SetRunning True # NotifyAll # m1 @ serve)) \<or>
      (k = 1 \<and> w = NotifyAll # m1 @ serve) \<or>
      (k = 2 \<and> (\<exists>p. list_all is_work p \<and> w = p @ serve)) \<or>
      (k = 3 \<and> (\<exists>p. list_all is_work p \<and> w = p @ stop)) \<or>
      (k = 4 \<and> w = [NotifyAll]) \<or> (k = 5 \<and> w = []))"

text \<open>How far the owner is.\<close>

definition owner_at :: "owner_instr list \<Rightarrow> nat \<Rightarrow> owner_instr list \<Rightarrow> bool" where
  "owner_at req k os \<longleftrightarrow>
     (k = 0 \<and> os = Await True # req @ [Await False, Delete]) \<or>
     (k = 1 \<and> os = [PutFinish, Await False, Delete] \<and> req = [PutFinish]) \<or>
     (k = 2 \<and> os = [Await False, Delete]) \<or> (k = 3 \<and> os = [Delete]) \<or> (k = 4 \<and> os = [])"

text \<open>Which positions go together, and what the flags are there.\<close>

definition life_inv :: "owner_instr list \<Rightarrow> 's worker_instr list \<Rightarrow> ('s \<Rightarrow> fault + 's) \<Rightarrow> 's worker_instr list \<Rightarrow>
    's life \<Rightarrow> bool" where
  "life_inv req m1 body m2 l \<longleftrightarrow>
     (\<exists>i j. worker_at m1 body m2 i (lf_worker l) \<and> owner_at req j (lf_owner l) \<and>
       lf_alive l = (j \<noteq> 4) \<and> lf_running l = (i \<in> {1, 2, 3}) \<and>
       (i = 0 \<longrightarrow> j = 0) \<and> (i \<in> {1, 2, 3} \<longrightarrow> j \<in> {0, 1, 2}) \<and> (3 \<le> i \<longrightarrow> lf_finish l) \<and>
       (lf_finish l \<longrightarrow> j \<noteq> 0) \<and>
       (lf_asleep l \<longrightarrow> (j = 0 \<and> i \<le> 1) \<or> (j = 2 \<and> i \<le> 4)))"

lemma life_invI:
  "worker_at m1 body m2 i (lf_worker l) \<Longrightarrow> owner_at req j (lf_owner l) \<Longrightarrow>
    lf_alive l = (j \<noteq> 4) \<Longrightarrow> lf_running l = (i \<in> {1, 2, 3}) \<Longrightarrow>
    (i = 0 \<longrightarrow> j = 0) \<Longrightarrow> (i \<in> {1, 2, 3} \<longrightarrow> j \<in> {0, 1, 2}) \<Longrightarrow> (3 \<le> i \<longrightarrow> lf_finish l) \<Longrightarrow>
    (lf_finish l \<longrightarrow> j \<noteq> 0) \<Longrightarrow> (lf_asleep l \<longrightarrow> (j = 0 \<and> i \<le> 1) \<or> (j = 2 \<and> i \<le> 4)) \<Longrightarrow>
    life_inv req m1 body m2 l"
  unfolding life_inv_def by (intro exI [of _ i] exI [of _ j] conjI)

lemma life_invE:
  assumes "life_inv req m1 body m2 l"
  obtains i j where "worker_at m1 body m2 i (lf_worker l)" and "owner_at req j (lf_owner l)"
    and "lf_alive l = (j \<noteq> 4)" and "lf_running l = (i \<in> {1, 2, 3})" and "i = 0 \<longrightarrow> j = 0"
    and "i \<in> {1, 2, 3} \<longrightarrow> j \<in> {0, 1, 2}" and "3 \<le> i \<longrightarrow> lf_finish l" and "lf_finish l \<longrightarrow> j \<noteq> 0"
    and "lf_asleep l \<longrightarrow> (j = 0 \<and> i \<le> 1) \<or> (j = 2 \<and> i \<le> 4)"
  using assms unfolding life_inv_def by (elim exE conjE) (rule that)

lemma owner_at_moves:
  assumes "owner_at req j os" and "req = [] \<or> req = [PutFinish]"
  shows "(j = 0 \<and> (\<exists>os'. os = Await True # os' \<and> owner_at req (if req = [] then 2 else 1) os')) \<or>
    (j = 1 \<and> (\<exists>os'. os = PutFinish # os' \<and> owner_at req 2 os')) \<or>
    (j = 2 \<and> (\<exists>os'. os = Await False # os' \<and> owner_at req 3 os')) \<or>
    (j = 3 \<and> (\<exists>os'. os = Delete # os' \<and> owner_at req 4 os')) \<or> (j = 4 \<and> os = [])"
  using assms by (auto simp: owner_at_def)

lemma worker_at_moves:
  assumes "worker_at m1 body m2 i w" and "list_all is_work m1" and "list_all is_work m2"
  shows "(i = 5 \<and> w = []) \<or>
    (\<exists>f ws. w = Work f # ws \<and> i \<in> {0, 2, 3} \<and> worker_at m1 body m2 i ws) \<or>
    (\<exists>ws. w = SetRunning True # ws \<and> i = 0 \<and> worker_at m1 body m2 1 ws) \<or>
    (\<exists>ws. w = NotifyAll # ws \<and> i = 1 \<and> worker_at m1 body m2 2 ws) \<or>
    (\<exists>ws. w = Loop (until_finish body) # ws \<and> i = 2 \<and> worker_at m1 body m2 3 ws) \<or>
    (\<exists>ws. w = SetRunning False # ws \<and> i = 3 \<and> worker_at m1 body m2 4 ws) \<or>
    (\<exists>ws. w = NotifyAll # ws \<and> i = 4 \<and> worker_at m1 body m2 5 ws)"
proof -
  have split: "(\<exists>f q. p = Work f # q \<and> list_all is_work q) \<or> p = []" if "list_all is_work p"
    for p :: "'a worker_instr list"
    using that by (cases p) (auto elim: is_work.elims)
  consider "i = 0" | "i = 1" | "i = 2" | "i = 3" | "i = 4" | "i = 5"
    using assms(1) by (auto simp: worker_at_def Let_def)
  then show ?thesis
  proof cases
    case 1
    with assms(1) obtain p where "list_all is_work p" "w = p @ SetRunning True # NotifyAll # m1 @
        Loop (until_finish body) # m2 @ [SetRunning False, NotifyAll]"
      by (auto simp: worker_at_def Let_def)
    with 1 split [of p] show ?thesis by (auto simp: worker_at_def Let_def)
  next
    case 2
    with assms show ?thesis by (auto simp: worker_at_def Let_def)
  next
    case 3
    with assms(1) obtain p where "list_all is_work p" "w = p @
        Loop (until_finish body) # m2 @ [SetRunning False, NotifyAll]"
      by (auto simp: worker_at_def Let_def)
    with 3 assms(3) split [of p] show ?thesis by (auto simp: worker_at_def Let_def)
  next
    case 4
    with assms(1) obtain p where "list_all is_work p" "w = p @ [SetRunning False, NotifyAll]"
      by (auto simp: worker_at_def Let_def)
    with 4 split [of p] show ?thesis by (auto simp: worker_at_def Let_def)
  qed (use assms in \<open>auto simp: worker_at_def Let_def\<close>)
qed

text \<open>
  The contract of a managed thread: its worker is ready before it announces itself, loops until it is
  asked to stop, and announces its end last; its owner waits for the first announcement and, after asking,
  for the second.
\<close>

locale managed_thread =
  fixes os :: "owner_instr list" and ws :: "'s worker_instr list"
    and req :: "owner_instr list" and m0 m1 m2 :: "'s worker_instr list" and body :: "'s \<Rightarrow> fault + 's"
  assumes owner_shape: "os = [Await True] @ req @ [Await False, Delete]"
    and request_shape: "req = [] \<or> req = [PutFinish]"
    and worker_shape: "ws = m0 @ [SetRunning True, NotifyAll] @ m1 @ [Loop (until_finish body)] @ m2 @
      [SetRunning False, NotifyAll]"
    and works: "list_all is_work m0" "list_all is_work m1" "list_all is_work m2"
begin

lemma inv_start: "life_inv req m1 body m2 (launched os ws d)"
  using works(1)
  by (intro life_invI [where i = 0 and j = 0])
    (auto simp: launched_def worker_at_def owner_at_def owner_shape worker_shape Let_def)

lemma inv_owner:
  assumes "life_inv req m1 body m2 l" and step: "owner_step l = Some l'"
  shows "life_inv req m1 body m2 l'"
proof -
  from assms(1) obtain i j where w: "worker_at m1 body m2 i (lf_worker l)" and o: "owner_at req j (lf_owner l)"
    and *: "lf_alive l = (j \<noteq> 4)" "lf_running l = (i \<in> {1, 2, 3})" "i = 0 \<longrightarrow> j = 0"
      "i \<in> {1, 2, 3} \<longrightarrow> j \<in> {0, 1, 2}" "3 \<le> i \<longrightarrow> lf_finish l" "lf_finish l \<longrightarrow> j \<noteq> 0"
      "lf_asleep l \<longrightarrow> (j = 0 \<and> i \<le> 1) \<or> (j = 2 \<and> i \<le> 4)"
    by (rule life_invE)
  from owner_at_moves [OF o request_shape]
  consider (ctor) os' where "j = 0" "lf_owner l = Await True # os'" "owner_at req (if req = [] then 2 else 1) os'"
    | (ask) os' where "j = 1" "lf_owner l = PutFinish # os'" "owner_at req 2 os'"
    | (await) os' where "j = 2" "lf_owner l = Await False # os'" "owner_at req 3 os'"
    | (del) os' where "j = 3" "lf_owner l = Delete # os'" "owner_at req 4 os'"
    | (ended) "j = 4" "lf_owner l = []"
    by blast
  then show ?thesis
  proof cases
    case ctor
    show ?thesis
    proof (cases "lf_running l")
      case True
      with ctor step have l': "l' = l\<lparr>lf_owner := os'\<rparr>" "\<not> lf_asleep l" by (auto split: if_splits)
      with ctor w True * show ?thesis
        by (intro life_invI [where i = i and j = "if req = [] then 2 else 1"]) auto
    next
      case False
      with ctor step have l': "l' = l\<lparr>lf_asleep := True\<rparr>" by (auto split: if_splits)
      have "i = 0" using * ctor(1) False w by (auto simp: worker_at_def Let_def)
      with ctor o w False * l' show ?thesis
        by (intro life_invI [where i = i and j = j]) auto
    qed
  next
    case ask
    with step have "l' = l\<lparr>lf_finish := True, lf_owner := os'\<rparr>" by auto
    with ask w * show ?thesis by (intro life_invI [where i = i and j = 2]) auto
  next
    case await
    show ?thesis
    proof (cases "lf_running l")
      case False
      with await step have l': "l' = l\<lparr>lf_owner := os'\<rparr>" "\<not> lf_asleep l" by (auto split: if_splits)
      with await w False * show ?thesis by (intro life_invI [where i = i and j = 3]) auto
    next
      case True
      with await step have l': "l' = l\<lparr>lf_asleep := True\<rparr>" by (auto split: if_splits)
      with await o w True * show ?thesis by (intro life_invI [where i = i and j = j]) auto
    qed
  next
    case del
    with step have l': "l' = l\<lparr>lf_alive := False, lf_owner := os'\<rparr>" by auto
    with del w * show ?thesis by (intro life_invI [where i = i and j = 4]) auto
  qed (use step in simp)
qed

lemma inv_worker:
  assumes "life_inv req m1 body m2 l" and step: "worker_step l = Some (Inr l')"
  shows "life_inv req m1 body m2 l'"
proof -
  from assms(1) obtain i j where w: "worker_at m1 body m2 i (lf_worker l)" and o: "owner_at req j (lf_owner l)"
    and *: "lf_alive l = (j \<noteq> 4)" "lf_running l = (i \<in> {1, 2, 3})" "i = 0 \<longrightarrow> j = 0"
      "i \<in> {1, 2, 3} \<longrightarrow> j \<in> {0, 1, 2}" "3 \<le> i \<longrightarrow> lf_finish l" "lf_finish l \<longrightarrow> j \<noteq> 0"
      "lf_asleep l \<longrightarrow> (j = 0 \<and> i \<le> 1) \<or> (j = 2 \<and> i \<le> 4)"
    by (rule life_invE)
  from worker_at_moves [OF w works(2,3)]
  consider (ended) "lf_worker l = []"
    | (work) f ws' where "lf_worker l = Work f # ws'" "worker_at m1 body m2 i ws'"
    | (up) ws' where "lf_worker l = SetRunning True # ws'" "i = 0" "worker_at m1 body m2 1 ws'"
    | (tell) ws' where "lf_worker l = NotifyAll # ws'" "i = 1" "worker_at m1 body m2 2 ws'"
    | (loop) ws' where "lf_worker l = Loop (until_finish body) # ws'" "i = 2" "worker_at m1 body m2 3 ws'"
    | (down) ws' where "lf_worker l = SetRunning False # ws'" "i = 3" "worker_at m1 body m2 4 ws'"
    | (tell_end) ws' where "lf_worker l = NotifyAll # ws'" "i = 4" "worker_at m1 body m2 5 ws'"
    by blast
  then show ?thesis
  proof cases
    case work
    with step obtain d where "l' = l\<lparr>lf_data := d, lf_worker := ws'\<rparr>" by (auto simp: res_bind_eq_Inr)
    with work o * show ?thesis by (intro life_invI [where i = i and j = j]) auto
  next
    case up
    with step have "l' = l\<lparr>lf_running := True, lf_worker := ws'\<rparr>" by (auto split: if_splits)
    with up o * show ?thesis by (intro life_invI [where i = 1 and j = j]) auto
  next
    case tell
    with step have "l' = l\<lparr>lf_asleep := False, lf_worker := ws'\<rparr>" by (auto split: if_splits)
    with tell o * show ?thesis by (intro life_invI [where i = 2 and j = j]) auto
  next
    case loop
    show ?thesis
    proof (cases "lf_finish l")
      case True
      with loop step have "l' = l\<lparr>lf_worker := ws'\<rparr>" by (auto simp: until_finish_def split: if_splits)
      with loop o * True show ?thesis by (intro life_invI [where i = 3 and j = j]) auto
    next
      case False
      with loop step obtain d where "l' = l\<lparr>lf_data := d, lf_worker := lf_worker l\<rparr>"
        by (cases "lf_alive l"; cases "body (lf_data l)"; auto simp: until_finish_def)
      with w o * show ?thesis by (intro life_invI [where i = i and j = j]) auto
    qed
  next
    case down
    with step have "l' = l\<lparr>lf_running := False, lf_worker := ws'\<rparr>" by (auto split: if_splits)
    with down o * show ?thesis by (intro life_invI [where i = 4 and j = j]) auto
  next
    case tell_end
    with step have "l' = l\<lparr>lf_asleep := False, lf_worker := ws'\<rparr>" by (auto split: if_splits)
    with tell_end o * show ?thesis by (intro life_invI [where i = 5 and j = j]) auto
  qed (use step in simp)
qed

lemma inv_reach:
  assumes "life_reach (launched os ws d) l"
  shows "life_inv req m1 body m2 l"
  using assms
proof induction
  case (spurious l)
  from spurious.IH obtain i j where "worker_at m1 body m2 i (lf_worker l)" "owner_at req j (lf_owner l)"
    "lf_alive l = (j \<noteq> 4)" "lf_running l = (i \<in> {1, 2, 3})" "i = 0 \<longrightarrow> j = 0"
    "i \<in> {1, 2, 3} \<longrightarrow> j \<in> {0, 1, 2}" "3 \<le> i \<longrightarrow> lf_finish l" "lf_finish l \<longrightarrow> j \<noteq> 0"
    by (rule life_invE)
  then show ?case by (intro life_invI [where i = i and j = j]) auto
next
  case (request l)
  from request.IH obtain i j where "worker_at m1 body m2 i (lf_worker l)" and o: "owner_at req j (lf_owner l)"
    and "lf_alive l = (j \<noteq> 4)" "lf_running l = (i \<in> {1, 2, 3})" "i = 0 \<longrightarrow> j = 0"
    "i \<in> {1, 2, 3} \<longrightarrow> j \<in> {0, 1, 2}" "lf_asleep l \<longrightarrow> (j = 0 \<and> i \<le> 1) \<or> (j = 2 \<and> i \<le> 4)"
    by (rule life_invE)
  moreover have "j \<noteq> 0" using o request.hyps(2) by (auto simp: owner_at_def)
  ultimately show ?case by (intro life_invI [where i = i and j = j]) auto
qed (auto intro: inv_start inv_owner inv_worker)

end

text \<open>
  What holds in a state: the constructor has returned only if the thread has announced itself; the wait
  for the end has returned only if nothing but the last notification is left of the thread, and so has the
  object been deleted; a sleeping owner still has a notification to come.
\<close>

definition handshake_ok :: "'s life \<Rightarrow> bool" where
  "handshake_ok l \<longleftrightarrow>
     (Await True \<notin> set (lf_owner l) \<longrightarrow> SetRunning True \<notin> set (lf_worker l)) \<and>
     (Await False \<notin> set (lf_owner l) \<longrightarrow> lf_worker l \<in> {[NotifyAll], []}) \<and>
     (\<not> lf_alive l \<longrightarrow> lf_worker l \<in> {[NotifyAll], []}) \<and>
     (lf_asleep l \<longrightarrow> NotifyAll \<in> set (lf_worker l))"

context managed_thread
begin

lemma reach_positions:
  assumes "life_reach (launched os ws d) l"
  obtains i j where "worker_at m1 body m2 i (lf_worker l)" and "owner_at req j (lf_owner l)"
    and "lf_alive l = (j \<noteq> 4)" and "lf_running l = (i \<in> {1, 2, 3})" and "i = 0 \<longrightarrow> j = 0"
    and "i \<in> {1, 2, 3} \<longrightarrow> j \<in> {0, 1, 2}" and "3 \<le> i \<longrightarrow> lf_finish l" and "lf_finish l \<longrightarrow> j \<noteq> 0"
    and "lf_asleep l \<longrightarrow> (j = 0 \<and> i \<le> 1) \<or> (j = 2 \<and> i \<le> 4)"
  using inv_reach [OF assms] by (rule life_invE) (rule that)

lemma work_only: "SetRunning b \<notin> set m1" "SetRunning b \<notin> set m2"
  using works by (auto simp: list_all_iff)

lemma constructor_waits:
  assumes "life_reach (launched os ws d) l" and "Await True \<notin> set (lf_owner l)"
  shows "SetRunning True \<notin> set (lf_worker l)"
proof -
  obtain i j where w: "worker_at m1 body m2 i (lf_worker l)" and "owner_at req j (lf_owner l)" "i = 0 \<longrightarrow> j = 0"
    using assms(1) by (rule reach_positions) (rule that)
  with assms(2) have "i \<noteq> 0" by (auto simp: owner_at_def)
  moreover have "SetRunning True \<notin> set p" if "list_all is_work p" for p :: "'s worker_instr list"
    using that by (auto simp: list_all_iff)
  ultimately show ?thesis using w work_only by (auto simp: worker_at_def Let_def)
qed

lemma finish_waits:
  assumes "life_reach (launched os ws d) l" and "Await False \<notin> set (lf_owner l)"
  shows "lf_worker l \<in> {[NotifyAll], []} \<and> \<not> lf_running l"
proof -
  obtain i j where w: "worker_at m1 body m2 i (lf_worker l)" and o: "owner_at req j (lf_owner l)"
    and ij: "lf_running l = (i \<in> {1, 2, 3})" "i = 0 \<longrightarrow> j = 0" "i \<in> {1, 2, 3} \<longrightarrow> j \<in> {0, 1, 2}"
    using assms(1) by (rule reach_positions) (rule that)
  have "j = 3 \<or> j = 4" using o assms(2) by (auto simp: owner_at_def)
  then have "j \<notin> {0, 1, 2}" by force
  with ij have "i \<notin> {0, 1, 2, 3} \<and> \<not> lf_running l" by blast
  with w show ?thesis by (auto simp: worker_at_def Let_def)
qed

lemma no_lost_wakeup:
  assumes "life_reach (launched os ws d) l" and "lf_asleep l"
  shows "NotifyAll \<in> set (lf_worker l)"
proof -
  obtain i and j :: nat where "worker_at m1 body m2 i (lf_worker l)"
    and "lf_asleep l \<longrightarrow> (j = 0 \<and> i \<le> 1) \<or> (j = 2 \<and> i \<le> 4)"
    using assms(1) by (rule reach_positions) (rule that)
  with assms(2) show ?thesis by (auto simp: worker_at_def Let_def)
qed

lemma deletion_is_last:
  assumes "life_reach (launched os ws d) l" and "\<not> lf_alive l"
  shows "lf_worker l \<in> {[NotifyAll], []}"
proof -
  obtain j where "owner_at req j (lf_owner l)" "lf_alive l = (j \<noteq> 4)"
    using assms(1) by (rule reach_positions) (rule that)
  with assms(2) have "Await False \<notin> set (lf_owner l)" by (auto simp: owner_at_def)
  with finish_waits [OF assms(1)] show ?thesis by blast
qed

lemma stops_when_asked:
  assumes "life_reach (launched os ws d) l" and "lf_finish l" and "worker_step l = Some (Inr l')"
  shows "length (lf_worker l') < length (lf_worker l)"
proof -
  obtain i where "worker_at m1 body m2 i (lf_worker l)"
    using assms(1) by (rule reach_positions) (rule that)
  from worker_at_moves [OF this works(2,3)] assms(2,3) show ?thesis
    by (auto simp: res_bind_eq_Inr until_finish_def split: if_splits)
qed

lemma never_stuck:
  assumes "life_reach (launched os ws d) l" and "owner_step l = None" and "worker_step l = None"
  shows "lf_owner l = [] \<and> lf_worker l = []"
proof -
  have w: "lf_worker l = []"
    using assms(3) by (auto split: list.splits worker_instr.splits)
  with no_lost_wakeup [OF assms(1)] have "\<not> lf_asleep l" by auto
  with assms(2) w show ?thesis by (auto split: list.splits owner_instr.splits if_splits)
qed

lemma handshake: "life_reach (launched os ws d) l \<Longrightarrow> handshake_ok l"
  unfolding handshake_ok_def
  using constructor_waits finish_waits deletion_is_last no_lost_wakeup by blast

end

section \<open>The classes keep the contract\<close>

interpretation bt_thread: managed_thread "bt_ctor @ bt_finish @ [Delete]" "bt_run create tick destroy"
    "[PutFinish]" "[Work create]" "[]" "[Work destroy]" tick for create tick destroy
  by unfold_locales (simp_all add: bt_ctor_def bt_finish_def bt_run_def)

interpretation gl_thread: managed_thread "gl_ctor @ gl_finish @ [Delete]" "gl_run ini fin"
    "[PutFinish]" "[Work ini]" "[]" "[Work fin]" Inr for ini fin
  by unfold_locales (simp_all add: gl_ctor_def gl_finish_def gl_run_def)

interpretation al_thread: managed_thread "al_ctor @ al_finish @ [Delete]" "al_run dev upd del cls"
    "[PutFinish]" "[Work dev]" "[]" "[Work del, Work cls]" upd for dev upd del cls
  by unfold_locales (simp_all add: al_ctor_def al_finish_def al_run_def)

interpretation server_thread: managed_thread "server_ctor @ waitForTermination @ [Delete]"
    "server_run phys world serve fin cls"
    "[]" "[Work phys]" "[Work world]" "[Work fin, Work cls]" serve for phys world serve fin cls
  by unfold_locales (simp_all add: server_ctor_def waitForTermination_def server_run_def)

section \<open>Properties\<close>





text \<open>
  The last notification comes too late to be safe: the worker clears \<open>m_running\<close>, gives the mutex up
  and only then notifies. If the owner tests \<open>m_running\<close> in between, it goes on to delete the object, as
  \<open>LocalServer::run\<close> does with the physics and \<open>LocalClient::mainloop\<close> with the server, and the
  notification uses a condition variable that is gone. The thread needs no fault of its own for this.
\<close>

lemma last_notification_after_deletion:
  assumes "create d = Inr d1" and "destroy d1 = Inr d2"
  shows "\<exists>l. life_reach (launched (bt_ctor @ bt_finish @ [Delete]) (bt_run create tick destroy) d) l \<and>
    worker_step l = Some (Inl UseAfterFree) \<and> lf_data l = d2"
proof -
  let ?start = "launched (bt_ctor @ bt_finish @ [Delete]) (bt_run create tick destroy) d"
  let ?run = "[Worker, Worker, Worker, Owner, Owner, Worker, Worker, Worker, Owner, Owner]"
  let ?l = "?start\<lparr>lf_finish := True, lf_alive := False, lf_owner := [], lf_worker := [NotifyAll], lf_data := d2\<rparr>"
  have "schedule ?run ?start = Some ?l"
    by (simp add: launched_def bt_ctor_def bt_finish_def bt_run_def assms until_finish_def)
  from schedule_reach [OF this life_reach.start] show ?thesis by (intro exI [of _ ?l]) simp
qed

lemma last_notification_after_deletion_witness:
  "\<exists>l. life_reach (launched (bt_ctor @ bt_finish @ [Delete]) (bt_run Inr Inr Inr) (0 :: nat)) l \<and>
    worker_step l = Some (Inl UseAfterFree)"
  using last_notification_after_deletion [of Inr 0 0 Inr 0 Inr] by auto

end
