(* ===== verification/RemoteServer.thy ===== *)
theory RemoteServer
  imports RemoteClient ThreadLifecycle
begin

text \<open>
  \<open>client/remoteserver.cpp\<close> and \<open>qntcli.cpp\<close>: the server as a client in another process sees it. Its
  \<open>io_service\<close> has one thread, which runs posted handlers in order and returns when the service is stopped
  or has no work left: nothing posted and no asynchronous read pending. The name resolution and the
  connection are parameters by their error codes.
\<close>

section \<open>State\<close>

datatype 'f rs_handler = RsWrite "'f server_msg" | RsRead int

text \<open>
  \<open>rs_client\<close> is \<open>m_client\<close>, 0 if there is none; \<open>rs_given\<close> lists the calls of \<open>m_client->pushMessage\<close> and
  \<open>rs_told\<close> those of \<open>m_client->serverClosed\<close>; \<open>rs_stopped\<close> is the state of the service.
\<close>

record 'f remote_server =
  rs_srvname :: string
  rs_client :: ptr
  rs_sock :: socket
  rs_posted :: "'f rs_handler list"
  rs_reading :: bool
  rs_msg_type :: u32
  rs_stopped :: bool
  rs_given :: "(ptr \<times> client_msg) list"
  rs_told :: "ptr list"

definition rs_init :: "string option \<Rightarrow> socket \<Rightarrow> 'f remote_server" where
  "rs_init srv sock =
     \<lparr>rs_srvname = (case srv of None \<Rightarrow> ''localhost'' | Some name \<Rightarrow> name), rs_client = 0, rs_sock = sock,
      rs_posted = [], rs_reading = False, rs_msg_type = 0, rs_stopped = False, rs_given = [], rs_told = []\<rparr>"

text \<open>\<open>main\<close> of \<open>qntcli.cpp\<close>: the server it makes of its arguments.\<close>

definition qntcli_server :: "string list \<Rightarrow> socket \<Rightarrow> 'f remote_server" where
  "qntcli_server argv sock = (if 2 \<le> length argv then rs_init (Some (argv ! 1)) sock else rs_init None sock)"

section \<open>Operations\<close>

text \<open>Up to the launch of the thread: a failure to resolve or to connect is thrown.\<close>

definition rs_connect :: "ptr \<Rightarrow> int \<Rightarrow> int \<Rightarrow> 'f remote_server \<Rightarrow> fault + 'f remote_server" where
  "rs_connect cli resolve_code connect_code s =
     (if resolve_code \<noteq> 0 then Inl (SystemError resolve_code)
      else if connect_code \<noteq> 0 then Inl (SystemError connect_code)
      else Inr (s\<lparr>rs_client := cli\<rparr>))"

text \<open>After the wait for the thread: the first asynchronous read.\<close>

definition rs_listen :: "'f remote_server \<Rightarrow> 'f remote_server" where
  "rs_listen s = s\<lparr>rs_reading := True\<rparr>"

definition rs_removeClient :: "ptr \<Rightarrow> 'f remote_server \<Rightarrow> 'f remote_server" where
  "rs_removeClient cli s = (if cli = rs_client s then s\<lparr>rs_client := 0\<rparr> else s)"

definition rs_makeClientPrivileged :: "ptr \<Rightarrow> 'f remote_server \<Rightarrow> 'f remote_server" where
  "rs_makeClientPrivileged cli s = s"

definition rs_isLocal :: "'f remote_server \<Rightarrow> bool" where
  "rs_isLocal s = False"

definition rs_pushMessage :: "'f server_msg \<Rightarrow> 'f remote_server \<Rightarrow> 'f remote_server" where
  "rs_pushMessage msg s = s\<lparr>rs_posted := rs_posted s @ [RsWrite msg]\<rparr>"

text \<open>The first statement of \<open>waitForTermination\<close>.\<close>

definition rs_stop :: "'f remote_server \<Rightarrow> 'f remote_server" where
  "rs_stop s = s\<lparr>rs_stopped := True\<rparr>"

section \<open>Handlers\<close>

definition rs_writeMsg :: "'f server_msg \<Rightarrow> 'f remote_server \<Rightarrow> fault + 'f remote_server" where
  "rs_writeMsg msg s =
     (case server_send msg (rs_sock s) of
        (Inr _, sk) \<Rightarrow> Inr (s\<lparr>rs_sock := sk\<rparr>)
      | (Inl (SystemError e), sk) \<Rightarrow> Inr (rs_stop (s\<lparr>rs_sock := sk\<rparr>))
      | (Inl e, sk) \<Rightarrow> Inl e)"

definition rs_give :: "client_msg \<Rightarrow> 'f remote_server \<Rightarrow> 'f remote_server" where
  "rs_give msg s = (if rs_client s \<noteq> 0 then s\<lparr>rs_given := rs_given s @ [(rs_client s, msg)]\<rparr> else s)"

text \<open>Nothing catches what \<open>msg->read\<close> throws.\<close>

definition rs_readMsg :: "int \<Rightarrow> 'f remote_server \<Rightarrow> fault + 'f remote_server" where
  "rs_readMsg err s =
     (if err \<noteq> 0 then Inr (rs_stop s)
      else case client_create (rs_msg_type s) of
             Some msg \<Rightarrow>
               (case client_read msg (rs_sock s) of
                  (Inl e, sk) \<Rightarrow> Inl e
                | (Inr m, sk) \<Rightarrow> Inr ((rs_give m (s\<lparr>rs_sock := sk\<rparr>))\<lparr>rs_reading := True\<rparr>))
           | None \<Rightarrow> Inr (rs_stop s))"

fun rs_handle :: "'f rs_handler \<Rightarrow> 'f remote_server \<Rightarrow> fault + 'f remote_server" where
  "rs_handle (RsWrite msg) s = rs_writeMsg msg s"
| "rs_handle (RsRead err) s = rs_readMsg err s"

section \<open>The service\<close>

definition rs_complete :: "'f remote_server \<Rightarrow> 'f remote_server" where
  "rs_complete s =
     (if \<not> rs_reading s then s
      else case readPod32 (rs_sock s) of
             (Inr t, sk) \<Rightarrow> s\<lparr>rs_sock := sk, rs_msg_type := t, rs_reading := False,
                              rs_posted := rs_posted s @ [RsRead 0]\<rparr>
           | (Inl _, sk) \<Rightarrow> s\<lparr>rs_sock := sk, rs_reading := False,
                              rs_posted := rs_posted s @ [RsRead (sk_read_code sk)]\<rparr>)"

text \<open>Whether \<open>m_service.run()\<close> returns.\<close>

definition rs_done :: "'f remote_server \<Rightarrow> bool" where
  "rs_done s \<longleftrightarrow> rs_stopped s \<or> (rs_posted s = [] \<and> \<not> rs_reading s)"

text \<open>
  \<open>RsPost\<close>: the client pushes a message; \<open>RsStop\<close>: it waits for the termination; \<open>RsComplete\<close>: the pending read
  completes; \<open>RsRun\<close>: the service runs its next handler, unless it has been stopped.
\<close>

datatype 'f rs_event = RsPost "'f server_msg" | RsStop | RsComplete | RsRun

fun rs_step :: "'f rs_event \<Rightarrow> 'f remote_server \<Rightarrow> fault + 'f remote_server" where
  "rs_step (RsPost msg) s = Inr (rs_pushMessage msg s)"
| "rs_step RsStop s = Inr (rs_stop s)"
| "rs_step RsComplete s = Inr (rs_complete s)"
| "rs_step RsRun s =
     (if rs_stopped s then Inr s
      else case rs_posted s of [] \<Rightarrow> Inr s | h # hs \<Rightarrow> rs_handle h (s\<lparr>rs_posted := hs\<rparr>))"

text \<open>What the thread does when the service has returned.\<close>

definition rs_after :: "'f remote_server \<Rightarrow> 'f remote_server" where
  "rs_after s = (if rs_client s \<noteq> 0 then s\<lparr>rs_told := rs_told s @ [rs_client s]\<rparr> else s)"

section \<open>The thread\<close>

text \<open>
  As in theory \<open>ThreadLifecycle\<close>, with the run of the service as one piece of work. The owner of the first
  wait is \<open>addClient\<close>, that of the second \<open>waitForTermination\<close>.
\<close>

definition rs_run :: "('s \<Rightarrow> fault + 's) \<Rightarrow> ('s \<Rightarrow> fault + 's) \<Rightarrow> 's worker_instr list" where
  "rs_run service_run tell_client =
     [SetRunning True, NotifyAll, Work service_run, Work tell_client, SetRunning False, NotifyAll]"

definition rs_addClient_wait :: "owner_instr list" where "rs_addClient_wait = [Await True]"
definition rs_termination_wait :: "owner_instr list" where "rs_termination_wait = [PutFinish, Await False]"

text \<open>
  \<open>m_service.run()\<close>, given what happens while it runs: it returns as soon as the service is done.
\<close>

fun rs_service :: "'f rs_event list \<Rightarrow> 'f remote_server \<Rightarrow> fault + 'f remote_server" where
  "rs_service [] s = Inr s"
| "rs_service (e # es) s = (if rs_done s then Inr s else res_bind (rs_step e s) (rs_service es))"

section \<open>Streams\<close>

definition rs_steps :: "'f rs_event list \<Rightarrow> 'f remote_server \<Rightarrow> fault + 'f remote_server" where
  "rs_steps = fold_res rs_step"

lemma rs_steps_simps [simp]:
  "rs_steps [] s = Inr s"
  "rs_steps (e # es) s = res_bind (rs_step e s) (rs_steps es)"
  by (simp_all add: rs_steps_def)

lemma rs_steps_append: "rs_steps (es @ fs) s = res_bind (rs_steps es s) (rs_steps fs)"
  by (simp add: rs_steps_def fold_res_append)

lemma rs_receive_one:
  assumes "client_sendable m" and "sk_in (rs_sock s) = client_bytes m @ rest"
    and "rs_reading s" and "rs_posted s = []" and "\<not> rs_stopped s" and "rs_client s \<noteq> 0"
  shows "rs_steps [RsComplete, RsRun] s =
    Inr (s\<lparr>rs_sock := (rs_sock s)\<lparr>sk_in := rest\<rparr>, rs_msg_type := client_type_code (client_type m),
           rs_given := rs_given s @ [(rs_client s, m)]\<rparr>)"
proof -
  let ?t = "client_type_code (client_type m)"
  have code: "readPod32 (rs_sock s) = (Inr ?t, (rs_sock s)\<lparr>sk_in := client_payload m @ rest\<rparr>)"
    using parses_readPod32 [of ?t] assms(2) by (auto simp: parses_def receives_def client_bytes_def)
  have body: "client_read (client_fresh (client_type m)) ((rs_sock s)\<lparr>sk_in := client_payload m @ rest\<rparr>) =
      (Inr m, (rs_sock s)\<lparr>sk_in := rest\<rparr>)"
    using parses_client_read [OF assms(1)] by (auto simp: parses_def receives_def)
  show ?thesis
    using assms by (simp add: rs_complete_def code rs_readMsg_def client_create_code body rs_give_def)
qed

lemma rs_receive_many:
  assumes "list_all client_sendable ms" and "sk_in (rs_sock s) = concat (map client_bytes ms) @ rest"
    and "rs_reading s" and "rs_posted s = []" and "\<not> rs_stopped s" and "rs_client s \<noteq> 0"
  shows "\<exists>t. rs_steps (concat (replicate (length ms) [RsComplete, RsRun])) s =
    Inr (s\<lparr>rs_sock := (rs_sock s)\<lparr>sk_in := rest\<rparr>, rs_msg_type := t,
           rs_given := rs_given s @ map (Pair (rs_client s)) ms\<rparr>)"
  using assms
proof (induction ms arbitrary: s)
  case Nil
  then show ?case by (intro exI [of _ "rs_msg_type s"]) simp
next
  case (Cons m ms)
  let ?s = "s\<lparr>rs_sock := (rs_sock s)\<lparr>sk_in := concat (map client_bytes ms) @ rest\<rparr>,
      rs_msg_type := client_type_code (client_type m), rs_given := rs_given s @ [(rs_client s, m)]\<rparr>"
  have "rs_steps [RsComplete, RsRun] s = Inr ?s"
    using Cons.prems by (intro rs_receive_one) auto
  moreover obtain t where "rs_steps (concat (replicate (length ms) [RsComplete, RsRun])) ?s =
      Inr (?s\<lparr>rs_sock := (rs_sock ?s)\<lparr>sk_in := rest\<rparr>, rs_msg_type := t,
        rs_given := rs_given ?s @ map (Pair (rs_client ?s)) ms\<rparr>)"
    using Cons.IH [of ?s] Cons.prems by auto
  ultimately show ?case
    using rs_steps_append [of "[RsComplete, RsRun]" "concat (replicate (length ms) [RsComplete, RsRun])" s]
    by (intro exI [of _ t]) (simp del: rs_steps_simps)
qed

lemma rs_send_one:
  assumes "server_sendable m" and "rs_posted s = []" and "\<not> rs_stopped s" and "sk_room (rs_sock s) = None"
  shows "rs_steps [RsPost m, RsRun] s =
    Inr (s\<lparr>rs_sock := (rs_sock s)\<lparr>sk_out := sk_out (rs_sock s) @ server_bytes m\<rparr>\<rparr>)"
proof -
  have "server_send m (rs_sock s) = sock_write (server_bytes m) (rs_sock s)"
    using sends_server_send [OF assms(1)] by (simp add: sends_def)
  with assms show ?thesis by (simp add: rs_pushMessage_def rs_writeMsg_def sock_write_def)
qed

lemma rs_send_many:
  assumes "list_all server_sendable ms" and "rs_posted s = []" and "\<not> rs_stopped s" and "sk_room (rs_sock s) = None"
  shows "rs_steps (concat (map (\<lambda>m. [RsPost m, RsRun]) ms)) s =
    Inr (s\<lparr>rs_sock := (rs_sock s)\<lparr>sk_out := sk_out (rs_sock s) @ concat (map server_bytes ms)\<rparr>\<rparr>)"
  using assms
proof (induction ms arbitrary: s)
  case (Cons m ms)
  let ?s = "s\<lparr>rs_sock := (rs_sock s)\<lparr>sk_out := sk_out (rs_sock s) @ server_bytes m\<rparr>\<rparr>"
  have "rs_steps [RsPost m, RsRun] s = Inr ?s" using Cons.prems by (intro rs_send_one) auto
  moreover have "rs_steps (concat (map (\<lambda>m. [RsPost m, RsRun]) ms)) ?s =
      Inr (?s\<lparr>rs_sock := (rs_sock ?s)\<lparr>sk_out := sk_out (rs_sock ?s) @ concat (map server_bytes ms)\<rparr>\<rparr>)"
    using Cons.prems by (intro Cons.IH) auto
  ultimately show ?case
    using rs_steps_append [of "[RsPost m, RsRun]" "concat (map (\<lambda>m. [RsPost m, RsRun]) ms)" s]
    by (simp del: rs_steps_simps)
qed simp

end
