(* ===== verification/RemoteSession.thy ===== *)
theory RemoteSession
  imports RemoteServer RemoteClientProperties
begin

text \<open>
  Properties of the remote server, and of the whole path between a client process and a server process:
  \<open>RemoteServer\<close>, the two streams, and \<open>RemoteClient\<close>.
\<close>

section \<open>The sending half of a connection of the server\<close>

lemma rc_send_one:
  assumes "client_sendable m" and "rc_posted c = []" and "rc_live c" and "sk_room (rc_sock c) = None"
  shows "rc_steps self [Post m, Run] c =
    Inr (c\<lparr>rc_sock := (rc_sock c)\<lparr>sk_out := sk_out (rc_sock c) @ client_bytes m\<rparr>\<rparr>)"
proof -
  have "client_send m (rc_sock c) = sock_write (client_bytes m) (rc_sock c)"
    using sends_client_send [OF assms(1)] by (simp add: sends_def)
  with assms show ?thesis by (simp add: rc_pushMessage_def rc_writeMsg_def sock_write_def)
qed

lemma rc_send_many:
  assumes "list_all client_sendable ms" and "rc_posted c = []" and "rc_live c" and "sk_room (rc_sock c) = None"
  shows "rc_steps self (concat (map (\<lambda>m. [Post m, Run]) ms)) c =
    Inr (c\<lparr>rc_sock := (rc_sock c)\<lparr>sk_out := sk_out (rc_sock c) @ concat (map client_bytes ms)\<rparr>\<rparr>)"
  using assms
proof (induction ms arbitrary: c)
  case (Cons m ms)
  let ?c = "c\<lparr>rc_sock := (rc_sock c)\<lparr>sk_out := sk_out (rc_sock c) @ client_bytes m\<rparr>\<rparr>"
  have "rc_steps self [Post m, Run] c = Inr ?c" using Cons.prems by (intro rc_send_one) auto
  moreover have "rc_steps self (concat (map (\<lambda>m. [Post m, Run]) ms)) ?c =
      Inr (?c\<lparr>rc_sock := (rc_sock ?c)\<lparr>sk_out := sk_out (rc_sock ?c) @ concat (map client_bytes ms)\<rparr>\<rparr>)"
    using Cons.prems by (intro Cons.IH) auto
  ultimately show ?case
    using rc_steps_append [of self "[Post m, Run]" "concat (map (\<lambda>m. [Post m, Run]) ms)" c]
    by (simp del: rc_steps_simps)
qed simp

section \<open>Properties\<close>

text \<open>A socket on which nothing has been sent and writing always succeeds.\<close>

definition fresh_socket :: "u8 list \<Rightarrow> int \<Rightarrow> socket" where
  "fresh_socket bs code = \<lparr>sk_in = bs, sk_read_code = code, sk_room = None, sk_write_code = 0, sk_out = []\<rparr>"



text \<open>
  What a remote server sends before it closes the connection reaches the client, to the last message:
  exactly these messages are given to the client in order, then the failed read stops the service, and the
  thread tells the client once that the server has closed.
\<close>

lemma remote_session_serves_and_closes:
  assumes "list_all client_sendable cs" and "cli \<noteq> 0" and "code \<noteq> 0"
  shows "\<exists>t :: 'f remote_server.
    rs_steps (concat (replicate (length cs) [RsComplete, RsRun]) @ [RsComplete, RsRun])
      (rs_listen ((rs_init srv (fresh_socket (concat (map client_bytes cs)) code))\<lparr>rs_client := cli\<rparr>)) = Inr t \<and>
    rs_done t \<and> rs_given t = map (Pair cli) cs \<and> rs_told (rs_after t) = [cli]"
proof -
  let ?s = "rs_listen ((rs_init srv (fresh_socket (concat (map client_bytes cs)) code))\<lparr>rs_client := cli\<rparr>)
    :: 'f remote_server"
  obtain t where many: "rs_steps (concat (replicate (length cs) [RsComplete, RsRun])) ?s =
      Inr (?s\<lparr>rs_sock := (rs_sock ?s)\<lparr>sk_in := []\<rparr>, rs_msg_type := t,
        rs_given := rs_given ?s @ map (Pair (rs_client ?s)) cs\<rparr>)" (is "_ = Inr ?s1")
    using rs_receive_many [OF assms(1), of ?s "[]"] assms(2)
    by (auto simp: rs_listen_def rs_init_def fresh_socket_def)
  have "readPod32 (rs_sock ?s1) = (Inl (SystemError code), rs_sock ?s1)"
    by (simp add: readPod32_def io_bind_def sock_read_def rs_listen_def rs_init_def fresh_socket_def)
  then have "\<exists>u. rs_steps [RsComplete, RsRun] ?s1 = Inr u \<and> rs_done u \<and> rs_given u = rs_given ?s1 \<and>
      rs_client u = cli \<and> rs_told u = []"
    using assms(3)
    by (simp add: rs_complete_def rs_listen_def rs_init_def fresh_socket_def rs_readMsg_def rs_stop_def rs_done_def)
  then obtain u where "rs_steps [RsComplete, RsRun] ?s1 = Inr u" "rs_done u" "rs_given u = rs_given ?s1"
      "rs_client u = cli" "rs_told u = []" by blast
  then show ?thesis
    using assms(2)
    by (intro exI [of _ u]) (simp only: rs_steps_append many res_bind_simps, simp add: rs_after_def rs_listen_def rs_init_def)
qed

lemma remote_session_serves_and_closes_witness:
  "\<exists>t :: int remote_server.
    rs_steps [RsComplete, RsRun, RsComplete, RsRun]
      (rs_listen ((rs_init None (fresh_socket (client_bytes (ClientDelDrawableMsg 7)) 2))\<lparr>rs_client := 8\<rparr>)) = Inr t \<and>
    rs_given t = [(8, ClientDelDrawableMsg 7)]"
  using remote_session_serves_and_closes [of "[ClientDelDrawableMsg 7]" 8 2 None]
  by (simp del: rs_steps_simps) blast

text \<open>
  \<open>RemoteServer::addClient\<close> can hang. The asynchronous read that keeps the service busy is started
  only after the wait for the thread; until then the service has no work, so the thread may run it, tell
  the client that the server has closed and clear \<open>m_running\<close> before \<open>addClient\<close> tests it. Then
  \<open>addClient\<close> sleeps, the thread has ended, and nothing will ever wake it.
\<close>

lemma add_client_can_hang:
  assumes "rs_connect cli 0 0 (rs_init srv sock) = Inr (s :: 'f remote_server)" and "cli \<noteq> 0"
  shows "\<exists>l. life_reach (launched (rs_addClient_wait @ rs_termination_wait @ [Delete])
      (rs_run (rs_service events) (\<lambda>s. Inr (rs_after s))) s) l \<and>
    owner_step l = None \<and> worker_step l = None \<and> lf_owner l \<noteq> [] \<and> rs_told (lf_data l) = [cli]"
proof -
  let ?start = "launched (rs_addClient_wait @ rs_termination_wait @ [Delete])
      (rs_run (rs_service events) (\<lambda>s. Inr (rs_after s))) s"
  let ?run = "[Worker, Worker, Worker, Worker, Worker, Owner]"
  have idle: "rs_service events s = Inr s" "rs_told s = []" "rs_client s = cli"
    using assms by (cases events; auto simp: rs_connect_def rs_init_def rs_done_def)+
  let ?run = "[Worker, Worker, Worker, Worker, Worker, Worker, Owner]"
  let ?l = "?start\<lparr>lf_asleep := True, lf_worker := [], lf_data := rs_after s\<rparr>"
  have "schedule ?run ?start = Some ?l"
    by (simp add: launched_def rs_addClient_wait_def rs_termination_wait_def rs_run_def idle)
  from schedule_reach [OF this life_reach.start] show ?thesis
    using assms(2)
    by (intro exI [of _ ?l]) (simp add: launched_def rs_addClient_wait_def rs_after_def idle)
qed

lemma add_client_can_hang_witness:
  "\<exists>l. life_reach (launched (rs_addClient_wait @ rs_termination_wait @ [Delete])
      (rs_run (rs_service []) (\<lambda>s. Inr (rs_after s)))
      ((rs_init None (fresh_socket [] 2) :: int remote_server)\<lparr>rs_client := 8\<rparr>)) l \<and>
    owner_step l = None \<and> worker_step l = None \<and> lf_owner l \<noteq> []"
proof -
  have "rs_connect 8 0 0 (rs_init None (fresh_socket [] 2)) =
      Inr ((rs_init None (fresh_socket [] 2) :: int remote_server)\<lparr>rs_client := 8\<rparr>)"
    by (simp add: rs_connect_def)
  from add_client_can_hang [OF this, of "[]"] show ?thesis by fastforce
qed

text \<open>
  A server that breaks the protocol. A type code the factory does not know stops the service and
  closes the session without touching what has been received; a connection that ends inside a message
  makes the read throw, and the exception leaves the handler, \<open>m_service.run()\<close> and the thread.
\<close>

lemma remote_server_protocol_errors:
  assumes "rs_reading s" and "rs_posted s = []" and "\<not> rs_stopped s"
  shows "(sk_in (rs_sock s) = pod32 t @ rest \<and> client_create t = None \<longrightarrow>
      (\<exists>u. rs_steps [RsComplete, RsRun] s = Inr u \<and> rs_done u \<and> rs_given u = rs_given s)) \<and>
    (client_sendable m \<and> sk_in (rs_sock s) = take n (client_bytes m) \<and> 4 \<le> n \<and> n < length (client_bytes m) \<longrightarrow>
      rs_steps [RsComplete, RsRun] s = Inl (SystemError (sk_read_code (rs_sock s))))"
proof (intro conjI impI)
  assume "sk_in (rs_sock s) = pod32 t @ rest \<and> client_create t = None"
  then have "readPod32 (rs_sock s) = (Inr t, (rs_sock s)\<lparr>sk_in := rest\<rparr>)" and "client_create t = None"
    using readPod32_code [of "rs_sock s" t rest] by auto
  with assms show "\<exists>u. rs_steps [RsComplete, RsRun] s = Inr u \<and> rs_done u \<and> rs_given u = rs_given s"
    by (simp add: rs_complete_def rs_readMsg_def rs_stop_def rs_done_def)
next
  assume cut: "client_sendable m \<and> sk_in (rs_sock s) = take n (client_bytes m) \<and> 4 \<le> n \<and> n < length (client_bytes m)"
  let ?t = "client_type_code (client_type m)"
  have "sk_in (rs_sock s) = pod32 ?t @ take (n - 4) (client_payload m)"
    using cut by (simp add: client_bytes_def)
  then have code: "readPod32 (rs_sock s) = (Inr ?t, (rs_sock s)\<lparr>sk_in := take (n - 4) (client_payload m)\<rparr>)"
    by (rule readPod32_code)
  have "truncation_fails (client_read (client_fresh (client_type m))) (client_payload m)"
    using parses_client_read cut by (auto simp: parses_def)
  moreover have "n - 4 < length (client_payload m)"
    using cut less_diff_conv2 [of 4 n "length (client_payload m)"] by (simp add: client_bytes_def)
  ultimately have "fst (client_read (client_fresh (client_type m))
      ((rs_sock s)\<lparr>sk_in := take (n - 4) (client_payload m)\<rparr>)) = Inl (SystemError (sk_read_code (rs_sock s)))"
    by (simp add: truncation_fails_def)
  then obtain sk where "client_read (client_fresh (client_type m))
      ((rs_sock s)\<lparr>sk_in := take (n - 4) (client_payload m)\<rparr>) = (Inl (SystemError (sk_read_code (rs_sock s))), sk)"
    by (metis prod.collapse)
  with assms code show "rs_steps [RsComplete, RsRun] s = Inl (SystemError (sk_read_code (rs_sock s)))"
    by (simp add: rs_complete_def rs_readMsg_def client_create_code)
qed

lemma remote_server_protocol_errors_witness:
  "rs_steps [RsComplete, RsRun]
      (rs_listen (rs_init None (fresh_socket (take 6 (client_bytes (ClientDelDrawableMsg 7))) 2)) :: int remote_server) =
    Inl (SystemError 2)"
proof -
  let ?s = "rs_listen (rs_init None (fresh_socket (take 6 (client_bytes (ClientDelDrawableMsg 7))) 2)) :: int remote_server"
  have "rs_reading ?s" "rs_posted ?s = []" "\<not> rs_stopped ?s"
    by (simp_all add: rs_listen_def rs_init_def)
  from remote_server_protocol_errors [OF this, of 0 "[]" "ClientDelDrawableMsg 7" 6]
  show ?thesis by (simp add: rs_listen_def rs_init_def fresh_socket_def client_bytes_def del: rs_steps_simps)
qed

end
