(* ===== verification/Audio.thy ===== *)
theory Audio
  imports Prelude
begin

unbundle bit_operations_syntax

text \<open>
  \<open>client/openal\<close>: the base class of streamed files, uncompressed WAVE files, and the list of streams of
  \<open>AlAudio\<close>. OpenAL is described by what the code relies on: the buffers queued on a source are played in
  order, the oldest played one is the one that is unqueued, and a buffer that is queued cannot be filled.
\<close>

type_synonym size_t = "64 word"

section \<open>State\<close>

text \<open>The numbers of the four sample formats.\<close>

record al_formats =
  AL_FORMAT_MONO8 :: nat
  AL_FORMAT_STEREO8 :: nat
  AL_FORMAT_MONO16 :: nat
  AL_FORMAT_STEREO16 :: nat

text \<open>
  Memory that has not been written is \<open>None\<close>: bytes of a buffer on the stack or the heap, and the members
  the constructors do not set. \<open>w_file\<close> is what is left of the file, \<open>w_fail\<close> the state of the stream.
  \<open>al_buffers\<close> are the contents of the two buffers, \<open>al_queue\<close> the indices queued on the source, oldest
  first, \<open>al_played\<close> the contents of the buffers taken off the queue.
\<close>

record wav =
  w_next :: nat
  w_format :: "nat option"
  w_frequency :: "u32 option"
  w_pos :: "size_t option"
  w_len :: "size_t option"
  w_file :: "u8 list"
  w_fail :: bool
  al_buffers :: "u8 option list list"
  al_queue :: "nat list"
  al_played :: "u8 option list list"

text \<open>The constructor; \<open>None\<close> if the file cannot be opened.\<close>

definition wav_open :: "u8 list option \<Rightarrow> wav" where
  "wav_open contents =
     \<lparr>w_next = 0, w_format = None, w_frequency = None, w_pos = None, w_len = None,
      w_file = (case contents of None \<Rightarrow> [] | Some bs \<Rightarrow> bs), w_fail = (contents = None),
      al_buffers = [[], []], al_queue = [], al_played = []\<rparr>"

section \<open>Reading\<close>

text \<open>\<open>m_file.read(buf, n)\<close>: a short read stores what there is and fails, a failed stream stores nothing.\<close>

definition file_read :: "nat \<Rightarrow> u8 option list \<Rightarrow> wav \<Rightarrow> u8 option list \<times> wav" where
  "file_read n buf w =
     (if w_fail w then (buf, w)
      else let got = take n (w_file w) in
        (map Some got @ drop (length got) buf,
         w\<lparr>w_file := drop n (w_file w), w_fail := (length got < n)\<rparr>))"

text \<open>Whether \<open>strncmp\<close> finds a difference.\<close>

fun strncmp :: "u8 option list \<Rightarrow> string \<Rightarrow> nat \<Rightarrow> fault + bool" where
  "strncmp (Some b # bs) (c # cs) (Suc n) =
     (if b \<noteq> byte_of_char c then Inr True else if b = 0 then Inr False else strncmp bs cs n)"
| "strncmp (None # bs) (c # cs) (Suc n) = Inl Indeterminate"
| "strncmp _ _ _ = Inr False"

text \<open>A member of \<open>n\<close> bytes at an offset of a structure.\<close>

definition member_at :: "nat \<Rightarrow> nat \<Rightarrow> u8 option list \<Rightarrow> fault + nat" where
  "member_at off n buf =
     (let bs = take n (drop off buf) in
      if None \<in> set bs then Inl Indeterminate else Inr (le_value (map the bs)))"

definition init_member :: "'a option \<Rightarrow> fault + 'a" where
  "init_member m = (case m of None \<Rightarrow> Inl Indeterminate | Some x \<Rightarrow> Inr x)"

section \<open>Headers\<close>

definition sizeof_RiffHeader :: nat where "sizeof_RiffHeader = 8"
definition sizeof_WaveFormat :: nat where "sizeof_WaveFormat = 16"

text \<open>The checks of a format block and the properties it sets.\<close>

definition use_format :: "al_formats \<Rightarrow> u8 option list \<Rightarrow> wav \<Rightarrow> fault + wav" where
  "use_format A fmt w =
     res_bind (member_at 0 2 fmt) (\<lambda>format.
     if format \<noteq> 1 then Inl (RuntimeError ''Only PCM WAVE files are supported'') else
     res_bind (member_at 14 2 fmt) (\<lambda>bits.
     if bits \<noteq> 8 \<and> bits \<noteq> 16 then Inl (RuntimeError ''Only bit sizes of 8 and 16 are supported'') else
     res_bind (member_at 2 2 fmt) (\<lambda>channels.
     if 2 < channels then Inl (RuntimeError ''Only mono and stereo files are supported'') else
     res_bind (member_at 4 4 fmt) (\<lambda>rate.
     let set_properties = (\<lambda>f. w\<lparr>w_format := Some f, w_frequency := Some (word_of_nat rate)\<rparr>) in
     Inr (if bits = 8 \<and> channels = 1 then set_properties (AL_FORMAT_MONO8 A)
          else if bits = 8 \<and> channels = 2 then set_properties (AL_FORMAT_STEREO8 A)
          else if bits = 16 \<and> channels = 1 then set_properties (AL_FORMAT_MONO16 A)
          else if bits = 16 \<and> channels = 2 then set_properties (AL_FORMAT_STEREO16 A)
          else w)))))"

definition readHeaders :: "al_formats \<Rightarrow> wav \<Rightarrow> fault + wav" where
  "readHeaders A w =
     (let (riff, w) = file_read sizeof_RiffHeader (replicate 8 None) w in
      res_bind (strncmp riff ''RIFF'' 4) (\<lambda>differs.
      if differs then Inl (RuntimeError ''Not a RIFF file'') else
      let (ftype, w) = file_read 4 (replicate 4 None) w in
      res_bind (strncmp ftype ''WAVE'' 4) (\<lambda>differs.
      if differs then Inl (RuntimeError ''Not a WAVE file'') else
      let (riff, w) = file_read sizeof_RiffHeader riff w in
      res_bind (strncmp riff ''fmt '' 4) (\<lambda>differs.
      if differs then Inl (RuntimeError ''Expected WAVE fmt block'') else
      let (fmt, w) = file_read sizeof_WaveFormat (replicate 16 None) w in
      res_bind (use_format A fmt w) (\<lambda>w.
      let (riff, w) = file_read sizeof_RiffHeader riff w in
      res_bind (strncmp riff ''data'' 4) (\<lambda>differs.
      if differs then Inl (RuntimeError ''Expected WAVE data block'') else
      res_bind (member_at 4 4 riff) (\<lambda>len.
      Inr (w\<lparr>w_len := Some (word_of_nat len), w_pos := Some 0\<rparr>))))))))"

section \<open>Buffers\<close>

definition bufferLen :: size_t where "bufferLen = 2 ^ 16"

text \<open>\<open>alBufferData\<close> on a buffer that is queued is refused by OpenAL and leaves it as it is.\<close>

definition fillNextBuffer :: "u8 option list \<Rightarrow> wav \<Rightarrow> fault + wav" where
  "fillNextBuffer dat w =
     res_bind (init_member (w_format w)) (\<lambda>format.
     res_bind (init_member (w_frequency w)) (\<lambda>frequency.
     Inr (w\<lparr>al_buffers := (if w_next w \<in> set (al_queue w) then al_buffers w else (al_buffers w)[w_next w := dat]),
            w_next := w_next w XOR 1\<rparr>)))"

definition readyNextBuffer :: "wav \<Rightarrow> fault + (bool \<times> wav)" where
  "readyNextBuffer w =
     res_bind (init_member (w_len w)) (\<lambda>len.
     res_bind (init_member (w_pos w)) (\<lambda>pos.
     let remaining = len - pos; bufsize = bufferLen in
     if remaining = 0 then Inr (False, w)
     else
       let bufsize = (if remaining < bufsize then remaining else bufsize);
           w = w\<lparr>w_pos := Some (pos + bufsize)\<rparr>;
           (dat, w) = file_read (unat bufsize) (replicate (unat bufsize) None) w
       in res_bind (fillNextBuffer dat w) (\<lambda>w. Inr (True, w))))"

definition play :: "al_formats \<Rightarrow> wav \<Rightarrow> fault + wav" where
  "play A w =
     res_bind (readHeaders A w) (\<lambda>w.
     res_bind (readyNextBuffer w) (\<lambda>(_, w).
     res_bind (readyNextBuffer w) (\<lambda>(_, w).
     Inr (w\<lparr>al_queue := [0, 1]\<rparr>))))"

text \<open>
  \<open>processed\<close> says whether OpenAL has finished with a buffer since the last call; only a queued buffer can be.
  \<open>prev\<close> is the static variable \<open>previous_result\<close>. The result is the new value of it, what the function
  returns, and the stream.
\<close>

definition update :: "bool \<Rightarrow> bool \<Rightarrow> wav \<Rightarrow> fault + (bool \<times> bool \<times> wav)" where
  "update processed prev w =
     (if \<not> processed then Inr (prev, True, w)
      else case al_queue w of
             [] \<Rightarrow> Inr (prev, True, w)
           | nextbuf # rest \<Rightarrow>
               let w = w\<lparr>al_queue := rest, al_played := al_played w @ [al_buffers w ! nextbuf]\<rparr> in
               res_bind (readyNextBuffer w) (\<lambda>(new_result, w).
               let w = (if new_result then w\<lparr>al_queue := al_queue w @ [nextbuf]\<rparr> else w) in
               Inr (if \<not> new_result \<and> \<not> prev then (prev, False, w) else (new_result, True, w))))"

section \<open>The streams of AlAudio\<close>

text \<open>
  One pass over \<open>m_streams\<close>, a set in the order of addresses, here with the streams themselves; a stream
  whose \<open>update\<close> returns false is deleted and erased. The first argument says for which of the streams a
  buffer has been played.
\<close>

fun update_streams :: "(ptr \<Rightarrow> bool) \<Rightarrow> bool \<Rightarrow> (ptr \<times> wav) list \<Rightarrow> fault + (bool \<times> (ptr \<times> wav) list)" where
  "update_streams processed prev [] = Inr (prev, [])"
| "update_streams processed prev ((p, w) # ws) =
     res_bind (update (processed p) prev w) (\<lambda>(prev, result, w).
     res_bind (update_streams processed prev ws) (\<lambda>(prev, ws).
     Inr (prev, if result then (p, w) # ws else ws)))"

end
