(* ===== verification/AudioProperties.thy ===== *)
theory AudioProperties
  imports Audio
begin

text \<open>
  Properties of the audio streams: which files are accepted and what is taken from their headers, that
  the data of a file is handed to OpenAL exactly once and in order, how a stream ends, and what the
  variable all streams share does to the ones that follow.
\<close>

section \<open>Reading a file that is long enough\<close>

lemma file_read_prefix:
  assumes "\<not> w_fail w" and "n \<le> length (w_file w)" and "length buf = n"
  shows "file_read n buf w = (map Some (take n (w_file w)), w\<lparr>w_file := drop n (w_file w), w_fail := False\<rparr>)"
  using assms by (simp add: file_read_def)

lemma strncmp_known:
  assumes "length cs = n" and "n \<le> length xs" and "CHR 0x00 \<notin> set cs"
  shows "strncmp (map Some xs) cs n = Inr (take n xs \<noteq> map byte_of_char cs)"
  using assms
proof (induction cs arbitrary: n xs)
  case (Cons c cs)
  then obtain m b bs where "n = Suc m" and xs: "xs = b # bs" by (cases n; cases xs) auto
  have "byte_of_char c \<noteq> 0"
  proof
    assume "byte_of_char c = 0"
    then have "byte_of_char c = byte_of_char CHR 0x00" by (simp add: byte_of_char_def)
    with Cons.prems(3) show False by simp
  qed
  with Cons \<open>n = Suc m\<close> xs show ?case by auto
qed simp

lemma member_known: "member_at off n (map Some xs) = Inr (le_value (take n (drop off xs)))"
  by (simp add: member_at_def take_map drop_map o_def)

text \<open>The bytes of a file between two positions, as a number.\<close>

definition number_at :: "nat \<Rightarrow> nat \<Rightarrow> u8 list \<Rightarrow> nat" where
  "number_at off n bs = le_value (take n (drop off bs))"

definition ascii_at :: "nat \<Rightarrow> string \<Rightarrow> u8 list \<Rightarrow> bool" where
  "ascii_at off s bs \<longleftrightarrow> take (length s) (drop off bs) = map byte_of_char s"

text \<open>The format OpenAL is told, if any.\<close>

definition sample_format :: "al_formats \<Rightarrow> nat \<Rightarrow> nat \<Rightarrow> nat option" where
  "sample_format A bits channels =
     (if channels = 1 then Some (if bits = 8 then AL_FORMAT_MONO8 A else AL_FORMAT_MONO16 A)
      else if channels = 2 then Some (if bits = 8 then AL_FORMAT_STEREO8 A else AL_FORMAT_STEREO16 A)
      else None)"

lemma wav_headers_eq:
  assumes "44 \<le> length bs"
  shows "readHeaders A (wav_open (Some bs)) =
    (let channels = number_at 22 2 bs; bits = number_at 34 2 bs in
     if \<not> ascii_at 0 ''RIFF'' bs then Inl (RuntimeError ''Not a RIFF file'')
     else if \<not> ascii_at 8 ''WAVE'' bs then Inl (RuntimeError ''Not a WAVE file'')
     else if \<not> ascii_at 12 ''fmt '' bs then Inl (RuntimeError ''Expected WAVE fmt block'')
     else if number_at 20 2 bs \<noteq> 1 then Inl (RuntimeError ''Only PCM WAVE files are supported'')
     else if bits \<noteq> 8 \<and> bits \<noteq> 16 then Inl (RuntimeError ''Only bit sizes of 8 and 16 are supported'')
     else if 2 < channels then Inl (RuntimeError ''Only mono and stereo files are supported'')
     else if \<not> ascii_at 36 ''data'' bs then Inl (RuntimeError ''Expected WAVE data block'')
     else Inr ((wav_open (Some bs))\<lparr>
       w_format := sample_format A bits channels,
       w_frequency := (if channels = 0 then None else Some (word_of_nat (number_at 24 4 bs))),
       w_len := Some (word_of_nat (number_at 40 4 bs)), w_pos := Some 0, w_file := drop 44 bs\<rparr>))"
proof -
  let ?w = "wav_open (Some bs)"
  let ?at = "\<lambda>n. ?w\<lparr>w_file := drop n bs, w_fail := False\<rparr>"
  have r1: "file_read 8 (replicate 8 None) ?w = (map Some (take 8 bs), ?at 8)"
    using assms by (subst file_read_prefix) (simp_all add: wav_open_def)
  have r2: "file_read 4 (replicate 4 None) (?at 8) = (map Some (take 4 (drop 8 bs)), ?at 12)"
    using assms by (subst file_read_prefix) (simp_all add: wav_open_def)
  have r3: "file_read 8 (map Some (take 8 bs)) (?at 12) = (map Some (take 8 (drop 12 bs)), ?at 20)"
    using assms by (subst file_read_prefix) (simp_all add: wav_open_def)
  have r4: "file_read 16 (replicate 16 None) (?at 20) = (map Some (take 16 (drop 20 bs)), ?at 36)"
    using assms by (subst file_read_prefix) (simp_all add: wav_open_def)
  have r5: "file_read 8 (map Some (take 8 (drop 12 bs))) w =
      (map Some (take 8 (drop 36 bs)), w\<lparr>w_file := drop 44 bs, w_fail := False\<rparr>)"
    if "w_file w = drop 36 bs" "\<not> w_fail w" for w
    using assms that by (subst file_read_prefix) simp_all
  have s1: "strncmp (map Some (take 8 bs)) ''RIFF'' 4 = Inr (\<not> ascii_at 0 ''RIFF'' bs)"
    using assms by (subst strncmp_known) (simp_all add: ascii_at_def eval_nat_numeral)
  have s2: "strncmp (map Some (take 4 (drop 8 bs))) ''WAVE'' 4 = Inr (\<not> ascii_at 8 ''WAVE'' bs)"
    using assms by (subst strncmp_known) (simp_all add: ascii_at_def eval_nat_numeral)
  have s3: "strncmp (map Some (take 8 (drop 12 bs))) ''fmt '' 4 = Inr (\<not> ascii_at 12 ''fmt '' bs)"
    using assms by (subst strncmp_known) (simp_all add: ascii_at_def eval_nat_numeral)
  have s5: "strncmp (map Some (take 8 (drop 36 bs))) ''data'' 4 = Inr (\<not> ascii_at 36 ''data'' bs)"
    using assms by (subst strncmp_known) (simp_all add: ascii_at_def eval_nat_numeral)
  have m: "member_at off n (map Some (take 16 (drop 20 bs))) = Inr (number_at (20 + off) n bs)" if "off + n \<le> 16" for off n
    using that by (simp add: member_known number_at_def drop_take min_def add.commute)
  have m5: "member_at 4 4 (map Some (take 8 (drop 36 bs))) = Inr (number_at 40 4 bs)"
    by (simp add: member_known number_at_def drop_take)
  show ?thesis
    unfolding readHeaders_def Let_def sizeof_RiffHeader_def sizeof_WaveFormat_def
    by (simp only: r1 r2 r3 r4 s1 s2 s3 prod.case res_bind_simps)
      (simp add: use_format_def m r5 s5 m5 sample_format_def wav_open_def)
qed

section \<open>Properties\<close>

text \<open>
  The headers of a file of at least 44 bytes decide everything: each of the seven checks fails with
  its own message, in this order, and a file that passes them sets the sample format by its channels and
  bits, the frequency by its rate, and the length of the data by the last four bytes; playing starts at
  byte 44. A file with no channels at all passes and leaves the format unset.
\<close>

lemma wav_headers_decide:
  assumes "44 \<le> length bs"
  shows "readHeaders A (wav_open (Some bs)) =
    (let channels = number_at 22 2 bs; bits = number_at 34 2 bs in
     if \<not> ascii_at 0 ''RIFF'' bs then Inl (RuntimeError ''Not a RIFF file'')
     else if \<not> ascii_at 8 ''WAVE'' bs then Inl (RuntimeError ''Not a WAVE file'')
     else if \<not> ascii_at 12 ''fmt '' bs then Inl (RuntimeError ''Expected WAVE fmt block'')
     else if number_at 20 2 bs \<noteq> 1 then Inl (RuntimeError ''Only PCM WAVE files are supported'')
     else if bits \<noteq> 8 \<and> bits \<noteq> 16 then Inl (RuntimeError ''Only bit sizes of 8 and 16 are supported'')
     else if 2 < channels then Inl (RuntimeError ''Only mono and stereo files are supported'')
     else if \<not> ascii_at 36 ''data'' bs then Inl (RuntimeError ''Expected WAVE data block'')
     else Inr ((wav_open (Some bs))\<lparr>
       w_format := sample_format A bits channels,
       w_frequency := (if channels = 0 then None else Some (word_of_nat (number_at 24 4 bs))),
       w_len := Some (word_of_nat (number_at 40 4 bs)), w_pos := Some 0, w_file := drop 44 bs\<rparr>))"
  using assms by (rule wav_headers_eq)

lemma wav_headers_decide_witness:
  "\<forall>A. readHeaders A (wav_open (Some (map byte_of_char ''RIFF'' @ le_bytes 4 36 @ map byte_of_char ''MP3 '' @
      replicate 32 0))) = Inl (RuntimeError ''Not a WAVE file'')"
proof -
  let ?bs = "map byte_of_char ''RIFF'' @ le_bytes 4 36 @ map byte_of_char ''MP3 '' @ replicate 32 0"
  have "44 \<le> length ?bs" by simp
  from wav_headers_decide [OF this] show ?thesis
    by (simp add: ascii_at_def byte_of_char_def Let_def)
qed

section \<open>Handing out the data\<close>

definition buffer_bytes :: nat where "buffer_bytes = 65536"

lemma buffer_bytes_pos [simp]: "0 < buffer_bytes"
  by (simp add: buffer_bytes_def)

lemma unat_bufferLen: "unat bufferLen = buffer_bytes"
  by (simp add: bufferLen_def buffer_bytes_def)

text \<open>The data cut into full buffers and a last one.\<close>

function chunks :: "'a list \<Rightarrow> 'a list list" where
  "chunks xs = (if xs = [] then [] else take buffer_bytes xs # chunks (drop buffer_bytes xs))"
  by auto
termination by (relation "measure length") (simp_all add: buffer_bytes_def)

declare chunks.simps [simp del]

lemma chunks_Nil [simp]: "chunks [] = []"
  by (simp add: chunks.simps)

lemma chunks_step: "xs \<noteq> [] \<Longrightarrow> chunks xs = take buffer_bytes xs # chunks (drop buffer_bytes xs)"
  by (subst chunks.simps) simp

lemma concat_chunks: "concat (chunks xs) = xs"
  by (induction xs rule: chunks.induct) (subst chunks.simps, simp)

text \<open>A stream whose headers have been read, with the data \<open>rest\<close> still to be handed out.\<close>

definition stream_at :: "u8 list \<Rightarrow> u8 list \<Rightarrow> wav \<Rightarrow> bool" where
  "stream_at rest tail w \<longleftrightarrow>
     \<not> w_fail w \<and> w_file w = rest @ tail \<and> w_format w \<noteq> None \<and> w_frequency w \<noteq> None \<and>
     (\<exists>len pos. w_len w = Some len \<and> w_pos w = Some pos \<and> unat (len - pos) = length rest)"

lemma ready_done: "stream_at [] tail w \<Longrightarrow> readyNextBuffer w = Inr (False, w)"
  by (auto simp: stream_at_def readyNextBuffer_def init_member_def unat_eq_0)

lemma ready_more:
  assumes at: "stream_at rest tail w" and "rest \<noteq> []" and free: "w_next w \<notin> set (al_queue w)"
  shows "\<exists>w'. readyNextBuffer w = Inr (True, w') \<and> stream_at (drop buffer_bytes rest) tail w' \<and>
    al_buffers w' = (al_buffers w)[w_next w := map Some (take buffer_bytes rest)] \<and>
    w_next w' = w_next w XOR 1 \<and> al_queue w' = al_queue w \<and> al_played w' = al_played w"
proof -
  from at obtain len pos f freq where len: "w_len w = Some len" and pos: "w_pos w = Some pos"
    and rem: "unat (len - pos) = length rest" and fmt: "w_format w = Some f" "w_frequency w = Some freq"
    and w_file: "\<not> w_fail w" "w_file w = rest @ tail"
    by (auto simp: stream_at_def)
  define b where "b = (if len - pos < bufferLen then len - pos else bufferLen)"
  have b: "unat b = min (length rest) buffer_bytes"
    using rem by (auto simp: b_def word_less_nat_alt unat_bufferLen)
  then have "unat b \<le> unat (len - pos)" using rem by simp
  then have left: "unat (len - (pos + b)) = length rest - unat b"
    using rem by (simp add: diff_diff_eq [symmetric] unat_sub word_le_nat_alt)
  have "unat b \<le> length (rest @ tail)" using b by simp
  have take: "take (unat b) (rest @ tail) = take buffer_bytes rest" "drop (unat b) (rest @ tail) = drop buffer_bytes rest @ tail"
    using b by (auto simp: min_def)
  have "file_read (unat b) (replicate (unat b) None) (w\<lparr>w_pos := Some (pos + b)\<rparr>) =
      (map Some (take buffer_bytes rest), w\<lparr>w_pos := Some (pos + b), w_file := drop buffer_bytes rest @ tail, w_fail := False\<rparr>)"
    using w_file \<open>unat b \<le> length (rest @ tail)\<close> by (simp add: file_read_prefix take del: take_append drop_append)
  moreover have "len - pos \<noteq> 0" using rem assms(2) by auto
  ultimately have "readyNextBuffer w = Inr (True, w\<lparr>w_pos := Some (pos + b),
      w_file := drop buffer_bytes rest @ tail, w_fail := False,
      al_buffers := (al_buffers w)[w_next w := map Some (take buffer_bytes rest)], w_next := w_next w XOR 1\<rparr>)"
    using free
    by (simp add: readyNextBuffer_def len pos init_member_def Let_def b_def [symmetric] fillNextBuffer_def fmt)
  moreover have "length rest - unat b = length (drop buffer_bytes rest)" using b by simp
  ultimately show ?thesis
    using left by (simp add: stream_at_def fmt len)
qed

text \<open>The contents \<open>readyNextBuffer\<close> gives to OpenAL in at most \<open>n\<close> calls.\<close>

fun hand_out :: "nat \<Rightarrow> wav \<Rightarrow> fault + (u8 option list list \<times> wav)" where
  "hand_out 0 w = Inr ([], w)"
| "hand_out (Suc n) w =
     res_bind (readyNextBuffer w) (\<lambda>(more, w').
     if more then res_bind (hand_out n w') (\<lambda>(ds, w''). Inr (al_buffers w' ! w_next w # ds, w''))
     else Inr ([], w'))"

text \<open>
  C34: \<open>readyNextBuffer\<close>, called until it has no more to give, hands out the data of the file exactly: every
  call but the last returns true, there is one for each started 65536 bytes, the pieces put together are
  the data, and what follows the data in the file is never touched.
\<close>

theorem wav_data_is_handed_out:
  assumes "stream_at rest tail w" and "al_queue w = []" and "length (al_buffers w) = 2" and "w_next w < 2"
    and "length (chunks rest) < n"
  shows "\<exists>w'. hand_out n w = Inr (map (map Some) (chunks rest), w') \<and> w_file w' = tail \<and>
    concat (map (map Some) (chunks rest)) = map Some rest \<and> (\<forall>c \<in> set (chunks rest). length c \<le> 65536)"
proof -
  have "\<exists>w'. hand_out n w = Inr (map (map Some) (chunks rest), w') \<and> w_file w' = tail"
    using assms
  proof (induction n arbitrary: rest w)
    case (Suc n)
    show ?case
    proof (cases "rest = []")
      case True
      with Suc.prems ready_done [of tail w] show ?thesis by (auto simp: stream_at_def)
    next
      case False
      obtain w1 where w1: "readyNextBuffer w = Inr (True, w1)" "stream_at (drop buffer_bytes rest) tail w1"
        "al_buffers w1 = (al_buffers w)[w_next w := map Some (take buffer_bytes rest)]"
        "w_next w1 = w_next w XOR 1" "al_queue w1 = al_queue w"
        using ready_more [OF Suc.prems(1) False] Suc.prems(2) by auto
      have "w_next w = 0 \<or> w_next w = 1" using Suc.prems(4) by auto
      then have "w_next w1 < 2" using w1(4) by auto
      moreover have "length (chunks (drop buffer_bytes rest)) < n"
        using Suc.prems(5) chunks_step [OF False] by simp
      ultimately obtain w' where
        "hand_out n w1 = Inr (map (map Some) (chunks (drop buffer_bytes rest)), w')" "w_file w' = tail"
        using Suc.IH [OF w1(2)] w1(3,5) Suc.prems(2,3) by auto
      then show ?thesis using w1(1,3) Suc.prems(3,4) by (simp add: chunks_step [OF False])
    qed
  qed simp
  moreover have "concat (map (map Some) (chunks rest)) = map Some rest"
    by (simp add: map_concat [symmetric] concat_chunks)
  moreover have "\<forall>c \<in> set (chunks rest). length c \<le> 65536"
    by (induction rest rule: chunks.induct) (subst chunks.simps, simp add: buffer_bytes_def)
  ultimately show ?thesis by blast
qed

lemma stream_at_witness:
  "stream_at [1, 2] [9] ((wav_open (Some [1, 2, 9]))\<lparr>w_format := Some 1, w_frequency := Some 8000,
     w_len := Some 2, w_pos := Some 0\<rparr>)"
  by (simp add: stream_at_def wav_open_def)

theorem wav_data_is_handed_out_witness:
  "\<exists>w'. hand_out 5 ((wav_open (Some [1, 2, 9]))\<lparr>w_format := Some 1, w_frequency := Some 8000,
     w_len := Some 2, w_pos := Some 0\<rparr>) = Inr ([[Some 1, Some 2]], w') \<and> w_file w' = [9]"
  using wav_data_is_handed_out [OF stream_at_witness, of 5]
  by (simp add: wav_open_def chunks_step buffer_bytes_def)

section \<open>Playing\<close>

text \<open>Calls of \<open>update\<close>, each when OpenAL has finished with one more buffer, until one returns false.\<close>

fun updates :: "nat \<Rightarrow> bool \<Rightarrow> wav \<Rightarrow> fault + (bool list \<times> bool \<times> wav)" where
  "updates 0 prev w = Inr ([], prev, w)"
| "updates (Suc n) prev w =
     res_bind (update True prev w) (\<lambda>(prev, result, w).
     if result then res_bind (updates n prev w) (\<lambda>(rs, prev, w). Inr (True # rs, prev, w))
     else Inr ([False], prev, w))"

lemma stream_at_frame [simp]:
  "stream_at rest tail (w\<lparr>al_queue := q\<rparr>) = stream_at rest tail w"
  "stream_at rest tail (w\<lparr>al_played := p\<rparr>) = stream_at rest tail w"
  by (simp_all add: stream_at_def)

lemma update_refills:
  assumes "stream_at rest tail w" and "rest \<noteq> []" and "al_queue w = [i, j]" and "w_next w = i" and "i \<noteq> j"
  shows "\<exists>w'. update True prev w = Inr (True, True, w') \<and> stream_at (drop buffer_bytes rest) tail w' \<and>
    al_queue w' = [j, i] \<and> al_buffers w' = (al_buffers w)[i := map Some (take buffer_bytes rest)] \<and>
    w_next w' = i XOR 1 \<and> al_played w' = al_played w @ [al_buffers w ! i]"
proof -
  let ?w = "w\<lparr>al_queue := [j], al_played := al_played w @ [al_buffers w ! i]\<rparr>"
  obtain w1 where "readyNextBuffer ?w = Inr (True, w1)" "stream_at (drop buffer_bytes rest) tail w1"
    "al_buffers w1 = (al_buffers ?w)[w_next ?w := map Some (take buffer_bytes rest)]"
    "w_next w1 = w_next ?w XOR 1" "al_queue w1 = al_queue ?w" "al_played w1 = al_played ?w"
    using ready_more [of rest tail ?w] assms by auto
  with assms show ?thesis
    by (intro exI [of _ "w1\<lparr>al_queue := [j, i]\<rparr>"]) (simp add: update_def)
qed

lemma update_drains:
  assumes "stream_at [] tail w" and "al_queue w = i # q"
  shows "update True prev w = Inr (False, prev, w\<lparr>al_queue := q, al_played := al_played w @ [al_buffers w ! i]\<rparr>)"
proof -
  have "stream_at [] tail (w\<lparr>al_queue := q, al_played := al_played w @ [al_buffers w ! i]\<rparr>)"
    using assms(1) by simp
  from ready_done [OF this] assms(2) show ?thesis by (simp add: update_def)
qed

lemma updates_play:
  assumes "stream_at rest tail w" and "al_queue w = [i, j]" and "(i, j) = (0, 1) \<or> (i, j) = (1, 0)"
    and "rest \<noteq> [] \<Longrightarrow> w_next w = i" and "length (al_buffers w) = 2" and "prev \<or> rest \<noteq> []"
  shows "\<exists>w'. updates (2 + length (chunks rest)) prev w =
      Inr (replicate (Suc (length (chunks rest))) True @ [False], False, w') \<and>
    al_played w' = al_played w @ [al_buffers w ! i, al_buffers w ! j] @ map (map Some) (chunks rest)"
  using assms
proof (induction rest arbitrary: w i j prev rule: chunks.induct)
  case (1 rest)
  show ?case
  proof (cases "rest = []")
    case True
    let ?w1 = "w\<lparr>al_queue := [j], al_played := al_played w @ [al_buffers w ! i]\<rparr>"
    have "update True prev w = Inr (False, prev, ?w1)" using 1 True by (intro update_drains) auto
    moreover have "update True False ?w1 = Inr (False, False,
        ?w1\<lparr>al_queue := [], al_played := al_played ?w1 @ [al_buffers ?w1 ! j]\<rparr>)"
      using 1 True by (intro update_drains) auto
    ultimately show ?thesis using 1 True by (simp add: numeral_2_eq_2)
  next
    case False
    obtain w1 where w1: "update True prev w = Inr (True, True, w1)" "stream_at (drop buffer_bytes rest) tail w1"
      "al_queue w1 = [j, i]" "al_buffers w1 = (al_buffers w)[i := map Some (take buffer_bytes rest)]"
      "w_next w1 = i XOR 1" "al_played w1 = al_played w @ [al_buffers w ! i]"
      using update_refills [of rest tail w i j prev] 1(2-5) False by auto
    have "w_next w1 = j" using w1(5) 1(4) by auto
    then obtain w' where "updates (2 + length (chunks (drop buffer_bytes rest))) True w1 =
        Inr (replicate (Suc (length (chunks (drop buffer_bytes rest)))) True @ [False], False, w')"
      "al_played w' = al_played w1 @ [al_buffers w1 ! j, al_buffers w1 ! i] @
        map (map Some) (chunks (drop buffer_bytes rest))"
      using 1(1) [OF False w1(2,3), of True] 1(4,6) w1(4) by auto
    with w1 1(4,6) show ?thesis by (auto simp: chunks_step [OF False])
  qed
qed

text \<open>What \<open>play\<close> leaves of a stream whose headers have been read: the first two pieces are queued.\<close>

lemma play_start:
  assumes hd: "readHeaders A w = Inr w0" and at: "stream_at dat tail w0"
    and w0: "al_buffers w0 = [[], []]" "al_queue w0 = []" "w_next w0 = 0"
  shows "\<exists>w1. play A w = Inr w1 \<and> stream_at (drop buffer_bytes (drop buffer_bytes dat)) tail w1 \<and>
    al_queue w1 = [0, 1] \<and> al_played w1 = al_played w0 \<and>
    al_buffers w1 = [map Some (take buffer_bytes dat), map Some (take buffer_bytes (drop buffer_bytes dat))] \<and>
    (drop buffer_bytes (drop buffer_bytes dat) \<noteq> [] \<longrightarrow> w_next w1 = 0)"
proof (cases "dat = []")
  case True
  with at ready_done [of tail w0] w0 show ?thesis
    by (intro exI [of _ "w0\<lparr>al_queue := [0, 1]\<rparr>"]) (simp add: play_def hd)
next
  case False
  obtain w1 where w1: "readyNextBuffer w0 = Inr (True, w1)" "stream_at (drop buffer_bytes dat) tail w1"
    "al_buffers w1 = [map Some (take buffer_bytes dat), []]" "w_next w1 = 1" "al_queue w1 = []"
    "al_played w1 = al_played w0"
    using ready_more [OF at False] w0 by auto
  show ?thesis
  proof (cases "drop buffer_bytes dat = []")
    case True
    have "readyNextBuffer w1 = Inr (False, w1)" using w1(2) True by (intro ready_done) simp
    with w1 True show ?thesis
      by (intro exI [of _ "w1\<lparr>al_queue := [0, 1]\<rparr>"]) (simp add: play_def hd)
  next
    case False
    obtain w2 where "readyNextBuffer w1 = Inr (True, w2)"
      "stream_at (drop buffer_bytes (drop buffer_bytes dat)) tail w2"
      "al_buffers w2 = [map Some (take buffer_bytes dat), map Some (take buffer_bytes (drop buffer_bytes dat))]"
      "w_next w2 = 0" "al_played w2 = al_played w0"
      using ready_more [OF w1(2) False] w1 by auto
    with w1 show ?thesis
      by (intro exI [of _ "w2\<lparr>al_queue := [0, 1]\<rparr>"]) (simp add: play_def hd)
  qed
qed


text \<open>A file of two bytes of data, mono at 8 bits.\<close>

definition tiny_wav :: "u8 list" where
  "tiny_wav = [82, 73, 70, 70, 38, 0, 0, 0, 87, 65, 86, 69, 102, 109, 116, 32, 16, 0, 0, 0, 1, 0, 1, 0,
     64, 31, 0, 0, 64, 31, 0, 0, 1, 0, 8, 0, 100, 97, 116, 97, 2, 0, 0, 0, 7, 8]"

abbreviation tiny_stream :: "al_formats \<Rightarrow> wav" where
  "tiny_stream A \<equiv> (wav_open (Some tiny_wav))\<lparr>w_format := Some (AL_FORMAT_MONO8 A),
     w_frequency := Some 8000, w_len := Some 2, w_pos := Some 0, w_file := [7, 8]\<rparr>"

lemma tiny_headers: "readHeaders A (wav_open (Some tiny_wav)) = Inr (tiny_stream A)"
proof -
  have "44 \<le> length tiny_wav" by (simp add: tiny_wav_def)
  from wav_headers_eq [OF this, of A] show ?thesis
    by (simp add: tiny_wav_def ascii_at_def number_at_def byte_of_char_def Let_def sample_format_def)
qed

lemma tiny_stream_at: "stream_at [7, 8] [] (tiny_stream A)"
  by (simp add: stream_at_def wav_open_def)


text \<open>
  The variable \<open>previous_result\<close> is shared by all streams and never reset. A stream of at most two
  buffers that is played after another one has ended is given up by the first \<open>update\<close> that finds a
  buffer finished, while its second buffer is still queued: it would be deleted there, and what the second
  buffer holds is not played to its end.
\<close>

lemma short_stream_after_another_is_cut:
  assumes "readHeaders A w = Inr w0" and "stream_at dat tail w0" and "length dat \<le> 131072"
    and "al_buffers w0 = [[], []]" and "al_queue w0 = []" and "w_next w0 = 0" and "al_played w0 = []"
  shows "\<exists>w1 w2. play A w = Inr w1 \<and> update True False w1 = Inr (False, False, w2) \<and>
    al_queue w2 = [1] \<and> concat (al_played w2) = map Some (take 65536 dat) \<and>
    update_streams (\<lambda>_. True) False [(p, w1)] = Inr (False, [])"
proof -
  have none: "drop buffer_bytes (drop buffer_bytes dat) = []" using assms(3) by (simp add: buffer_bytes_def)
  obtain w1 where w1: "play A w = Inr w1" "stream_at [] tail w1" "al_queue w1 = [0, 1]" "al_played w1 = []"
    "al_buffers w1 ! 0 = map Some (take buffer_bytes dat)"
    using play_start [OF assms(1,2,4-6)] assms(7) none by auto
  have "update True False w1 = Inr (False, False,
      w1\<lparr>al_queue := [1], al_played := al_played w1 @ [al_buffers w1 ! 0]\<rparr>)"
    using w1 by (intro update_drains)
  with w1 show ?thesis by (simp add: buffer_bytes_def)
qed

lemma short_stream_after_another_is_cut_witness:
  "\<exists>w1. play A (wav_open (Some tiny_wav)) = Inr w1 \<and> update_streams (\<lambda>_. True) False [(8, w1)] = Inr (False, [])"
  using short_stream_after_another_is_cut [OF tiny_headers tiny_stream_at, of A 8]
  by (simp add: wav_open_def) blast

end
