(* ===== verification/Platform.thy ===== *)
theory Platform
  imports ThreadLifecycle
begin

text \<open>
  The life of the client object: its constructor, its main loop and its destructor, with all they acquire and release: the
  window system (\<open>initializePlatform\<close> and \<open>finalizePlatform\<close> of \<open>client/localclient_x11.cpp\<close> and of
  \<open>client/opengl/glloader_x11.cpp\<close>), the loader, the renderer and the audio thread. The X server, GLX and OpenAL are a
  parameter: what their fallible calls return. The functions are given as the calls they make, in order, and how they end.
\<close>

section \<open>Calls\<close>

record x_env =
  main_display :: bool
  main_configs :: nat
  main_visual :: bool
  main_window :: bool
  main_context :: bool
  loader_display :: bool
  loader_configs :: nat
  loader_pbuffer :: bool
  loader_context :: bool
  audio_device :: bool
  audio_context :: bool

text \<open>
  The calls with the arguments the code chooses; the ones of the loader's thread on its own display are
  marked. \<open>NewPlatform\<close> and \<open>DeletePlatform\<close> are \<open>new PlatformData\<close> and \<open>delete m_platform\<close>, and so on for the other objects. A
  constructor that starts a thread returns when the thread has set itself up, and \<open>finish\<close> when it has taken all down (theory
  \<open>ThreadLifecycle\<close>), so the calls of the threads have their place in the order too.
\<close>

datatype x_call =
    NewPlatform | DeletePlatform
  | OpenDisplay | CloseDisplay
  | InternAtom string
  | ChooseFBConfig | FreeConfigs
  | GetVisual | FreeVisual
  | CreateColormap
  | CreateWindow nat nat | DestroyWindow
  | SetNormalHints nat nat
  | SetName string
  | SetProtocols
  | CreateContext | DestroyContext
  | MapWindow
  | MakeCurrent
  | Viewport nat nat | Perspective | ClearBuffer
  | SwapBuffers
  | LdrOpenDisplay | LdrCloseDisplay
  | LdrChooseFBConfig | LdrFreeConfigs
  | LdrCreatePbuffer | LdrDestroyPbuffer
  | LdrCreateContext | LdrDestroyContext
  | LdrMakeCurrent
  | NewLoader | FinishedLoader | DeleteLoader
  | NewRenderer | GlewInit | DrawScene | DeleteRenderer
  | NewAudio | FinishedAudio | DeleteAudio
  | AlcOpenDevice | AlcCreateContext | AlcMakeCurrent bool | AlcDestroyContext | AlcCloseDevice
  | AddToServer | PushToServer | AwaitServer | DeleteServer

type_synonym platform_run = "fault option \<times> x_call list"

section \<open>The client's window\<close>

definition window_width :: nat where "window_width = 800"
definition window_height :: nat where "window_height = 600"

definition client_initializePlatform :: "x_env \<Rightarrow> platform_run" where
  "client_initializePlatform E =
     (let c1 = [NewPlatform, OpenDisplay];
          c2 = [NewPlatform, OpenDisplay, InternAtom ''WM_PROTOCOLS'', InternAtom ''WM_DELETE_WINDOW'', ChooseFBConfig];
          c3 = c2 @ [FreeConfigs, GetVisual];
          c4 = c3 @ [CreateColormap, CreateWindow window_width window_height, FreeVisual];
          c5 = c4 @ [SetNormalHints window_width window_height, SetName ''Quintses'', SetProtocols, CreateContext]
      in
      if \<not> main_display E
      then (Some (RuntimeError ''Could not open X11 Display''), c1 @ [DeletePlatform])
      else if main_configs E = 0
      then (Some (RuntimeError ''No OpenGL framebuffer configuration found''), c2 @ [CloseDisplay, DeletePlatform])
      else if \<not> main_visual E
      then (Some (RuntimeError ''Could not get X11 visual from FB config''), c3 @ [CloseDisplay, DeletePlatform])
      else if \<not> main_window E
      then (Some (RuntimeError ''Could not open the X11 window''), c4 @ [CloseDisplay, DeletePlatform])
      else if \<not> main_context E
      then (Some (RuntimeError ''Could not create an OpenGL context''),
            c5 @ [DestroyWindow, CloseDisplay, DeletePlatform])
      else (None, c5 @ [MapWindow, MakeCurrent, Viewport window_width window_height, Perspective, ClearBuffer,
                        SwapBuffers]))"

text \<open>After the loader has been finished and deleted, and the renderer deleted.\<close>

definition client_finalizePlatform :: "x_call list" where
  "client_finalizePlatform = [DestroyContext, DestroyWindow, CloseDisplay, DeletePlatform]"

definition platformSwapBuffer :: "x_call list" where
  "platformSwapBuffer = [SwapBuffers]"

section \<open>The loader's context\<close>

text \<open>
  The result of \<open>XOpenDisplay\<close> is used without a test. The failure for want of a configuration closes the
  display of the client and deletes the shared \<open>PlatformData\<close>.
\<close>

definition loader_initializePlatform :: "x_env \<Rightarrow> platform_run" where
  "loader_initializePlatform E =
     (let l2 = [LdrOpenDisplay, LdrChooseFBConfig];
          l3 = l2 @ [LdrFreeConfigs, LdrCreatePbuffer];
          l4 = l3 @ [LdrCreateContext]
      in
      if \<not> loader_display E then (Some NullDereference, [LdrOpenDisplay])
      else if loader_configs E = 0
      then (Some (RuntimeError ''No OpenGL framebuffer configuration found''), l2 @ [CloseDisplay, DeletePlatform])
      else if \<not> loader_pbuffer E
      then (Some (RuntimeError ''Could not create pbuffer for loader thread''), l3)
      else if \<not> loader_context E
      then (Some (RuntimeError ''Could not create context for loader thread''), l4 @ [LdrDestroyPbuffer])
      else (None, l4 @ [LdrMakeCurrent]))"

definition loader_finalizePlatform :: "x_call list" where
  "loader_finalizePlatform = [LdrDestroyContext, LdrDestroyPbuffer, LdrCloseDisplay]"

section \<open>The client object\<close>

text \<open>What the thread of \<open>AlAudio\<close> calls before and after its loop. No result is tested.\<close>

definition audio_begin :: "x_call list" where
  "audio_begin = [AlcOpenDevice, AlcCreateContext, AlcMakeCurrent True]"

definition audio_end :: "x_call list" where
  "audio_end = [AlcMakeCurrent False, AlcDestroyContext, AlcCloseDevice]"

text \<open>\<open>initializePlatform\<close> to its end, and \<open>finalizePlatform\<close>, with the loader and the renderer.\<close>

definition initializePlatform :: "x_env \<Rightarrow> platform_run" where
  "initializePlatform E =
     (case client_initializePlatform E of
        (Some e, cs) \<Rightarrow> (Some e, cs)
      | (None, cs) \<Rightarrow>
          (case loader_initializePlatform E of
             (Some e, ls) \<Rightarrow> (Some e, cs @ ls)
           | (None, ls) \<Rightarrow> (None, cs @ ls @ [NewLoader, NewRenderer, GlewInit])))"

definition finalizePlatform :: "x_call list" where
  "finalizePlatform = loader_finalizePlatform @ [FinishedLoader, DeleteLoader, DeleteRenderer] @ client_finalizePlatform"

definition client_ctor :: "x_env \<Rightarrow> platform_run" where
  "client_ctor E =
     (case initializePlatform E of
        (Some e, cs) \<Rightarrow> (Some e, cs)
      | (None, cs) \<Rightarrow> (None, cs @ audio_begin @ [NewAudio, AddToServer, PushToServer]))"

text \<open>The loop over \<open>n\<close> frames; \<open>local\<close> is what \<open>isLocal\<close> says of the server.\<close>

definition mainloop_calls :: "nat \<Rightarrow> bool \<Rightarrow> x_call list" where
  "mainloop_calls n local =
     concat (replicate n ([DrawScene] @ platformSwapBuffer)) @ (if local then [PushToServer] else []) @
     [AwaitServer, DeleteServer]"

definition client_dtor :: "x_call list" where
  "client_dtor = finalizePlatform @ audio_end @ [FinishedAudio, DeleteAudio]"

text \<open>The client of \<open>main\<close>, whose destructor runs when \<open>main\<close> returns, if the constructor did.\<close>

definition client_life :: "x_env \<Rightarrow> nat \<Rightarrow> bool \<Rightarrow> platform_run" where
  "client_life E n local =
     (case client_ctor E of
        (Some e, cs) \<Rightarrow> (Some e, cs)
      | (None, cs) \<Rightarrow> (None, cs @ mainloop_calls n local @ client_dtor))"

section \<open>Ownership\<close>

datatype resource =
    ServerObject | Platform | Display | Configs | Visual | Window | Context | LdrDisplay | LdrConfigs | Pbuffer | LdrContext
  | LoaderObject | RendererObject | AudioObject | AlDevice | AlContext

text \<open>
  What a call acquires if it succeeds, what it releases, and what must exist for it. Closing a display
  also ends what was created on it in the X server; the memory the client owns is listed here. OpenAL accepts null for a device or
  a context and reports an error.
\<close>

fun acquires :: "x_env \<Rightarrow> x_call \<Rightarrow> resource set" where
  "acquires E NewPlatform = {Platform}"
| "acquires E OpenDisplay = (if main_display E then {Display} else {})"
| "acquires E ChooseFBConfig = (if main_configs E \<noteq> 0 then {Configs} else {})"
| "acquires E GetVisual = (if main_visual E then {Visual} else {})"
| "acquires E (CreateWindow w h) = (if main_window E then {Window} else {})"
| "acquires E CreateContext = (if main_context E then {Context} else {})"
| "acquires E LdrOpenDisplay = (if loader_display E then {LdrDisplay} else {})"
| "acquires E LdrChooseFBConfig = (if loader_configs E \<noteq> 0 then {LdrConfigs} else {})"
| "acquires E LdrCreatePbuffer = (if loader_pbuffer E then {Pbuffer} else {})"
| "acquires E LdrCreateContext = (if loader_context E then {LdrContext} else {})"
| "acquires E NewLoader = {LoaderObject}"
| "acquires E NewRenderer = {RendererObject}"
| "acquires E NewAudio = {AudioObject}"
| "acquires E AlcOpenDevice = (if audio_device E then {AlDevice} else {})"
| "acquires E AlcCreateContext = (if audio_device E \<and> audio_context E then {AlContext} else {})"
| "acquires E _ = {}"

fun releases :: "x_call \<Rightarrow> resource set" where
  "releases DeletePlatform = {Platform}"
| "releases CloseDisplay = {Display}"
| "releases FreeConfigs = {Configs}"
| "releases FreeVisual = {Visual}"
| "releases DestroyWindow = {Window}"
| "releases DestroyContext = {Context}"
| "releases LdrCloseDisplay = {LdrDisplay}"
| "releases LdrFreeConfigs = {LdrConfigs}"
| "releases LdrDestroyPbuffer = {Pbuffer}"
| "releases LdrDestroyContext = {LdrContext}"
| "releases DeleteLoader = {LoaderObject}"
| "releases DeleteRenderer = {RendererObject}"
| "releases DeleteAudio = {AudioObject}"
| "releases AlcDestroyContext = {AlContext}"
| "releases AlcCloseDevice = {AlDevice}"
| "releases DeleteServer = {ServerObject}"
| "releases _ = {}"

fun needs :: "x_call \<Rightarrow> resource set" where
  "needs NewPlatform = {}"
| "needs DeletePlatform = {Platform}"
| "needs OpenDisplay = {Platform}"
| "needs FreeConfigs = {Configs}"
| "needs FreeVisual = {Visual}"
| "needs (CreateWindow w h) = {Platform, Display, Visual}"
| "needs DestroyWindow = {Platform, Display, Window}"
| "needs DestroyContext = {Platform, Display, Context}"
| "needs LdrOpenDisplay = {Platform}"
| "needs LdrCloseDisplay = {Platform, LdrDisplay}"
| "needs LdrChooseFBConfig = {Platform, Display, LdrDisplay}"
| "needs LdrFreeConfigs = {LdrConfigs}"
| "needs LdrCreatePbuffer = {Platform, LdrDisplay}"
| "needs LdrDestroyPbuffer = {Platform, LdrDisplay, Pbuffer}"
| "needs LdrCreateContext = {Platform, LdrDisplay, Context}"
| "needs LdrDestroyContext = {Platform, LdrDisplay, LdrContext}"
| "needs LdrMakeCurrent = {Platform, LdrDisplay, Pbuffer, LdrContext}"
| "needs NewLoader = {Platform}"
| "needs FinishedLoader = {LoaderObject}"
| "needs DeleteLoader = {LoaderObject}"
| "needs NewRenderer = {LoaderObject}"
| "needs GlewInit = {RendererObject, Platform, Display, Window, Context}"
| "needs DrawScene = {RendererObject, Platform, Display, Window, Context}"
| "needs DeleteRenderer = {RendererObject}"
| "needs NewAudio = {}"
| "needs FinishedAudio = {AudioObject}"
| "needs DeleteAudio = {AudioObject}"
| "needs AlcOpenDevice = {}"
| "needs AlcCreateContext = {}"
| "needs (AlcMakeCurrent on) = {}"
| "needs AlcDestroyContext = {}"
| "needs AlcCloseDevice = {}"
| "needs AddToServer = {ServerObject}"
| "needs PushToServer = {ServerObject}"
| "needs AwaitServer = {ServerObject}"
| "needs DeleteServer = {ServerObject}"
| "needs _ = {Platform, Display}"

text \<open>What is owned after a list of calls; \<open>None\<close> if one of them lacks what it needs.\<close>

fun owned :: "x_env \<Rightarrow> x_call list \<Rightarrow> resource set \<Rightarrow> resource set option" where
  "owned E [] R = Some R"
| "owned E (c # cs) R = (if needs c \<subseteq> R then owned E cs (R \<union> acquires E c - releases c) else None)"

lemma owned_append: "owned E (cs @ ds) R = (case owned E cs R of None \<Rightarrow> None | Some S \<Rightarrow> owned E ds S)"
  by (induction cs arbitrary: R) auto

section \<open>Properties\<close>

lemmas platform_defs = client_initializePlatform_def client_finalizePlatform_def
  loader_initializePlatform_def loader_finalizePlatform_def Let_def

lemmas client_defs = client_life_def client_ctor_def client_dtor_def initializePlatform_def finalizePlatform_def
  audio_begin_def audio_end_def platform_defs

text \<open>What the main loop finds and what it leaves: any frame gives back the resources as they are.\<close>

lemma owned_frames:
  assumes "{RendererObject, Platform, Display, Window, Context} \<subseteq> R"
  shows "owned E (concat (replicate n ([DrawScene] @ platformSwapBuffer))) R = Some R"
  using assms by (induction n) (auto simp: platformSwapBuffer_def)

lemma owned_mainloop:
  assumes "{ServerObject, RendererObject, Platform, Display, Window, Context} \<subseteq> R"
  shows "owned E (mainloop_calls n local) R = Some (R - {ServerObject})"
proof -
  have "owned E (concat (replicate n ([DrawScene] @ platformSwapBuffer))) R = Some R"
    using assms by (intro owned_frames) simp
  with assms show ?thesis by (simp add: mainloop_calls_def owned_append)
qed

text \<open>The client that has been constructed.\<close>

definition client_owns :: "x_env \<Rightarrow> resource set" where
  "client_owns E = {ServerObject, Platform, Display, Window, Context, LdrDisplay, Pbuffer, LdrContext, LoaderObject, RendererObject, AudioObject} \<union>
     (if audio_device E then {AlDevice} \<union> (if audio_context E then {AlContext} else {}) else {})"

lemma client_ctor_owns:
  assumes "main_display E" and "main_configs E \<noteq> 0" and "main_visual E" and "main_window E" and "main_context E"
    and "loader_display E" and "loader_configs E \<noteq> 0" and "loader_pbuffer E" and "loader_context E"
  shows "fst (client_ctor E) = None \<and> owned E (snd (client_ctor E)) {ServerObject} = Some (client_owns E)"
  using assms
  by (cases "audio_device E"; cases "audio_context E"; simp add: client_defs client_owns_def insert_commute insert_Diff_if)

lemma client_dtor_releases: "owned E client_dtor (client_owns E - {ServerObject}) = Some {}"
  by (cases "audio_device E"; cases "audio_context E"; simp add: client_defs client_owns_def insert_Diff_if)



text \<open>
  The loader's half fails badly. Without a display of its own it goes on with a null pointer; without a
  framebuffer configuration it closes the display of the client and deletes the \<open>PlatformData\<close> both share,
  while the client's window and context still exist; and none of its failures closes the display it has
  opened. The exception itself ends the program, as it leaves the thread.
\<close>

lemma loader_failures_are_not_cleaned_up:
  assumes "main_display E" and "main_configs E \<noteq> 0" and "main_visual E" and "main_window E" and "main_context E"
  shows "(\<not> loader_display E \<longrightarrow> fst (initializePlatform E) = Some NullDereference) \<and>
    (loader_display E \<and> loader_configs E = 0 \<longrightarrow>
      owned E (snd (initializePlatform E)) {} = Some {Window, Context, LdrDisplay} \<and>
      owned E (snd (initializePlatform E) @ client_finalizePlatform) {} = None) \<and>
    (loader_display E \<and> loader_configs E \<noteq> 0 \<and> \<not> (loader_pbuffer E \<and> loader_context E) \<longrightarrow>
      owned E (snd (initializePlatform E)) {} = Some {Platform, Display, Window, Context, LdrDisplay} \<and>
      fst (initializePlatform E) \<noteq> None) \<and>
    (loader_display E \<and> fst (initializePlatform E) \<noteq> None \<longrightarrow>
      (\<exists>m. fst (initializePlatform E) = Some (RuntimeError m) \<and>
        worker_step (launched (gl_ctor @ gl_finish @ [Delete])
          (gl_run (\<lambda>d. Inl (RuntimeError m)) Inr) d) = Some (Inl (RuntimeError m))))"
  using assms
  by (cases "loader_display E"; cases "loader_configs E = 0"; cases "loader_pbuffer E"; cases "loader_context E";
      simp add: client_defs insert_commute launched_def gl_run_def; auto)

lemma loader_failures_are_not_cleaned_up_witness:
  "owned \<lparr>main_display = True, main_configs = 2, main_visual = True, main_window = True, main_context = True,
      loader_display = True, loader_configs = 0, loader_pbuffer = True, loader_context = True,
      audio_device = True, audio_context = True\<rparr>
    (snd (initializePlatform \<lparr>main_display = True, main_configs = 2, main_visual = True, main_window = True,
      main_context = True, loader_display = True, loader_configs = 0, loader_pbuffer = True,
      loader_context = True, audio_device = True, audio_context = True\<rparr>)) {} = Some {Window, Context, LdrDisplay}"
  by (rule loader_failures_are_not_cleaned_up [THEN conjunct2, THEN conjunct1, THEN mp, THEN conjunct1]) simp_all

end
