(* ===== verification/PhysicsSteps.thy ===== *)
theory PhysicsSteps
  imports PhysicsProperties
begin

text \<open>
  A tick of the physics thread in the pieces between which other threads can act: it takes one message of its queue at a time,
  and then moves the world and pushes the transforms, under the lock of the clients. \<open>physics_tick\<close> of theory \<open>PhysicsTick\<close>
  is such a tick without anything in between.
\<close>

section \<open>Steps\<close>

text \<open>The thread sleeps between two ticks, empties its queue, or has transforms to push.\<close>

datatype tick_phase = Asleep | Handling | Pushing "(oid \<times> float_bits list) list"

definition with_queue :: "'f server_msg list \<Rightarrow> ('f, 'w) server \<Rightarrow> ('f, 'w) server" where
  "with_queue q s = s\<lparr>m_physics := (m_physics s)\<lparr>ph_queue := q\<rparr>\<rparr>"

text \<open>\<open>finish\<close> is \<open>m_finish\<close>, which is read before each tick.\<close>

definition physics_step ::
    "('f, 'v, 'w) bullet \<Rightarrow> bool \<Rightarrow> tick_phase \<Rightarrow> ('f, 'w) server \<Rightarrow> fault + (tick_phase \<times> ('f, 'w) server)" where
  "physics_step B finish ph s =
     (case ph of
        Asleep \<Rightarrow> Inr (if finish then Asleep else Handling, s)
      | Handling \<Rightarrow>
          (case queue_try_pop (ph_queue (m_physics s)) of
             Some (m, q) \<Rightarrow> res_bind (parseMessage B m (with_queue q s)) (\<lambda>s. Inr (Handling, s))
           | None \<Rightarrow>
               let p = simulate B (m_physics s)
               in Inr (Pushing (transforms B p), runTickCallbacks (s\<lparr>m_physics := p\<rparr>)))
      | Pushing ct \<Rightarrow> res_bind (pushClientTransforms ct s) (\<lambda>s. Inr (Asleep, s)))"

primrec physics_steps ::
    "('f, 'v, 'w) bullet \<Rightarrow> nat \<Rightarrow> tick_phase \<Rightarrow> ('f, 'w) server \<Rightarrow> fault + (tick_phase \<times> ('f, 'w) server)" where
  "physics_steps B 0 ph s = Inr (ph, s)"
| "physics_steps B (Suc n) ph s = res_bind (physics_step B False ph s) (\<lambda>(ph, s). physics_steps B n ph s)"

section \<open>A tick is its steps\<close>

lemma with_queue_simps [simp]:
  "ph_queue (m_physics (with_queue q s)) = q" "with_queue q (with_queue q' s) = with_queue q s"
  "phys_ids (m_physics (with_queue q s)) = phys_ids (m_physics s)"
  "srv_live (with_queue q s) = srv_live s" "srv_sent (with_queue q s) = srv_sent s" "srv_closed (with_queue q s) = srv_closed s"
  "m_clients (with_queue q s) = m_clients s" "phys_ok (with_queue q s) = phys_ok s" "everybody (with_queue q s) = everybody s"
  by (simp_all add: with_queue_def phys_ids_def phys_ok_def server_ok_def clients_live_def everybody_def)

lemma with_same_queue: "ph_queue (m_physics s) = q \<Longrightarrow> with_queue q s = s"
  by (auto simp: with_queue_def)

text \<open>What a message does has nothing to do with the queue.\<close>

lemma parse_with_queue:
  "parseMessage B m (with_queue q s) = res_bind (parseMessage B m s) (\<lambda>t. Inr (with_queue q t))"
  by (cases m) (auto simp: with_queue_def set_state_def setInputStateCallback_def Let_def add_plane_def add_character_def
      getClientId_def map_index_def case_prod_unfold split: option.splits)

lemma parse_keeps_queue: "parseMessage B m s = Inr t \<Longrightarrow> ph_queue (m_physics t) = ph_queue (m_physics s)"
  using parse_with_queue [of B m "ph_queue (m_physics s)" s]
  by (simp add: with_same_queue) (metis with_queue_simps(1))

lemma steps_handle_messages:
  "physics_steps B (length q + n) Handling (with_queue q s) =
    res_bind (fold_res (parseMessage B) q (with_queue [] s)) (\<lambda>t. physics_steps B n Handling t)"
proof (induction q arbitrary: s)
  case (Cons m q)
  have "physics_steps B (length (m # q) + n) Handling (with_queue (m # q) s) =
      res_bind (parseMessage B m (with_queue q s)) (physics_steps B (length q + n) Handling)"
    by (simp add: physics_step_def queue_pending res_bind_assoc)
  also have "\<dots> = res_bind (parseMessage B m (with_queue [] s))
      (\<lambda>t. physics_steps B (length q + n) Handling (with_queue q t))"
    using parse_with_queue [of B m q "with_queue [] s"] by (simp add: res_bind_assoc)
  also have "\<dots> = res_bind (fold_res (parseMessage B) (m # q) (with_queue [] s)) (\<lambda>t. physics_steps B n Handling t)"
  proof (cases "parseMessage B m (with_queue [] s)")
    case (Inr t)
    then have "with_queue [] t = t" using parse_keeps_queue [OF Inr] by (simp add: with_same_queue)
    with Inr Cons.IH [of t] show ?thesis by simp
  qed simp
  finally show ?case .
qed simp

lemma steps_of_tick:
  "physics_steps B (length (ph_queue (m_physics s)) + 3) Asleep s =
    res_bind (fold_res (parseMessage B) (ph_queue (m_physics s)) (with_queue [] s)) (\<lambda>t. physics_steps B 2 Handling t)"
proof -
  let ?q = "ph_queue (m_physics s)"
  have "physics_steps B (length ?q + 3) Asleep s = physics_steps B (length ?q + 2) Handling s"
    by (simp add: numeral_3_eq_3 numeral_2_eq_2 physics_step_def)
  then show ?thesis using steps_handle_messages [of B ?q 2 s] by (simp add: with_same_queue)
qed

lemma handled_queue:
  assumes "fold_res (parseMessage B) ms (with_queue [] s) = Inr t"
  shows "ph_queue (m_physics t) = []"
  using fold_res_invariant [OF assms, where I = "\<lambda>t. ph_queue (m_physics t) = []"] parse_keeps_queue by fastforce

text \<open>
  With nothing in between, the steps of a tick do what \<open>physics_tick\<close> does: one to wake, one for each message,
  one to move the world and one to push the transforms.
\<close>

lemma tick_is_its_steps:
  "physics_tick B s =
    Some (res_bind (physics_steps B (length (ph_queue (m_physics s)) + 3) Asleep s) (\<lambda>(ph, s). Inr s))"
proof -
  let ?q = "ph_queue (m_physics s)"
  show ?thesis
  proof (cases "fold_res (parseMessage B) ?q (with_queue [] s)")
    case (Inl e)
    then show ?thesis unfolding steps_of_tick
      by (simp add: physics_tick_def handle_messages_fold without_queue_def with_queue_def)
  next
    case (Inr t)
    from handled_queue [OF Inr] have "without_queue t = t" "physics_steps B 2 Handling t = res_bind
        (pushClientTransforms (transforms B (simulate B (m_physics t))) (runTickCallbacks (t\<lparr>m_physics := simulate B (m_physics t)\<rparr>)))
        (\<lambda>s. Inr (Asleep, s))"
      by (simp_all add: without_queue_def numeral_2_eq_2 physics_step_def queue_pending Let_def res_bind_assoc)
    with Inr show ?thesis unfolding steps_of_tick
      by (simp add: physics_tick_def handle_messages_fold without_queue_def with_queue_def Let_def res_bind_assoc res_bind_return)
  qed
qed

lemma steps_come_to_rest:
  assumes "physics_steps B (length (ph_queue (m_physics s)) + 3) Asleep s = Inr (ph, t)"
  shows "ph = Asleep"
proof -
  obtain u where u: "fold_res (parseMessage B) (ph_queue (m_physics s)) (with_queue [] s) = Inr u"
    "physics_steps B 2 Handling u = Inr (ph, t)"
    using assms unfolding steps_of_tick by (auto simp: res_bind_eq_Inr)
  with handled_queue [OF u(1)] show ?thesis
    by (auto simp: numeral_2_eq_2 physics_step_def queue_pending Let_def res_bind_eq_Inr)
qed

text \<open>How many steps a tick still needs when no more messages come.\<close>

definition steps_left :: "tick_phase \<Rightarrow> ('f, 'w) server \<Rightarrow> nat" where
  "steps_left ph s = (case ph of Asleep \<Rightarrow> 0 | Pushing ct \<Rightarrow> 1 | Handling \<Rightarrow> length (ph_queue (m_physics s)) + 2)"

lemma steps_left_less:
  assumes "physics_step B fin ph s = Inr (ph', s')" and "ph \<noteq> Asleep"
  shows "steps_left ph' s' < steps_left ph s"
proof (cases ph)
  case Handling
  show ?thesis
  proof (cases "ph_queue (m_physics s)")
    case (Cons m q)
    with Handling assms(1) have "parseMessage B m (with_queue q s) = Inr s'" "ph' = Handling"
      by (auto simp: physics_step_def queue_pending res_bind_eq_Inr)
    with parse_keeps_queue [of B m "with_queue q s" s'] Handling Cons show ?thesis by (simp add: steps_left_def)
  qed (use Handling assms in \<open>auto simp: physics_step_def queue_pending Let_def steps_left_def\<close>)
qed (use assms in \<open>auto simp: physics_step_def res_bind_eq_Inr steps_left_def\<close>)

end
