(* ===== verification/ServerMain.thy ===== *)
theory ServerMain
  imports ServerProperties PhysicsSteps
begin

text \<open>
  The server program, \<open>main\<close> of \<open>qntsrv.cpp\<close>: the game server with its queue and its thread, the signal
  handler, the thread that watches for the server's end, and the service \<open>main\<close> runs. The steps of the
  service on its connections are in theory \<open>RemoteClient\<close>.
\<close>

section \<open>State and steps\<close>

text \<open>
  \<open>qs_tick\<close> is what the physics thread is at; \<open>qs_ending\<close> says that the server's thread has taken a shutdown message and
  waits in \<open>m_physics->finish()\<close>, which has set the \<open>m_finish\<close> of the physics.
  \<open>qs_running\<close> is the server's \<open>m_running\<close>, \<open>qs_stopped\<close> says that \<open>service.stop()\<close> has been called,
  \<open>qs_exited\<close> that \<open>main\<close> has returned.
\<close>

record ('f, 'w) qntsrv =
  qs_queue :: "'f server_msg list"
  qs_server :: "('f, 'w) server"
  qs_tick :: tick_phase
  qs_ending :: bool
  qs_running :: bool
  qs_stopped :: bool
  qs_exited :: bool

definition qs_init :: "'w \<Rightarrow> ('f::{zero,one}, 'w) qntsrv" where
  "qs_init w = \<lparr>qs_queue = [], qs_server = server_init w, qs_tick = Asleep, qs_ending = False,
    qs_running = True, qs_stopped = False, qs_exited = False\<rparr>"

definition server_pushMessage :: "'f server_msg \<Rightarrow> ('f, 'w) qntsrv \<Rightarrow> ('f, 'w) qntsrv" where
  "server_pushMessage msg q = q\<lparr>qs_queue := queue_push msg (qs_queue q)\<rparr>"

definition signal_handler :: "('f, 'w) qntsrv \<Rightarrow> ('f, 'w) qntsrv" where
  "signal_handler q = server_pushMessage (ServerShutdownMsg 0) q"

text \<open>What the server's thread does after its loop, up to the clearing of \<open>m_running\<close>.\<close>

definition server_end :: "('f, 'v, 'w) bullet \<Rightarrow> ('f, 'w) server \<Rightarrow> fault + ('f, 'w) server" where
  "server_end B s = server_close (s\<lparr>m_physics := physics_shutdown B (m_physics s)\<rparr>)"

text \<open>\<open>finish()\<close> waits until the physics thread has ended its tick and has left its loop.\<close>

definition finish_physics :: "('f, 'v, 'w) bullet \<Rightarrow> ('f, 'w) qntsrv \<Rightarrow> fault + ('f, 'w) qntsrv" where
  "finish_physics B q =
     (if qs_tick q \<noteq> Asleep then Inr (q\<lparr>qs_ending := True\<rparr>)
      else res_bind (server_end B (qs_server q)) (\<lambda>s. Inr (q\<lparr>qs_server := s, qs_ending := False, qs_running := False\<rparr>)))"

text \<open>One turn of the server's thread; it blocks in \<open>wait_pop\<close> while the queue is empty.\<close>

definition server_turn :: "('f, 'v, 'w) bullet \<Rightarrow> ('f, 'w) qntsrv \<Rightarrow> fault + ('f, 'w) qntsrv" where
  "server_turn B q =
     (if \<not> qs_running q then Inr q
      else if qs_ending q then finish_physics B q
      else case queue_try_pop (qs_queue q) of
             None \<Rightarrow> Inr q
           | Some (msg, rest) \<Rightarrow>
               res_bind (server_dispatch msg (qs_server q)) (\<lambda>(looping, s).
               if looping then Inr (q\<lparr>qs_queue := rest, qs_server := s\<rparr>)
               else finish_physics B (q\<lparr>qs_queue := rest, qs_server := s\<rparr>)))"

text \<open>A step of the physics thread, and a whole tick of it with nothing in between.\<close>

definition physics_turn :: "('f, 'v, 'w) bullet \<Rightarrow> ('f, 'w) qntsrv \<Rightarrow> fault + ('f, 'w) qntsrv" where
  "physics_turn B q =
     (if \<not> qs_running q then Inr q
      else res_bind (physics_step B (qs_ending q) (qs_tick q) (qs_server q)) (\<lambda>(ph, s).
        Inr (q\<lparr>qs_server := s, qs_tick := ph\<rparr>)))"

definition whole_tick :: "('f, 'v, 'w) bullet \<Rightarrow> ('f, 'w) qntsrv \<Rightarrow> (fault + ('f, 'w) qntsrv) option" where
  "whole_tick B q =
     (if qs_running q \<and> qs_tick q = Asleep \<and> \<not> qs_ending q
      then map_option (\<lambda>r. res_bind r (\<lambda>s. Inr (q\<lparr>qs_server := s\<rparr>))) (physics_tick B (qs_server q))
      else Some (Inr q))"

definition watcher :: "('f, 'w) qntsrv \<Rightarrow> ('f, 'w) qntsrv" where
  "watcher q = (if qs_running q then q else q\<lparr>qs_stopped := True\<rparr>)"

definition main_return :: "('f, 'w) qntsrv \<Rightarrow> ('f, 'w) qntsrv" where
  "main_return q = (if qs_stopped q then q\<lparr>qs_exited := True\<rparr> else q)"

datatype 'f qs_event = QsPush "'f server_msg" | QsSignal | QsTurn | QsPhysics | QsWatch | QsReturn

fun qs_step :: "('f, 'v, 'w) bullet \<Rightarrow> 'f qs_event \<Rightarrow> ('f, 'w) qntsrv \<Rightarrow> fault + ('f, 'w) qntsrv" where
  "qs_step B (QsPush m) q = Inr (server_pushMessage m q)"
| "qs_step B QsSignal q = Inr (signal_handler q)"
| "qs_step B QsTurn q = server_turn B q"
| "qs_step B QsPhysics q = physics_turn B q"
| "qs_step B QsWatch q = Inr (watcher q)"
| "qs_step B QsReturn q = Inr (main_return q)"

section \<open>Lemmas\<close>

lemma close_all_live:
  "\<forall>c \<in> set cs. live_client c s \<Longrightarrow> fold_res close_client cs s = Inr (s\<lparr>srv_closed := srv_closed s @ cs\<rparr>)"
proof (induction cs arbitrary: s)
  case (Cons c cs)
  then have "close_client c s = Inr (s\<lparr>srv_closed := srv_closed s @ [c]\<rparr>)"
    by (simp add: close_client_def call_client_def live_client_def)
  moreover have "\<forall>d \<in> set cs. live_client d (s\<lparr>srv_closed := srv_closed s @ [c]\<rparr>)"
    using Cons.prems by (simp add: live_client_def)
  ultimately show ?case using Cons.IH [of "s\<lparr>srv_closed := srv_closed s @ [c]\<rparr>"] by simp
qed simp

lemma server_end_live:
  assumes "clients_live s"
  shows "server_end B s = Inr (s\<lparr>m_physics := physics_shutdown B (m_physics s),
    srv_closed := srv_closed s @ everybody s\<rparr>)"
proof -
  let ?s = "s\<lparr>m_physics := physics_shutdown B (m_physics s)\<rparr>"
  have "\<forall>c \<in> set (everybody ?s). live_client c ?s"
    using assms by (simp add: clients_live_def live_client_def)
  from close_all_live [OF this] show ?thesis by (simp add: server_end_def server_close_def)
qed

text \<open>
  A tick that is under way comes to rest by itself, and without any step in between does what the whole tick does.
\<close>

lemma physics_turns:
  "qs_running q \<Longrightarrow> \<not> qs_ending q \<Longrightarrow> fold_res (qs_step B) (replicate n QsPhysics) q =
    res_bind (physics_steps B n (qs_tick q) (qs_server q)) (\<lambda>(ph, s). Inr (q\<lparr>qs_server := s, qs_tick := ph\<rparr>))"
proof (induction n arbitrary: q)
  case (Suc n)
  then show ?case
    by (cases "physics_step B False (qs_tick q) (qs_server q)") (auto simp: physics_turn_def)
qed simp

lemma whole_tick_is_its_steps:
  assumes "qs_running q" and "qs_tick q = Asleep" and "\<not> qs_ending q"
  shows "\<exists>n. whole_tick B q = Some (fold_res (qs_step B) (replicate n QsPhysics) q)"
proof -
  let ?n = "length (ph_queue (m_physics (qs_server q))) + 3"
  have rest: "ph = Asleep" if "physics_steps B (length (ph_queue (m_physics s)) + 3) Asleep s = Inr (ph, t)" for ph s t
    using that by (rule steps_come_to_rest)
  have "whole_tick B q = Some (fold_res (qs_step B) (replicate ?n QsPhysics) q)"
    using assms rest [of "qs_server q"]
    by (cases "physics_steps B ?n Asleep (qs_server q)")
      (auto simp: whole_tick_def physics_turns tick_is_its_steps)
  then show ?thesis ..
qed

section \<open>Properties\<close>

text \<open>
  A signal ends the server program. The shutdown message goes on top of the queue, so the next turn of
  the server's thread takes it, whatever else is waiting; the physics world is taken down, every client is told once that
  the server has closed, players before the lobby; the watcher then stops the service and \<open>main\<close> returns.
  The messages that were waiting are never handled.
\<close>

lemma signal_ends_the_server_program:
  assumes "qs_running q" and "clients_live (qs_server q)" and "qs_tick q = Asleep" and "\<not> qs_ending q"
  shows "\<exists>t. fold_res (qs_step B) [QsSignal, QsTurn, QsWatch, QsReturn] q = Inr t \<and>
    qs_exited t \<and> \<not> qs_running t \<and> qs_queue t = qs_queue q \<and>
    srv_closed (qs_server t) = srv_closed (qs_server q) @ everybody (qs_server q) \<and>
    m_physics (qs_server t) = physics_shutdown B (m_physics (qs_server q))"
  using assms
  by (simp add: signal_handler_def server_pushMessage_def server_turn_def finish_physics_def queue_push_def lockless_push_def
      queue_pending server_end_live watcher_def main_return_def)

lemma signal_ends_the_server_program_witness:
  "\<forall>B :: (int, unit, unit) bullet. \<exists>t. fold_res (qs_step B) [QsSignal, QsTurn, QsWatch, QsReturn]
      ((qs_init () :: (int, unit) qntsrv)\<lparr>qs_queue := [ServerInputMsg 8 (Some 1)],
        qs_server := (server_init ())\<lparr>m_lobby_clients := [8], srv_live := [8]\<rparr>\<rparr>) = Inr t \<and>
    qs_exited t \<and> srv_closed (qs_server t) = [8] \<and> qs_queue t = [ServerInputMsg 8 (Some 1)]"
proof
  fix B :: "(int, unit, unit) bullet"
  let ?q = "(qs_init () :: (int, unit) qntsrv)\<lparr>qs_queue := [ServerInputMsg 8 (Some 1)],
        qs_server := (server_init ())\<lparr>m_lobby_clients := [8], srv_live := [8]\<rparr>\<rparr>"
  have "qs_running ?q" "clients_live (qs_server ?q)" "qs_tick ?q = Asleep" "\<not> qs_ending ?q"
    by (simp_all add: qs_init_def clients_live_def everybody_def server_init_def)
  from signal_ends_the_server_program [OF this, of B]
  show "\<exists>t. fold_res (qs_step B) [QsSignal, QsTurn, QsWatch, QsReturn] ?q = Inr t \<and>
    qs_exited t \<and> srv_closed (qs_server t) = [8] \<and> qs_queue t = [ServerInputMsg 8 (Some 1)]"
    by (elim ex_forward) (simp add: server_init_def everybody_def del: fold_res.simps)
qed

end
