(* ===== verification/Game.thy ===== *)
theory Game
  imports ServerMain PhysicsProperties ClientProperties WorldProperties
begin

text \<open>
  The game in one process, \<open>quintses.cpp\<close>: the server with its thread, the physics with its thread, and
  the client, whose calls on the server and the server's on the client are direct calls. The threads
  interleave at the granularity of one message of the server, one step of a tick, and one message of the client or the rest of a frame.
\<close>

section \<open>Frames that draw whatever is in memory\<close>

text \<open>
  A drawable whose first transform has not arrived has an uninitialised matrix, and \<open>frame\<close> of theory
  \<open>LocalClient\<close> faults when it is drawn. To follow the program past such a frame, \<open>frame_with\<close> draws what
  the memory happens to hold, \<open>J p\<close> for the drawable at address \<open>p\<close>; the two agree where \<open>frame\<close> has no fault.
\<close>

definition fill :: "(ptr \<Rightarrow> float_bits list) \<Rightarrow> renderer \<Rightarrow> renderer" where
  "fill J r = r\<lparr>gl_heap := map (\<lambda>(p, d). (p, if d_matrix d = None then d\<lparr>d_matrix := Some (J p)\<rparr> else d)) (gl_heap r)\<rparr>"

definition frame_with ::
    "(ptr \<Rightarrow> float_bits list) \<Rightarrow> x11 \<Rightarrow> ptr \<Rightarrow> frame_input \<Rightarrow> 'f client \<Rightarrow> (fault + 'f client) option" where
  "frame_with J X self fi c =
     map_option
       (\<lambda>r. res_bind r (\<lambda>c.
          let c = platformEvents X self (fi_events fi) (if fi_closed fi then serverClosed c else c)
          in res_bind (draw (fill J (lc_renderer c))) (\<lambda>calls. Inr (c\<lparr>lc_frames := lc_frames c @ [calls]\<rparr>))))
       (client_messages (fold client_pushMessage (fi_messages fi) c))"

lemma find_fill: "map_find p (gl_heap (fill J r)) =
    map_option (\<lambda>d. if d_matrix d = None then d\<lparr>d_matrix := Some (J p)\<rparr> else d) (map_find p (gl_heap r))"
proof -
  have "map_of (map (\<lambda>(p, d). (p, f p d)) h) p = map_option (f p) (map_of h p)" for f :: "ptr \<Rightarrow> drawable \<Rightarrow> drawable" and h
    by (induction h) auto
  then show ?thesis by (simp add: fill_def map_find_def)
qed

lemma drawables_fill [simp]: "m_drawables (fill J r) = m_drawables r"
  by (simp add: fill_def)

lemma fill_ok: "renderer_ok r \<Longrightarrow> renderer_ok (fill J r)"
  unfolding renderer_ok_def find_fill
  by (simp add: fill_def map_ok_def comp_def case_prod_unfold image_image)

lemma scene_fill:
  assumes "scene (fill J r) i = Some d"
  shows "d_matrix d \<noteq> None"
proof -
  from assms obtain p d' where "d = (if d_matrix d' = None then d'\<lparr>d_matrix := Some (J p)\<rparr> else d')"
    by (auto simp: scene_def find_fill split: option.splits)
  then show ?thesis by (cases "d_matrix d'") simp_all
qed

lemma draw_fill: "draw r = Inr calls \<Longrightarrow> draw (fill J r) = Inr calls"
proof -
  have "fold_res (\<lambda>(_, p) calls. case map_find p (gl_heap (fill J r)) of None \<Rightarrow> Inl UseAfterFree
      | Some d \<Rightarrow> res_bind (draw_one d) (\<lambda>cs. Inr (calls @ cs))) ds cs = Inr calls"
    if "fold_res (\<lambda>(_, p) calls. case map_find p (gl_heap r) of None \<Rightarrow> Inl UseAfterFree
      | Some d \<Rightarrow> res_bind (draw_one d) (\<lambda>cs. Inr (calls @ cs))) ds cs = Inr calls" for ds cs
    using that
  proof (induction ds arbitrary: cs)
    case (Cons x ds)
    obtain i p where x: "x = (i, p)" by (cases x)
    with Cons.prems obtain d cs' where d: "map_find p (gl_heap r) = Some d" "draw_one d = Inr cs'"
      by (auto simp: res_bind_eq_Inr split: option.splits)
    then obtain mat where "d_matrix d = Some mat" by (auto simp: draw_one_def split: option.splits)
    with d Cons x show ?case by (simp add: find_fill)
  qed simp
  moreover assume "draw r = Inr calls"
  ultimately show ?thesis by (simp add: draw_def)
qed

lemma frame_with_agrees:
  assumes "frame X self fi c = Some (Inr c')"
  shows "frame_with J X self fi c = Some (Inr c')"
proof -
  obtain r where r: "client_messages (fold client_pushMessage (fi_messages fi) c) = Some r"
    using assms by (auto simp: frame_def)
  with assms obtain c1 where c1: "r = Inr c1" by (cases r) (auto simp: frame_def)
  let ?c = "platformEvents X self (fi_events fi) (if fi_closed fi then serverClosed c1 else c1)"
  from assms r c1 obtain calls where calls: "draw (lc_renderer ?c) = Inr calls"
    "c' = ?c\<lparr>lc_frames := lc_frames ?c @ [calls]\<rparr>"
    by (auto simp: frame_def Let_def res_bind_eq_Inr)
  from draw_fill [OF calls(1)] calls(2) show ?thesis by (simp add: frame_with_def Let_def r c1)
qed

text \<open>
  One pass of the loop that empties the client's queue. A frame may be taken in the middle of that loop: what is left of it is
  a frame again.
\<close>

definition take_message :: "'f client \<Rightarrow> fault + 'f client" where
  "take_message c =
     (case queue_try_pop (lc_queue c) of
        None \<Rightarrow> Inr c
      | Some (m, q) \<Rightarrow> res_bind (dispatch m (lc_renderer c)) (\<lambda>r. Inr (c\<lparr>lc_renderer := r, lc_queue := q\<rparr>)))"

lemma client_messages_take:
  "client_messages c = (case take_message c of Inl e \<Rightarrow> Some (Inl e) | Inr c' \<Rightarrow> client_messages c')"
proof (cases "lc_queue c")
  case Nil
  then show ?thesis by (simp add: take_message_def queue_pending)
next
  case (Cons m q)
  then show ?thesis
    by (cases "dispatch m (lc_renderer c)")
      (simp_all add: take_message_def client_messages_def queue_pending drain.simps [of _ _ "m # q"])
qed

lemma frame_take:
  "frame_with J X self \<lparr>fi_messages = [], fi_closed = fin, fi_events = evs\<rparr> c =
    (case take_message c of Inl e \<Rightarrow> Some (Inl e)
     | Inr c' \<Rightarrow> frame_with J X self \<lparr>fi_messages = [], fi_closed = fin, fi_events = evs\<rparr> c')"
  by (simp add: frame_with_def client_messages_take [of c] split: sum.split)

lemma take_message_ok:
  assumes "renderer_ok (lc_renderer c)"
  shows "\<exists>r q. take_message c = Inr (c\<lparr>lc_renderer := r, lc_queue := q\<rparr>) \<and> renderer_ok r"
proof (cases "lc_queue c")
  case Nil
  with assms show ?thesis
    by (intro exI [of _ "lc_renderer c"] exI [of _ "[]"]) (simp add: take_message_def queue_pending)
next
  case (Cons m q)
  obtain r where "gl_pushMessage m (lc_renderer c) = Inr r" "renderer_ok r" using gl_step_refines [OF assms] by blast
  with Cons show ?thesis by (auto simp: take_message_def queue_pending dispatch_push)
qed

section \<open>State\<close>

text \<open>
  \<open>g_frame\<close> says that the client is in the middle of a frame, \<open>g_left\<close> says that the client has left its main loop and waits for the server's end in
  \<open>waitForTermination\<close>, \<open>g_exited\<close> that \<open>main\<close> has returned.
\<close>

record ('f, 'w) game =
  g_server :: "('f, 'w) qntsrv"
  g_client :: "'f client"
  g_frame :: bool
  g_left :: bool
  g_exited :: bool

text \<open>What one side has called on the other while its state went from the first to the second.\<close>

definition forward_messages ::
    "ptr \<Rightarrow> ('f, 'w) server \<Rightarrow> ('f, 'w) server \<Rightarrow> 'f client \<Rightarrow> 'f client" where
  "forward_messages self s s' cl =
     (let cl = fold client_pushMessage (drop (length (messages_to self s)) (messages_to self s')) cl
      in if self \<in> set (drop (length (srv_closed s)) (srv_closed s')) then serverClosed cl else cl)"

definition forward_calls :: "'f client \<Rightarrow> 'f client \<Rightarrow> ('f, 'w) qntsrv \<Rightarrow> ('f, 'w) qntsrv" where
  "forward_calls cl cl' q = fold server_pushMessage (drop (length (lc_sent cl)) (lc_sent cl')) q"

definition with_server :: "ptr \<Rightarrow> ('f, 'w) qntsrv \<Rightarrow> ('f, 'w) game \<Rightarrow> ('f, 'w) game" where
  "with_server self q g =
     g\<lparr>g_server := q,
       g_client := forward_messages self (qs_server (g_server g)) (qs_server q) (g_client g)\<rparr>"

definition with_client :: "'f client \<Rightarrow> ('f, 'w) game \<Rightarrow> ('f, 'w) game" where
  "with_client cl g = g\<lparr>g_client := cl, g_server := forward_calls (g_client g) cl (g_server g)\<rparr>"

text \<open>
  \<open>main\<close> up to the main loop: the server \<open>s\<close> is there, with its thread running; the client at address
  \<open>self\<close> is constructed, adds itself and asks for a player; it is made privileged.
\<close>

definition game_start :: "ptr \<Rightarrow> ('f, 'w) server \<Rightarrow> fault + ('f, 'w) game" where
  "game_start self s =
     (let s = s\<lparr>srv_live := set_insert self (srv_live s)\<rparr>; cl = client_init self in
      res_bind (addClient self s) (\<lambda>s'.
      let q = \<lparr>qs_queue = [], qs_server = s', qs_tick = Asleep, qs_ending = False,
               qs_running = True, qs_stopped = False, qs_exited = False\<rparr>;
          q = forward_calls (cl\<lparr>lc_sent := []\<rparr>) cl q
      in Inr \<lparr>g_server = q\<lparr>qs_server := makeClientPrivileged self (qs_server q)\<rparr>,
              g_client = forward_messages self s s' cl, g_frame = False, g_left = False, g_exited = False\<rparr>))"

section \<open>Steps\<close>

datatype game_event = Turn | Physics | Take | Frame "xevent list" | Leave | Return

fun game_step :: "x11 \<Rightarrow> (ptr \<Rightarrow> float_bits list) \<Rightarrow> ('f, 'v, 'w) bullet \<Rightarrow> ptr \<Rightarrow> game_event \<Rightarrow> ('f, 'w) game \<Rightarrow>
    (fault + ('f, 'w) game) option" where
  "game_step X J B self Turn g =
     Some (res_bind (server_turn B (g_server g)) (\<lambda>q. Inr (with_server self q g)))"
| "game_step X J B self Physics g =
     Some (res_bind (physics_turn B (g_server g)) (\<lambda>q. Inr (with_server self q g)))"
| "game_step X J B self Take g =
     Some (if m_finished (g_client g) \<and> \<not> g_frame g then Inr g
       else res_bind (take_message (g_client g)) (\<lambda>cl. Inr ((with_client cl g)\<lparr>g_frame := True\<rparr>)))"
| "game_step X J B self (Frame evs) g =
     (if m_finished (g_client g) \<and> \<not> g_frame g then Some (Inr g)
      else map_option (\<lambda>r. res_bind r (\<lambda>cl. Inr ((with_client cl g)\<lparr>g_frame := False\<rparr>)))
        (frame_with J X self \<lparr>fi_messages = [], fi_closed = False, fi_events = evs\<rparr> (g_client g)))"
| "game_step X J B self Leave g =
     Some (Inr (if m_finished (g_client g) \<and> \<not> g_frame g \<and> \<not> g_left g
       then (with_client (leave (server_isLocal (qs_server (g_server g))) self (g_client g)) g)\<lparr>g_left := True\<rparr>
       else g))"
| "game_step X J B self Return g =
     Some (Inr (if g_left g \<and> \<not> qs_running (g_server g) then g\<lparr>g_exited := True\<rparr> else g))"

fun game_run :: "x11 \<Rightarrow> (ptr \<Rightarrow> float_bits list) \<Rightarrow> ('f, 'v, 'w) bullet \<Rightarrow> ptr \<Rightarrow> game_event list \<Rightarrow> ('f, 'w) game \<Rightarrow>
    (fault + ('f, 'w) game) option" where
  "game_run X J B self [] g = Some (Inr g)"
| "game_run X J B self (e # es) g =
     (case game_step X J B self e g of
        None \<Rightarrow> None
      | Some (Inl err) \<Rightarrow> Some (Inl err)
      | Some (Inr g') \<Rightarrow> game_run X J B self es g')"

lemma game_run_append:
  "game_run X J B self es g = Some (Inr g') \<Longrightarrow> game_run X J B self (es @ es') g = game_run X J B self es' g'"
  by (induction es arbitrary: g) (auto split: option.splits sum.splits)

section \<open>Invariant\<close>

text \<open>What the client may post to the server, and what may then wait for the physics.\<close>

fun call_ok :: "ptr set \<Rightarrow> 'f server_msg \<Rightarrow> bool" where
  "call_ok C (ServerShutdownMsg _) = True"
| "call_ok C (ServerInputMsg c st) = (c \<in> C \<and> st \<noteq> None)"
| "call_ok C (ServerLoadPlayerMsg c _) = (c \<in> C)"
| "call_ok C _ = False"

fun posted_ok :: "ptr set \<Rightarrow> 'f server_msg \<Rightarrow> bool" where
  "posted_ok C (ServerInputMsg c st) = (c \<in> C \<and> st \<noteq> None)"
| "posted_ok C (DelPhysObjMsg _) = False"
| "posted_ok C (DelCharObjMsg _) = False"
| "posted_ok C _ = True"

definition side_ok :: "ptr set \<Rightarrow> ('f, 'w) server \<Rightarrow> bool" where
  "side_ok C s \<longleftrightarrow> phys_ok s \<and> (\<forall>c \<in> C. live_client c s) \<and> (\<forall>m \<in> set (ph_queue (m_physics s)). posted_ok C m)"

definition game_ok :: "ptr \<Rightarrow> ('f, 'w) game \<Rightarrow> bool" where
  "game_ok self g \<longleftrightarrow> side_ok {self} (qs_server (g_server g)) \<and>
     (\<forall>m \<in> set (qs_queue (g_server g)). call_ok {self} m) \<and> renderer_ok (lc_renderer (g_client g)) \<and>
     (g_left g \<longrightarrow> m_finished (g_client g) \<and> \<not> g_frame g)"

lemma forward_messages_frame [simp]:
  "m_finished cl \<Longrightarrow> m_finished (forward_messages self s s' cl)"
  "lc_renderer (forward_messages self s s' cl) = lc_renderer cl"
  "lc_sent (forward_messages self s s' cl) = lc_sent cl"
  "lc_frames (forward_messages self s s' cl) = lc_frames cl"
  by (simp_all add: forward_messages_def Let_def pushes_queue serverClosed_def)

lemma pushes_server: "fold server_pushMessage ms q = q\<lparr>qs_queue := rev ms @ qs_queue q\<rparr>"
  by (induction ms arbitrary: q) (simp_all add: server_pushMessage_def queue_push_def lockless_push_def)

lemma forward_calls_append:
  "lc_sent cl' = lc_sent cl @ ms \<Longrightarrow> forward_calls cl cl' q = q\<lparr>qs_queue := rev ms @ qs_queue q\<rparr>"
  by (simp add: forward_calls_def pushes_server)

text \<open>The physics never meets an identifier that is not there, as nothing asks for a deletion.\<close>

lemma ids_effect_posted:
  assumes "\<forall>m \<in> set ms. posted_ok C m"
  shows "\<exists>ids'. ids_effect ms ids = Some ids'"
  using assms
proof (induction ms arbitrary: ids)
  case (Cons m ms)
  obtain os cs where ids: "ids = (os, cs)" by (cases ids)
  from Cons.prems have "\<exists>ids'. id_effect m ids = Some ids'" by (cases m) (auto simp: ids)
  with Cons show ?case by auto
qed simp

lemma tick_side_ok:
  assumes "side_ok C s"
  shows "\<exists>s' ct. physics_tick B s = Some (Inr s') \<and> side_ok C s' \<and> ph_queue (m_physics s') = [] \<and>
    srv_closed s' = srv_closed s \<and> srv_live s' = srv_live s \<and> srv_sent s' = srv_sent s @ trans_messages ct (everybody s')"
proof -
  have live: "\<forall>c \<in> C. live_client c s" and q: "\<forall>m \<in> set (ph_queue (m_physics s)). posted_ok C m"
    and ok: "phys_ok s" using assms by (simp_all add: side_ok_def)
  have "\<forall>m \<in> set (ph_queue (m_physics s)). input_ok m s"
  proof
    fix m assume "m \<in> set (ph_queue (m_physics s))"
    with q have "posted_ok C m" by blast
    with live show "input_ok m s" by (cases m) auto
  qed
  moreover obtain ids where "ids_effect (ph_queue (m_physics s)) (phys_ids (m_physics s)) = Some ids"
    using ids_effect_posted [OF q] by blast
  ultimately obtain s' ct where "physics_tick B s = Some (Inr s')" "phys_ok s'"
    "ph_queue (m_physics s') = []" "srv_live s' = srv_live s"
    "srv_closed s' = srv_closed s" "srv_sent s' = srv_sent s @ trans_messages ct (everybody s')"
    using physics_tick_ids [OF ok, of B] by fastforce
  with live show ?thesis
    by (intro exI [of _ s'] exI [of _ ct]) (simp add: side_ok_def live_client_def)
qed

lemma physics_step_side_ok:
  assumes "side_ok C s"
  shows "\<exists>ph' s' ct. physics_step B fin ph s = Inr (ph', s') \<and> side_ok C s' \<and> srv_closed s' = srv_closed s \<and>
    srv_live s' = srv_live s \<and> srv_sent s' = srv_sent s @ trans_messages ct (everybody s')"
proof -
  have live: "\<forall>c \<in> C. live_client c s" and q: "\<forall>m \<in> set (ph_queue (m_physics s)). posted_ok C m"
    and ok: "phys_ok s" using assms by (simp_all add: side_ok_def)
  have none: "trans_messages [] cs = []" for cs by (simp add: trans_messages_def)
  show ?thesis
  proof (cases ph)
    case Asleep
    with assms none show ?thesis by (auto simp: physics_step_def intro: exI [of _ "[]"])
  next
    case (Pushing ct)
    have "side_ok C (s\<lparr>srv_sent := x\<rparr>)" "everybody (s\<lparr>srv_sent := x\<rparr>) = everybody s" for x
      using assms by (auto simp: side_ok_def phys_ok_def server_ok_def clients_live_def live_client_def everybody_def)
    moreover have "pushClientTransforms ct s = Inr (s\<lparr>srv_sent := srv_sent s @ trans_messages ct (everybody s)\<rparr>)"
      using pushClientTransforms_live [of s ct] ok by (simp add: phys_ok_def trans_messages_def)
    ultimately show ?thesis by (auto simp: Pushing physics_step_def intro: exI [of _ ct])
  next
    case Handling
    show ?thesis
    proof (cases "ph_queue (m_physics s)")
      case Nil
      let ?s = "s\<lparr>m_physics := simulate B (m_physics s)\<rparr>"
      have "phys_ok ?s" using ok by (intro phys_ok_physics) (auto simp: phys_ok_def server_ok_def)
      then have "phys_ok (runTickCallbacks ?s)" by (rule runTickCallbacks_phys)
      moreover have "ph_queue (m_physics (runTickCallbacks ?s)) = []" using Nil runTickCallbacks_phys(3) [of ?s] by simp
      ultimately have "side_ok C (runTickCallbacks ?s)" using live by (simp add: side_ok_def live_client_def)
      with Handling Nil none show ?thesis
        by (auto simp: physics_step_def queue_pending Let_def intro: exI [of _ "[]"])
    next
      case (Cons m rest)
      let ?s = "with_queue rest s"
      have posted: "posted_ok C m" using q Cons by simp
      with live have "input_ok m ?s" by (cases m) (auto simp: live_client_def)
      moreover obtain ids where "ids_effect [m] (phys_ids (m_physics ?s)) = Some ids"
        using ids_effect_posted [of "[m]" C "phys_ids (m_physics ?s)"] posted by auto
      ultimately obtain t where t: "parseMessage B m ?s = Inr t" "phys_ok t" "srv_live t = srv_live s"
        using fold_parse_refines [of ?s "[m]" B] ok by (auto simp: res_bind_eq_Inr)
      have "srv_sent t = srv_sent s" "srv_closed t = srv_closed s" using parse_frame [OF t(1)] by simp_all
      moreover have "side_ok C t"
        using t live q Cons parse_keeps_queue [OF t(1)] by (auto simp: side_ok_def live_client_def)
      ultimately show ?thesis
        using Handling Cons t none by (auto simp: physics_step_def queue_pending intro!: exI [of _ "[]"])
    qed
  qed
qed

lemma load_side_ok:
  assumes "side_ok C s" and "self \<in> C"
  shows "\<exists>s'. loadPlayer self t s = Inr s' \<and> side_ok C s' \<and> self \<in> fst ` set (m_clients s') \<and>
    srv_sent s' = srv_sent s @ map (\<lambda>d. (d, ClientAddDrawableMsg (m_next_id s) t)) (map fst (m_clients s'))"
proof -
  have live: "live_client self s" and ok: "phys_ok s" using assms by (simp_all add: side_ok_def)
  then have run: "loadPlayer self t s = Inr ((with_player self t s)\<lparr>srv_sent := srv_sent s @
      map (\<lambda>(d, _). (d, ClientAddDrawableMsg (m_next_id s) t)) (m_clients (with_player self t s))\<rparr>)"
    (is "_ = Inr ?s")
    using loadPlayer_live [of s self t] by (simp add: phys_ok_def)
  have "server_ok ?s"
    using server_ok_step [of "OpLoad self t" s ?s] run ok by (simp add: phys_ok_def)
  moreover have "clients_live ?s"
    using ok live
    by (auto simp: phys_ok_def clients_live_def live_client_def everybody_def map_insert_keys set_erase_def)
  ultimately show ?thesis
    using assms run
    by (auto simp: map_insert_keys side_ok_def phys_ok_def live_client_def addPhysical_def ph_pushMessage_def queue_push_def
        lockless_push_def case_prod_unfold)
qed

lemma dispatch_side_ok:
  assumes "side_ok C s" and "call_ok C m"
  shows "\<exists>b s'. server_dispatch m s = Inr (b, s') \<and> side_ok C s'"
proof (cases m)
  case (ServerLoadPlayerMsg c t)
  with assms(2) load_side_ok [OF assms(1), of c t] show ?thesis by auto
next
  case (ServerInputMsg c st)
  with assms show ?thesis
    by (auto simp: side_ok_def phys_ok_def server_ok_def clients_live_def live_client_def ph_pushMessage_def
        queue_push_def lockless_push_def)
qed (use assms in auto)

lemma end_side_ok:
  assumes "side_ok C s"
  shows "\<exists>s'. server_end B s = Inr s' \<and> side_ok C s' \<and> srv_closed s' = srv_closed s @ everybody s"
  using assms server_end_live [of s B]
  by (auto simp: side_ok_def phys_ok_def server_ok_def clients_live_def live_client_def everybody_def
      physics_shutdown_def)

lemma finish_ok:
  assumes "side_ok C (qs_server q)"
  shows "\<exists>q'. finish_physics B q = Inr q' \<and> side_ok C (qs_server q') \<and> qs_queue q' = qs_queue q"
  using assms end_side_ok [OF assms, of B] by (auto simp: finish_physics_def)

lemma turn_ok:
  assumes "game_ok self g"
  shows "\<exists>g'. game_step X J B self Turn g = Some (Inr g') \<and> game_ok self g'"
proof -
  let ?q = "g_server g"
  have ok: "side_ok {self} (qs_server ?q)" "\<forall>m \<in> set (qs_queue ?q). call_ok {self} m"
    using assms by (simp_all add: game_ok_def)
  have "\<exists>q. server_turn B ?q = Inr q \<and> side_ok {self} (qs_server q) \<and> (\<forall>m \<in> set (qs_queue q). call_ok {self} m)"
  proof (cases "qs_running ?q \<and> \<not> qs_ending ?q \<and> qs_queue ?q \<noteq> []")
    case False
    then consider "\<not> qs_running ?q \<or> \<not> qs_ending ?q \<and> qs_queue ?q = []" | "qs_running ?q" "qs_ending ?q" by blast
    then show ?thesis
    proof cases
      case 1
      then have "server_turn B ?q = Inr ?q" by (auto simp: server_turn_def queue_pending)
      with ok show ?thesis by blast
    next
      case 2
      then have "server_turn B ?q = finish_physics B ?q" by (simp add: server_turn_def)
      with ok(2) finish_ok [OF ok(1), of B] show ?thesis by auto
    qed
  next
    case True
    then obtain m rest where pop: "qs_queue ?q = m # rest" by (cases "qs_queue ?q") auto
    with ok(2) have "call_ok {self} m" by simp
    from dispatch_side_ok [OF ok(1) this] obtain b s
      where s: "server_dispatch m (qs_server ?q) = Inr (b, s)" "side_ok {self} s" by blast
    then have "side_ok {self} (qs_server (?q\<lparr>qs_queue := rest, qs_server := s\<rparr>))" by simp
    then obtain q where q: "finish_physics B (?q\<lparr>qs_queue := rest, qs_server := s\<rparr>) = Inr q" "side_ok {self} (qs_server q)"
      "qs_queue q = rest"
      using finish_ok [of "{self}" "?q\<lparr>qs_queue := rest, qs_server := s\<rparr>" B] by auto
    have "server_turn B ?q = (if b then Inr (?q\<lparr>qs_queue := rest, qs_server := s\<rparr>) else Inr q)"
      using True pop s(1) q(1) by (simp add: server_turn_def queue_pending)
    with ok(2) pop s(2) q show ?thesis by (cases b) simp_all
  qed
  with assms show ?thesis by (auto simp: game_ok_def with_server_def)
qed

lemma physics_turn_ok:
  assumes "game_ok self g"
  shows "\<exists>g'. game_step X J B self Physics g = Some (Inr g') \<and> game_ok self g'"
proof -
  let ?q = "g_server g"
  obtain ph s ct where "physics_step B (qs_ending ?q) (qs_tick ?q) (qs_server ?q) = Inr (ph, s)" "side_ok {self} s"
    using physics_step_side_ok [of "{self}" "qs_server ?q" B "qs_ending ?q" "qs_tick ?q"] assms by (auto simp: game_ok_def)
  with assms show ?thesis by (auto simp: game_ok_def with_server_def physics_turn_def)
qed

lemma frame_outcome:
  assumes "renderer_ok (lc_renderer cl)"
  shows "\<exists>cl' ms. frame_with J X self \<lparr>fi_messages = [], fi_closed = False, fi_events = evs\<rparr> cl = Some (Inr cl') \<and>
    renderer_ok (lc_renderer cl') \<and> lc_sent cl' = lc_sent cl @ ms \<and> (\<forall>m \<in> set ms. \<exists>km. m = ServerInputMsg self (Some km)) \<and>
    (m_finished cl' \<longleftrightarrow> m_finished cl \<or> ClientMessage (WM_PROTOCOLS X) (WM_DELETE_WINDOW X) \<in> set evs) \<and>
    length (lc_frames cl') = Suc (length (lc_frames cl))"
proof -
  obtain r where r: "client_messages (fold client_pushMessage [] cl) =
      Some (Inr (cl\<lparr>lc_renderer := r, lc_queue := []\<rparr>))" "renderer_ok r"
    using messages_newest_first [OF assms, of "[]"] by blast
  obtain calls where "draw (fill J r) = Inr calls"
    using draw_complete [OF fill_ok [OF r(2)], of J] scene_fill by blast
  with r show ?thesis
    by (simp add: frame_with_def Let_def platformEvents_def process_events)
qed

lemma frame_ok:
  assumes "game_ok self g"
  shows "\<exists>g'. game_step X J B self (Frame evs) g = Some (Inr g') \<and> game_ok self g'"
proof (cases "m_finished (g_client g) \<and> \<not> g_frame g")
  case False
  have "renderer_ok (lc_renderer (g_client g))" using assms by (simp add: game_ok_def)
  from frame_outcome [OF this, of J X self evs] obtain cl' ms where
    cl': "frame_with J X self \<lparr>fi_messages = [], fi_closed = False, fi_events = evs\<rparr> (g_client g) = Some (Inr cl')"
      "renderer_ok (lc_renderer cl')" "lc_sent cl' = lc_sent (g_client g) @ ms" "\<forall>m \<in> set ms. \<exists>km. m = ServerInputMsg self (Some km)"
    by blast
  have "game_ok self ((with_client cl' g)\<lparr>g_frame := False\<rparr>)"
    using assms cl' False by (auto simp: game_ok_def with_client_def forward_calls_append [OF cl'(3)])
  with False cl'(1) show ?thesis by auto
qed (use assms in simp)

lemma take_ok:
  assumes "game_ok self g"
  shows "\<exists>g'. game_step X J B self Take g = Some (Inr g') \<and> game_ok self g'"
proof (cases "m_finished (g_client g) \<and> \<not> g_frame g")
  case False
  have "renderer_ok (lc_renderer (g_client g))" using assms by (simp add: game_ok_def)
  from take_message_ok [OF this] obtain r q
    where t: "take_message (g_client g) = Inr ((g_client g)\<lparr>lc_renderer := r, lc_queue := q\<rparr>)" "renderer_ok r" by blast
  have "game_ok self ((with_client ((g_client g)\<lparr>lc_renderer := r, lc_queue := q\<rparr>) g)\<lparr>g_frame := True\<rparr>)"
    using assms t(2) False by (auto simp: game_ok_def with_client_def forward_calls_append [of _ _ "[]"])
  with False t(1) show ?thesis by auto
qed (use assms in simp)

lemma leave_return_ok:
  assumes "game_ok self g" and "e = Leave \<or> e = Return"
  shows "\<exists>g'. game_step X J B self e g = Some (Inr g') \<and> game_ok self g'"
proof -
  have "lc_sent (leave True self (g_client g)) = lc_sent (g_client g) @ [ServerShutdownMsg self]"
    "lc_renderer (leave True self (g_client g)) = lc_renderer (g_client g)"
    "m_finished (leave True self (g_client g)) = m_finished (g_client g)"
    by (simp_all add: leave_def)
  with assms show ?thesis
    by (auto simp: game_ok_def with_client_def server_isLocal_def forward_calls_append)
qed

lemma step_ok:
  assumes "game_ok self g"
  shows "\<exists>g'. game_step X J B self e g = Some (Inr g') \<and> game_ok self g'"
  using turn_ok [OF assms] physics_turn_ok [OF assms] take_ok [OF assms] frame_ok [OF assms] leave_return_ok [OF assms] by (cases e) blast+

lemma run_ok:
  assumes "game_ok self g"
  shows "\<exists>g'. game_run X J B self es g = Some (Inr g') \<and> game_ok self g'"
  using assms
proof (induction es arbitrary: g)
  case (Cons e es)
  from step_ok [OF Cons.prems, of X J B e] Cons.IH show ?case by fastforce
qed simp

text \<open>The server before the first client: any state the loading of a world can leave.\<close>

fun is_addition :: "'f server_msg \<Rightarrow> bool" where
  "is_addition (AddPhysObjMsg _ _ _) = True"
| "is_addition (AddCharObjMsg _ _ _) = True"
| "is_addition _ = False"

lemma is_addition_posted: "is_addition m \<Longrightarrow> posted_ok C m"
  by (cases m) auto

definition server_alone :: "('f, 'w) server \<Rightarrow> bool" where
  "server_alone s \<longleftrightarrow> server_ok s \<and> everybody s = [] \<and> srv_sent s = [] \<and> srv_closed s = [] \<and>
     list_all is_addition (ph_queue (m_physics s))"

lemma start_ok:
  assumes "server_alone s" and "self \<noteq> 0"
  shows "\<exists>g. game_start self s = Inr g \<and> game_ok self g \<and> qs_queue (g_server g) = [ServerLoadPlayerMsg self ''Player''] \<and>
    qs_running (g_server g) \<and> qs_tick (g_server g) = Asleep \<and> \<not> qs_ending (g_server g) \<and>
    \<not> m_finished (g_client g) \<and> \<not> g_left g"
proof -
  let ?s = "s\<lparr>srv_live := set_insert self (srv_live s)\<rparr>"
  have live: "live_client self ?s" using assms(2) by (simp add: live_client_def)
  have posted: "\<forall>m \<in> set (ph_queue (m_physics s)). posted_ok {self} m"
    using assms(1) is_addition_posted by (auto simp: server_alone_def list_all_iff)
  show ?thesis
    using assms posted live addClient_live [OF live] renderer_init_ok(1)
    by (auto simp: game_start_def Let_def server_alone_def game_ok_def side_ok_def phys_ok_def server_ok_def
        clients_live_def live_client_def everybody_def forward_calls_def pushes_server makeClientPrivileged_def
        client_init_def forward_messages_def pushes_queue)
qed

lemma server_alone_init: "server_alone (server_init w)"
  by (simp add: server_alone_def server_init_def server_ok_def map_ok_def set_ok_def everybody_def)

definition added_only :: "('f, 'w) server \<Rightarrow> bool" where
  "added_only s = list_all is_addition (ph_queue (m_physics s))"

lemma added_only_place: "added_only s \<Longrightarrow> added_only (place_baddie g x y s)"
  by (simp add: added_only_def place_baddie_def getNextIdentifier_def Let_def addPhysical_def ph_pushMessage_def
      queue_push_def lockless_push_def)

lemma added_only_mobs:
  assumes "place_mobs F g s = Some t" and "added_only s"
  shows "added_only t"
  using assms(1) unfolding place_mobs_def
proof (rule count_loop_invariant)
  fix x u u'
  assume "added_only u"
    and run: "count_loop (of_integer F (mg_ydiv g)) (mg_ydelta g) (\<lambda>y s. Some (place_baddie g x y s)) 0 (mg_ymin g) u
      = Some u'"
  show "added_only u'"
    using run \<open>added_only u\<close> by (rule count_loop_invariant) (use added_only_place in blast)
qed (rule assms(2))

lemma added_only_load:
  assumes "load_document F doc s = Some (Inr t)" and "added_only s"
  shows "added_only t"
proof (cases "first_node ''QuintsesWorld'' doc")
  case None
  with assms show ?thesis by (simp add: load_document_def)
next
  case (Some w)
  with assms obtain u where u: "load_spawn F w s = Inr u"
    by (auto simp: load_document_def split: sum.splits)
  have "added_only u"
    using u assms(2) by (auto simp: load_spawn_def res_bind_eq_Inr added_only_def split: option.splits)
  moreover from assms Some u obtain g v where g: "place_mobs F g u = Some v"
    and rest: "fold_res (load_blocker F) (nodes_from ''Blocker'' w) v = Inr t"
    by (auto simp: load_document_def loadMobGroup_def split: sum.splits)
  ultimately have v: "added_only v" using added_only_mobs by blast
  show ?thesis
    using rest v
    by (rule fold_res_invariant)
      (auto simp: load_blocker_def res_bind_eq_Inr getNextIdentifier_def added_only_def addPhysical_def
        ph_pushMessage_def queue_push_def lockless_push_def)
qed

lemma server_alone_load:
  assumes "server_alone s" and "load_document F doc s = Some (Inr t)"
  shows "server_alone t"
  using assms added_only_load [OF assms(2)] server_ok_loaded [OF _ assms(2)] load_document_effect [OF assms(2)]
  by (auto simp: server_alone_def added_only_def same_clients_def everybody_def)

lemma parse_addition:
  assumes "is_addition m" and "parseMessage B m s = Inr t"
  shows "everybody t = everybody s \<and> srv_sent t = srv_sent s \<and> srv_closed t = srv_closed s \<and>
    (server_ok s \<longrightarrow> server_ok t)"
proof (cases m)
  case (AddPhysObjMsg i templ mat)
  with assms show ?thesis by (auto simp: server_ok_def split: option.split)
next
  case (AddCharObjMsg i templ mat)
  with assms show ?thesis by (auto simp: server_ok_def)
qed (use assms in auto)

lemma server_alone_tick:
  assumes "server_alone s"
  shows "\<exists>t. physics_tick B s = Some (Inr t) \<and> server_alone t"
proof -
  let ?q = "ph_queue (m_physics s)"
  let ?I = "\<lambda>u. everybody u = [] \<and> srv_sent u = [] \<and> srv_closed u = [] \<and> server_ok u"
  have adds: "\<forall>m \<in> set ?q. is_addition m" using assms by (simp add: server_alone_def list_all_iff)
  obtain s1 where s1: "fold_res (parseMessage B) ?q (without_queue s) = Inr s1"
  proof -
    have "\<exists>t. fold_res (parseMessage B) ms u = Inr t" if "\<forall>m \<in> set ms. is_addition m" for ms u
      using that
    proof (induction ms arbitrary: u)
      case (Cons m ms)
      then have "\<exists>t. parseMessage B m u = Inr t" by (cases m) auto
      with Cons show ?case by auto
    qed simp
    with adds that show ?thesis by blast
  qed
  have "?I s1"
  proof (rule fold_res_invariant [OF s1, where I = ?I])
    show "?I (without_queue s)"
      using assms by (simp add: server_alone_def without_queue_def everybody_def server_ok_def)
    show "?I u'" if "m \<in> set ?q" "?I u" "parseMessage B m u = Inr u'" for m u u'
      using parse_addition [OF _ that(3)] adds that(1,2) by auto
  qed
  then have ok: "phys_ok (without_queue s1)" "everybody (without_queue s1) = []"
    "srv_sent (without_queue s1) = []" "srv_closed (without_queue s1) = []"
    by (simp_all add: phys_ok_without_queue phys_ok_def clients_live_def) (simp_all add: without_queue_def everybody_def server_ok_def)
  from tick_after_messages [OF ok(1), of B] s1 ok show ?thesis
    by (fastforce simp: physics_tick_def handle_messages_fold server_alone_def phys_ok_def trans_messages_def)
qed

section \<open>The game as a whole\<close>


text \<open>A run with input, on a server without a world.\<close>

abbreviation sample_x11 :: x11 where
  "sample_x11 \<equiv> \<lparr>XK_Left = 65361, XK_Right = 65363, WM_PROTOCOLS = 5, WM_DELETE_WINDOW = 6\<rparr>"


text \<open>A tick that is under way is over after some steps of the physics thread.\<close>

lemma physics_rests:
  assumes "game_ok self g" and "qs_running (g_server g)" and "\<not> qs_ending (g_server g)"
  shows "\<exists>n g'. game_run X J B self (replicate n Physics) g = Some (Inr g') \<and> game_ok self g' \<and>
    qs_tick (g_server g') = Asleep \<and> qs_running (g_server g') \<and> \<not> qs_ending (g_server g') \<and>
    m_finished (g_client g') = m_finished (g_client g) \<and> lc_frames (g_client g') = lc_frames (g_client g)"
  using assms
proof (induction "steps_left (qs_tick (g_server g)) (qs_server (g_server g))" arbitrary: g rule: less_induct)
  case less
  let ?q = "g_server g"
  show ?case
  proof (cases "qs_tick ?q = Asleep")
    case True
    with less.prems have "game_run X J B self (replicate 0 Physics) g = Some (Inr g)" by simp
    with True less.prems show ?thesis by (intro exI [of _ 0] exI [of _ g]) simp
  next
    case False
    have "side_ok {self} (qs_server ?q)" using less.prems(1) by (simp add: game_ok_def)
    then obtain ph s ct where ph: "physics_step B False (qs_tick ?q) (qs_server ?q) = Inr (ph, s)"
      "srv_closed s = srv_closed (qs_server ?q)" "side_ok {self} s"
      using physics_step_side_ok [of "{self}" "qs_server ?q" B False "qs_tick ?q"] by blast
    let ?g = "with_server self (?q\<lparr>qs_server := s, qs_tick := ph\<rparr>) g"
    have step: "game_step X J B self Physics g = Some (Inr ?g)"
      using less.prems ph(1) by (simp add: physics_turn_def)
    have ok: "game_ok self ?g" using physics_turn_ok [OF less.prems(1), of X J B] step by simp
    have cl: "m_finished (g_client ?g) = m_finished (g_client g)" "lc_frames (g_client ?g) = lc_frames (g_client g)"
      by (simp_all add: with_server_def forward_messages_def ph(2) pushes_queue)
    have srv: "qs_tick (g_server ?g) = ph" "qs_server (g_server ?g) = s" "qs_running (g_server ?g)" "\<not> qs_ending (g_server ?g)"
      using less.prems by (simp_all add: with_server_def)
    have "steps_left (qs_tick (g_server ?g)) (qs_server (g_server ?g)) < steps_left (qs_tick ?q) (qs_server ?q)"
      unfolding srv by (rule steps_left_less [OF ph(1) False])
    from less.hyps [OF this ok srv(3,4)] obtain n g' where
      g': "game_run X J B self (replicate n Physics) ?g = Some (Inr g')" "game_ok self g'"
      "qs_tick (g_server g') = Asleep" "qs_running (g_server g')" "\<not> qs_ending (g_server g')"
      "m_finished (g_client g') = m_finished (g_client g)" "lc_frames (g_client g') = lc_frames (g_client g)"
      unfolding cl by blast
    have "game_run X J B self (replicate (Suc n) Physics) g = Some (Inr g')"
      using g'(1) step by (simp del: game_step.simps)
    with g' show ?thesis by (intro exI [of _ "Suc n"] exI [of _ g']) simp
  qed
qed

lemma closing_between_ticks:
  assumes "game_ok self g" and "qs_running (g_server g)" and "\<not> m_finished (g_client g)"
    and "ClientMessage (WM_PROTOCOLS X) (WM_DELETE_WINDOW X) \<in> set evs"
    and "qs_tick (g_server g) = Asleep" and "\<not> qs_ending (g_server g)"
  shows "\<exists>g'. game_run X J B self [Frame evs, Leave, Turn, Return] g = Some (Inr g') \<and> g_exited g' \<and>
    \<not> qs_running (g_server g') \<and>
    length (lc_frames (g_client g')) = length (lc_frames (g_client g)) + 1 \<and>
    srv_closed (qs_server (g_server g')) =
      srv_closed (qs_server (g_server g)) @ everybody (qs_server (g_server g)) \<and>
    m_physics (qs_server (g_server g')) = physics_shutdown B (m_physics (qs_server (g_server g)))"
proof -
  let ?q = "g_server g" and ?cl = "g_client g"
  have live: "clients_live (qs_server ?q)" and left: "\<not> g_left g" and rend: "renderer_ok (lc_renderer ?cl)"
    using assms(1,3) by (auto simp: game_ok_def side_ok_def phys_ok_def)
  obtain cl ms where cl: "frame_with J X self \<lparr>fi_messages = [], fi_closed = False, fi_events = evs\<rparr> ?cl = Some (Inr cl)"
    "lc_sent cl = lc_sent ?cl @ ms" "m_finished cl" "length (lc_frames cl) = Suc (length (lc_frames ?cl))"
    using frame_outcome [OF rend, of J X self evs] assms(4) by blast
  let ?g1 = "(with_client cl g)\<lparr>g_frame := False\<rparr>"
  have g1: "game_step X J B self (Frame evs) g = Some (Inr ?g1)" using assms(3) cl(1) by simp
  have q1: "g_server ?g1 = ?q\<lparr>qs_queue := rev ms @ qs_queue ?q\<rparr>" "g_client ?g1 = cl" "\<not> g_left ?g1" "\<not> g_frame ?g1"
    using left by (simp_all add: with_client_def forward_calls_append [OF cl(2)])
  have sent: "lc_sent (leave True self cl) = lc_sent cl @ [ServerShutdownMsg self]" by (simp add: leave_def)
  obtain g2 where g2: "game_step X J B self Leave ?g1 = Some (Inr g2)" "g_left g2" "g_client g2 = leave True self cl"
    "g_server g2 = ?q\<lparr>qs_queue := ServerShutdownMsg self # rev ms @ qs_queue ?q\<rparr>"
    using q1 cl(3) by (simp add: server_isLocal_def with_client_def [of "leave True self cl"]
        forward_calls_append [OF sent])
  let ?q3 = "?q\<lparr>qs_queue := rev ms @ qs_queue ?q,
    qs_server := (qs_server ?q)\<lparr>m_physics := physics_shutdown B (m_physics (qs_server ?q)),
      srv_closed := srv_closed (qs_server ?q) @ everybody (qs_server ?q)\<rparr>, qs_ending := False, qs_running := False\<rparr>"
  have "server_turn B (g_server g2) = Inr ?q3"
    using assms(2,5,6) server_end_live [OF live, of B]
    by (simp add: server_turn_def finish_physics_def g2(4) queue_pending)
  then have g3: "game_step X J B self Turn g2 = Some (Inr (with_server self ?q3 g2))" by simp
  have "length (lc_frames (g_client (with_server self ?q3 g2))) = length (lc_frames ?cl) + 1"
    using cl(4) by (simp add: with_server_def g2(3) leave_def)
  moreover have "game_step X J B self Return (with_server self ?q3 g2) =
      Some (Inr ((with_server self ?q3 g2)\<lparr>g_exited := True\<rparr>))"
    using g2(2) by (simp add: with_server_def)
  then have "game_run X J B self [Frame evs, Leave, Turn, Return] g =
      Some (Inr ((with_server self ?q3 g2)\<lparr>g_exited := True\<rparr>))"
    by (simp add: g1 g2(1) g3 del: game_step.simps)
  ultimately show ?thesis
    by (intro exI [of _ "(with_server self ?q3 g2)\<lparr>g_exited := True\<rparr>"]) (simp add: with_server_def)
qed



section \<open>The first frame\<close>

text \<open>The client's queue once a player has been announced and nothing has been drawn: transforms on top of additions.\<close>

fun is_transform :: "client_msg \<Rightarrow> bool" where
  "is_transform (ClientTransDrawableMsg _ _) = True"
| "is_transform _ = False"

fun is_announcement :: "client_msg \<Rightarrow> bool" where
  "is_announcement (ClientAddDrawableMsg _ _) = True"
| "is_announcement _ = False"

definition undrawn :: "'f client \<Rightarrow> bool" where
  "undrawn cl \<longleftrightarrow> scene (lc_renderer cl) = (\<lambda>_. None) \<and>
     (\<exists>trs ads. lc_queue cl = trs @ ads \<and> list_all is_transform trs \<and> list_all is_announcement ads \<and> ads \<noteq> [])"

lemma scene_transforms: "list_all is_transform ms \<Longrightarrow> fold scene_step ms (\<lambda>_. None) = (\<lambda>_. None)"
  by (induction ms) (auto elim: is_transform.elims)

lemma scene_announcements:
  assumes "list_all is_announcement ms" and "\<forall>i d. sc i = Some d \<longrightarrow> d_matrix d = None"
  shows "(\<forall>i d. fold scene_step ms sc i = Some d \<longrightarrow> d_matrix d = None) \<and>
    (ms \<noteq> [] \<or> (\<exists>i. sc i \<noteq> None) \<longrightarrow> (\<exists>i. fold scene_step ms sc i \<noteq> None))"
  using assms
proof (induction ms arbitrary: sc)
  case (Cons m ms)
  then obtain i t where m: "m = ClientAddDrawableMsg i t" by (auto elim: is_announcement.elims)
  have "\<forall>j d. scene_step m sc j = Some d \<longrightarrow> d_matrix d = None" using Cons.prems(2) by (auto simp: m)
  moreover have "scene_step m sc i \<noteq> None" by (auto simp: m)
  moreover have "list_all is_announcement ms" using Cons.prems(1) by simp
  ultimately have "(\<forall>i d. fold scene_step ms (scene_step m sc) i = Some d \<longrightarrow> d_matrix d = None) \<and>
      (\<exists>i. fold scene_step ms (scene_step m sc) i \<noteq> None)"
    using Cons.IH [of "scene_step m sc"] by blast
  then show ?case unfolding fold.simps o_def by blast
qed auto

lemma undrawn_frame:
  assumes "undrawn cl" and "renderer_ok (lc_renderer cl)"
  shows "frame X self \<lparr>fi_messages = [], fi_closed = False, fi_events = evs\<rparr> cl = Some (Inl Indeterminate)"
proof -
  obtain trs ads where q: "lc_queue cl = trs @ ads" "list_all is_transform trs" "list_all is_announcement ads" "ads \<noteq> []"
    "scene (lc_renderer cl) = (\<lambda>_. None)"
    using assms(1) by (auto simp: undrawn_def)
  obtain r where r: "client_messages (fold client_pushMessage [] cl) =
      Some (Inr (cl\<lparr>lc_renderer := r, lc_queue := []\<rparr>))" "renderer_ok r"
    "scene r = fold scene_step (trs @ ads) (\<lambda>_. None)"
    using messages_newest_first [OF assms(2), of "[]"] q(1,5) by auto
  have "scene r = fold scene_step ads (\<lambda>_. None)" using r(3) scene_transforms [OF q(2)] by simp
  with scene_announcements [OF q(3), of "\<lambda>_. None"] q(4) obtain i d where "scene r i = Some d" "d_matrix d = None"
    by fastforce
  from draw_incomplete [OF r(2) this] r(1) show ?thesis
    by (simp add: frame_def Let_def platformEvents_def case_prod_unfold)
qed

lemma undrawn_more:
  assumes "undrawn cl" and "list_all is_transform ms" and "messages_to self s' = messages_to self s @ ms"
  shows "undrawn (forward_messages self s s' cl)"
proof -
  obtain trs ads where "lc_queue cl = trs @ ads" "list_all is_transform trs" "list_all is_announcement ads" "ads \<noteq> []"
    using assms(1) by (auto simp: undrawn_def)
  then have "lc_queue (forward_messages self s s' cl) = (rev ms @ trs) @ ads \<and> list_all is_transform (rev ms @ trs)"
    using assms(2,3) by (simp add: forward_messages_def Let_def pushes_queue serverClosed_def)
  with \<open>list_all is_announcement ads\<close> \<open>ads \<noteq> []\<close> assms(1) show ?thesis
    unfolding undrawn_def forward_messages_frame by blast
qed

lemma messages_trans: "list_all is_transform (map snd (filter P (trans_messages ct cs)))"
  by (auto simp: trans_messages_def list_all_iff)

lemma physics_undrawn:
  assumes "game_ok self g" and "undrawn (g_client g)"
  shows "\<exists>g'. game_step X J B self Physics g = Some (Inr g') \<and> game_ok self g' \<and> undrawn (g_client g')"
proof (cases "qs_running (g_server g)")
  case True
  let ?q = "g_server g"
  obtain ph s' ct where s': "physics_step B (qs_ending ?q) (qs_tick ?q) (qs_server ?q) = Inr (ph, s')"
    "srv_sent s' = srv_sent (qs_server ?q) @ trans_messages ct (everybody s')"
    using physics_step_side_ok [of "{self}" "qs_server ?q" B "qs_ending ?q" "qs_tick ?q"] assms(1) by (auto simp: game_ok_def)
  let ?g = "with_server self (?q\<lparr>qs_server := s', qs_tick := ph\<rparr>) g"
  have step: "game_step X J B self Physics g = Some (Inr ?g)" using True s'(1) by (simp add: physics_turn_def)
  have "game_ok self ?g" using physics_turn_ok [OF assms(1), of X J B] step by simp
  moreover have "undrawn (forward_messages self (qs_server ?q) s' (g_client g))"
    by (rule undrawn_more [OF assms(2) messages_trans]) (simp add: messages_to_def s'(2))
  ultimately show ?thesis using step by (simp add: with_server_def)
qed (use assms in \<open>simp add: physics_turn_def with_server_def forward_messages_def\<close>)

lemma physics_steps_undrawn:
  assumes "game_ok self g" and "undrawn (g_client g)"
  shows "\<exists>g'. game_run X J B self (replicate n Physics) g = Some (Inr g') \<and> game_ok self g' \<and> undrawn (g_client g')"
  using assms
proof (induction n arbitrary: g)
  case (Suc n)
  from physics_undrawn [OF Suc.prems, of X J B] Suc.IH show ?case by fastforce
qed auto

text \<open>After the server's first message the client has been told of its player, and has drawn nothing.\<close>

lemma first_turn_undrawn:
  assumes "server_alone s" and "self \<noteq> 0" and "game_start self s = Inr g0"
  shows "\<exists>g. game_step X J B self Turn g0 = Some (Inr g) \<and> game_ok self g \<and> undrawn (g_client g) \<and>
    \<not> m_finished (g_client g)"
proof -
  let ?s = "s\<lparr>srv_live := set_insert self (srv_live s)\<rparr>"
  have ok: "game_ok self g0" and q: "qs_queue (g_server g0) = [ServerLoadPlayerMsg self ''Player'']"
    and run: "qs_running (g_server g0)" and ending: "\<not> qs_ending (g_server g0)" and fin: "\<not> m_finished (g_client g0)"
    using start_ok [OF assms(1,2)] assms(3) by auto
  have "live_client self ?s" using assms(2) by (simp add: live_client_def)
  from addClient_live [OF this] assms(1,3)
  have g0: "lc_queue (g_client g0) = rev (announcements ?s)" "lc_renderer (g_client g0) = renderer_init"
    by (auto simp: game_start_def Let_def forward_messages_def pushes_queue messages_to_def server_alone_def
        client_init_def filter_map o_def)
  have ads: "list_all is_announcement (announcements ?s)"
    by (auto simp: announcements_def list_all_iff)
  have side: "side_ok {self} (qs_server (g_server g0))" using ok by (simp add: game_ok_def)
  obtain s' where s': "loadPlayer self ''Player'' (qs_server (g_server g0)) = Inr s'" "side_ok {self} s'"
    "self \<in> fst ` set (m_clients s')"
    "srv_sent s' = srv_sent (qs_server (g_server g0)) @
      map (\<lambda>d. (d, ClientAddDrawableMsg (m_next_id (qs_server (g_server g0))) ''Player'')) (map fst (m_clients s'))"
    using load_side_ok [OF side, of self] by blast
  let ?new = "map (\<lambda>d. ClientAddDrawableMsg (m_next_id (qs_server (g_server g0))) ''Player'')
    (filter (\<lambda>d. d = self) (map fst (m_clients s')))"
  have msgs: "messages_to self s' = messages_to self (qs_server (g_server g0)) @ ?new"
    by (simp add: messages_to_def s'(4) filter_map o_def)
  let ?q = "(g_server g0)\<lparr>qs_queue := [], qs_server := s'\<rparr>"
  have "server_turn B (g_server g0) = Inr ?q"
    using run ending q s'(1) by (simp add: server_turn_def queue_pending)
  then have step: "game_step X J B self Turn g0 = Some (Inr (with_server self ?q g0))" by simp
  have "srv_closed s' = srv_closed (qs_server (g_server g0))"
    using s'(1) step_load [of self "''Player''" "qs_server (g_server g0)" s'] by (auto simp: with_player_def)
  then have fwd: "forward_messages self (qs_server (g_server g0)) s' (g_client g0) =
      fold client_pushMessage ?new (g_client g0)"
    by (simp add: forward_messages_def msgs)
  have "?new \<noteq> []" using s'(3) by (auto simp: filter_empty_conv)
  then have "undrawn (fold client_pushMessage ?new (g_client g0))"
    unfolding undrawn_def pushes_queue using ads renderer_init_ok(2)
    by (intro conjI exI [of _ "[]"] exI [of _ "rev ?new @ rev (announcements ?s)"])
      (auto simp: g0 list_all_iff)
  moreover have "game_ok self (with_server self ?q g0)" using turn_ok [OF ok, of X J B] step by simp
  ultimately show ?thesis using step fin fwd by (simp add: with_server_def pushes_queue)
qed



end
