(* ===== verification/PhysicsMemory.thy ===== *)
theory PhysicsMemory
  imports PhysicsWorld
begin

text \<open>
  What the physics thread of \<open>server/bullet/btphysics.cpp\<close> creates and deletes: the parts of the Bullet
  world before and after the loop of \<open>run\<close>, and for every plane and character the objects behind it. The
  Bullet of theory \<open>Physics\<close>, a parameter there, is refined here to one that also does these calls on
  an explicit memory; how it moves things stays a parameter.
\<close>

section \<open>Objects and calls\<close>

text \<open>The objects the code allocates with \<open>new\<close>; a number tells the planes and characters apart.\<close>

datatype bt_obj =
    Broadphase | CollisionConfig | Dispatcher | Solver | World | GhostCallback
  | PlaneObject nat | PlaneShape nat | MotionState nat | Body nat
  | CharacterRecord nat | Ghost nat | Capsule nat | Controller nat

text \<open>
  \<open>New x ys\<close>: \<open>x\<close> is constructed from pointers to \<open>ys\<close>. \<open>Attach y x\<close>: \<open>y\<close> is given a pointer to \<open>x\<close>.
  \<open>AddTo\<close> and \<open>RemoveFrom\<close>: \<open>addRigidBody\<close>, \<open>addCollisionObject\<close> and \<open>addAction\<close> of the world and their opposites.
\<close>

datatype bt_call =
    New bt_obj "bt_obj list" | Attach bt_obj bt_obj | Gravity int | AddTo bt_obj | RemoveFrom bt_obj | Del bt_obj

text \<open>
  The objects whose destructor uses \<open>x\<close>, which have to be deleted before it. The destructor of a body
  does not touch its motion state.
\<close>

fun users_of :: "bt_obj \<Rightarrow> bt_obj list" where
  "users_of Broadphase = [World]"
| "users_of CollisionConfig = [Dispatcher, World]"
| "users_of Dispatcher = [World]"
| "users_of Solver = [World]"
| "users_of GhostCallback = [Broadphase]"
| "users_of (PlaneShape h) = [Body h]"
| "users_of (Ghost h) = [Controller h]"
| "users_of (Capsule h) = [Controller h, Ghost h]"
| "users_of _ = []"

text \<open>The objects that are alive, and those the world has been given.\<close>

record bt_memory =
  bm_live :: "bt_obj set"
  bm_world :: "bt_obj set"

definition no_memory :: bt_memory where
  "no_memory = \<lparr>bm_live = {}, bm_world = {}\<rparr>"

fun call_step :: "bt_call \<Rightarrow> bt_memory \<Rightarrow> fault + bt_memory" where
  "call_step (New x ys) m =
     (if x \<in> bm_live m \<or> \<not> set ys \<subseteq> bm_live m then Inl UseAfterFree
      else Inr (m\<lparr>bm_live := insert x (bm_live m)\<rparr>))"
| "call_step (Attach y x) m = (if x \<in> bm_live m \<and> y \<in> bm_live m then Inr m else Inl UseAfterFree)"
| "call_step (Gravity g) m = (if World \<in> bm_live m then Inr m else Inl UseAfterFree)"
| "call_step (AddTo x) m =
     (if x \<in> bm_live m \<and> World \<in> bm_live m \<and> x \<notin> bm_world m
      then Inr (m\<lparr>bm_world := insert x (bm_world m)\<rparr>) else Inl UseAfterFree)"
| "call_step (RemoveFrom x) m =
     (if x \<in> bm_live m \<and> World \<in> bm_live m \<and> x \<in> bm_world m
      then Inr (m\<lparr>bm_world := bm_world m - {x}\<rparr>) else Inl UseAfterFree)"
| "call_step (Del x) m =
     (if x \<notin> bm_live m \<or> x \<in> bm_world m \<or> set (users_of x) \<inter> bm_live m \<noteq> {} \<or> (x = World \<and> bm_world m \<noteq> {})
      then Inl UseAfterFree else Inr (m\<lparr>bm_live := bm_live m - {x}\<rparr>))"

definition calls :: "bt_call list \<Rightarrow> fault + bt_memory \<Rightarrow> fault + bt_memory" where
  "calls cs r = res_bind r (fold_res call_step cs)"

section \<open>The calls of the code\<close>

text \<open>\<open>run\<close> before and after its loop; the gravity is in tenths.\<close>

definition create_world :: "bt_call list" where
  "create_world =
     [New Broadphase [], New CollisionConfig [], New Dispatcher [CollisionConfig], New Solver [],
      New World [Dispatcher, Broadphase, Solver, CollisionConfig], Gravity (-98),
      New GhostCallback [], Attach Broadphase GhostCallback]"

definition delete_world :: "bt_call list" where
  "delete_world = [Del World, Del Solver, Del Dispatcher, Del CollisionConfig, Del Broadphase, Del GhostCallback]"

definition plane_calls :: "nat \<Rightarrow> bt_call list" where
  "plane_calls h =
     [New (PlaneObject h) [], New (PlaneShape h) [], New (MotionState h) [],
      New (Body h) [MotionState h, PlaneShape h], AddTo (Body h)]"

definition character_calls :: "nat \<Rightarrow> bt_call list" where
  "character_calls h =
     [New (CharacterRecord h) [], New (Ghost h) [], New (Capsule h) [], Attach (Ghost h) (Capsule h),
      New (Controller h) [Ghost h, Capsule h], AddTo (Ghost h), AddTo (Controller h)]"

definition remove_plane_calls :: "nat \<Rightarrow> bt_call list" where
  "remove_plane_calls h =
     [RemoveFrom (Body h), Del (MotionState h), Del (Body h), Del (PlaneShape h), Del (PlaneObject h)]"

definition remove_character_calls :: "nat \<Rightarrow> bt_call list" where
  "remove_character_calls h =
     [RemoveFrom (Controller h), RemoveFrom (Ghost h), Del (Controller h), Del (Ghost h), Del (Capsule h),
      Del (CharacterRecord h)]"

text \<open>
  A Bullet with this memory. A world is the number of the next plane or character, the memory, and the
  world of \<open>B\<close>, which decides how things move and may be anything.
\<close>

type_synonym 'p memory_world = "nat \<times> (fault + bt_memory) \<times> 'p"

definition with_memory :: "('f, 'v, 'p) bullet \<Rightarrow> ('f, 'v, 'p memory_world) bullet" where
  "with_memory B =
     \<lparr>bt_add_plane = (\<lambda>n m (k, r, p). (k, (Suc k, calls (plane_calls k) r, snd (bt_add_plane B n m p)))),
      bt_remove_plane = (\<lambda>h (k, r, p). (k, calls (remove_plane_calls h) r, bt_remove_plane B h p)),
      bt_add_character = (\<lambda>m (k, r, p). (k, (Suc k, calls (character_calls k) r, snd (bt_add_character B m p)))),
      bt_remove_character = (\<lambda>h (k, r, p). (k, calls (remove_character_calls h) r, bt_remove_character B h p)),
      bt_can_jump = (\<lambda>h (k, r, p). bt_can_jump B h p), bt_axis = (\<lambda>h i (k, r, p). bt_axis B h i p),
      bt_zero = bt_zero B, bt_plus = bt_plus B, bt_minus = bt_minus B, bt_speed = bt_speed B,
      bt_turn = (\<lambda>h b (k, r, p). (k, r, bt_turn B h b p)), bt_jump = (\<lambda>h (k, r, p). (k, r, bt_jump B h p)),
      bt_set_walk = (\<lambda>h v (k, r, p). (k, r, bt_set_walk B h v p)), bt_step = (\<lambda>(k, r, p). (k, r, bt_step B p)),
      bt_gl_matrix = (\<lambda>h (k, r, p). bt_gl_matrix B h p)\<rparr>"

section \<open>The memory of a set of planes and a set of characters\<close>

definition world_parts :: "bt_obj set" where
  "world_parts = {Broadphase, CollisionConfig, Dispatcher, Solver, World, GhostCallback}"

definition plane_parts :: "nat \<Rightarrow> bt_obj set" where
  "plane_parts h = {PlaneObject h, PlaneShape h, MotionState h, Body h}"

definition character_parts :: "nat \<Rightarrow> bt_obj set" where
  "character_parts h = {CharacterRecord h, Ghost h, Capsule h, Controller h}"

definition memory_of :: "nat set \<Rightarrow> nat set \<Rightarrow> bt_memory" where
  "memory_of P C =
     \<lparr>bm_live = world_parts \<union> (\<Union>h \<in> P. plane_parts h) \<union> (\<Union>h \<in> C. character_parts h),
      bm_world = Body ` P \<union> Ghost ` C \<union> Controller ` C\<rparr>"

lemmas parts_defs = world_parts_def plane_parts_def character_parts_def

lemma live_memory:
  "x \<in> bm_live (memory_of P C) \<longleftrightarrow>
     (case x of PlaneObject h \<Rightarrow> h \<in> P | PlaneShape h \<Rightarrow> h \<in> P | MotionState h \<Rightarrow> h \<in> P | Body h \<Rightarrow> h \<in> P
      | CharacterRecord h \<Rightarrow> h \<in> C | Ghost h \<Rightarrow> h \<in> C | Capsule h \<Rightarrow> h \<in> C | Controller h \<Rightarrow> h \<in> C | _ \<Rightarrow> True)"
  by (cases x) (auto simp: memory_of_def parts_defs)

lemma world_memory:
  "x \<in> bm_world (memory_of P C) \<longleftrightarrow>
     (case x of Body h \<Rightarrow> h \<in> P | Ghost h \<Rightarrow> h \<in> C | Controller h \<Rightarrow> h \<in> C | _ \<Rightarrow> False)"
  by (cases x) (auto simp: memory_of_def)

lemma memory_eqI:
  "(\<And>x. x \<in> bm_live m \<longleftrightarrow> x \<in> bm_live m') \<Longrightarrow> (\<And>x. x \<in> bm_world m \<longleftrightarrow> x \<in> bm_world m') \<Longrightarrow> m = (m' :: bt_memory)"
  by (cases m; cases m') auto

lemma created: "calls create_world (Inr no_memory) = Inr (memory_of {} {})"
  by (simp add: calls_def create_world_def no_memory_def memory_of_def world_parts_def) blast

lemma deleted: "calls delete_world (Inr (memory_of {} {})) = Inr no_memory"
  by (simp add: calls_def delete_world_def no_memory_def memory_of_def world_parts_def) blast

lemma plane_added:
  assumes "h \<notin> P" shows "calls (plane_calls h) (Inr (memory_of P C)) = Inr (memory_of (insert h P) C)"
  using assms
  by (simp add: calls_def plane_calls_def live_memory world_memory)
    (rule memory_eqI; auto simp: live_memory world_memory split: bt_obj.splits)

lemma character_added:
  assumes "h \<notin> C" shows "calls (character_calls h) (Inr (memory_of P C)) = Inr (memory_of P (insert h C))"
  using assms
  by (simp add: calls_def character_calls_def live_memory world_memory)
    (rule memory_eqI; auto simp: live_memory world_memory split: bt_obj.splits)

lemma plane_removed:
  assumes "h \<in> P" shows "calls (remove_plane_calls h) (Inr (memory_of P C)) = Inr (memory_of (P - {h}) C)"
  using assms
  by (simp add: calls_def remove_plane_calls_def live_memory world_memory)
    (rule memory_eqI; auto simp: live_memory world_memory split: bt_obj.splits)

lemma character_removed:
  assumes "h \<in> C" shows "calls (remove_character_calls h) (Inr (memory_of P C)) = Inr (memory_of P (C - {h}))"
  using assms
  by (simp add: calls_def remove_character_calls_def live_memory world_memory)
    (rule memory_eqI; auto simp: live_memory world_memory split: bt_obj.splits)

section \<open>The invariant\<close>

definition character_handles :: "('f, 'w) physics \<Rightarrow> nat list" where
  "character_handles p = map (\<lambda>(_, ch). ch_handle ch) (ph_characters p)"

definition memory_inv :: "('f, 'p memory_world) physics \<Rightarrow> bool" where
  "memory_inv p \<longleftrightarrow> distinct (bodies p) \<and> map_ok (ph_objects p) \<and> map_ok (ph_characters p) \<and>
     (case ph_world p of (k, r, q) \<Rightarrow> (\<forall>h \<in> set (bodies p). h < k) \<and>
        r = Inr (memory_of (snd ` set (ph_objects p)) (set (character_handles p))))"

lemma set_bodies: "set (bodies p) = snd ` set (ph_objects p) \<union> set (character_handles p)"
  by (simp add: bodies_def character_handles_def)

lemma memory_invI:
  assumes "distinct (bodies p)" and "map_ok (ph_objects p)" and "map_ok (ph_characters p)"
    and "ph_world p = (k, Inr (memory_of P C), q)" and "\<forall>h \<in> P \<union> C. h < k"
    and "snd ` set (ph_objects p) = P" and "set (character_handles p) = C"
  shows "memory_inv p"
  using assms by (auto simp: memory_inv_def set_bodies)

lemma memory_invE:
  assumes "memory_inv p"
  obtains k q where "ph_world p = (k, Inr (memory_of (snd ` set (ph_objects p)) (set (character_handles p))), q)"
    and "\<forall>h \<in> snd ` set (ph_objects p) \<union> set (character_handles p). h < k"
    and "distinct (bodies p)" and "map_ok (ph_objects p)" and "map_ok (ph_characters p)"
proof -
  obtain k r q where "ph_world p = (k, r, q)" by (cases "ph_world p") auto
  with assms show ?thesis by (intro that [of k q]) (auto simp: memory_inv_def set_bodies)
qed

lemma handles_put:
  assumes "map_find k m = None"
  shows "set (map f (map_put k v m)) = insert (f (k, v)) (set (map f m))"
  using arg_cong [OF mset_map_put [OF assms, of v], of "\<lambda>x. set_mset (image_mset f x)"] by simp

lemma handles_erase:
  assumes "map_ok m" and "map_find k m = Some v" and "distinct (map f m)"
  shows "set (map f (map_erase k m)) = set (map f m) - {f (k, v)}"
proof -
  have eq: "mset (map f m) = mset (f (k, v) # map f (map_erase k m))"
    using arg_cong [OF mset_map_erase [OF assms(1,2)], of "image_mset f"] by simp
  from mset_eq_imp_distinct_iff [OF eq] mset_eq_setD [OF eq] assms(3) show ?thesis by auto
qed

lemma distinct_handles:
  assumes "distinct (bodies p)"
  shows "distinct (map snd (ph_objects p))" "distinct (map (\<lambda>(_, ch). ch_handle ch) (ph_characters p))"
    "snd ` set (ph_objects p) \<inter> set (character_handles p) = {}"
  using assms by (simp_all add: bodies_def character_handles_def)

lemma distinct_bodies_add:
  assumes "distinct (bodies p)" and "k \<notin> set (bodies p)" and "mset (bodies q) = add_mset k (mset (bodies p))"
  shows "distinct (bodies q)"
proof -
  have "mset (bodies q) = mset (k # bodies p)" using assms(3) by simp
  from mset_eq_imp_distinct_iff [OF this] assms(1,2) show ?thesis by simp
qed

lemma distinct_bodies_remove:
  assumes "distinct (bodies p)" and "mset (bodies p) = add_mset k (mset (bodies q))"
  shows "distinct (bodies q)"
proof -
  have "mset (bodies p) = mset (k # bodies q)" using assms(2) by simp
  from mset_eq_imp_distinct_iff [OF this] assms(1) show ?thesis by simp
qed

text \<open>Each of the four messages that create or delete keeps the invariant.\<close>

lemma add_plane_memory:
  assumes "memory_inv p" and "map_find i (ph_objects p) = None"
  shows "memory_inv (add_plane (with_memory B) i t mat p)"
proof (cases "map_of planes t")
  case None
  with assms show ?thesis by (simp add: add_plane_def)
next
  case (Some n)
  obtain k q where w: "ph_world p = (k, Inr (memory_of (snd ` set (ph_objects p)) (set (character_handles p))), q)"
    and lt: "\<forall>h \<in> snd ` set (ph_objects p) \<union> set (character_handles p). h < k"
    and d: "distinct (bodies p)" and ok: "map_ok (ph_objects p)" "map_ok (ph_characters p)"
    using assms(1) by (rule memory_invE) (rule that)
  let ?P = "snd ` set (ph_objects p)" and ?C = "set (character_handles p)"
  let ?q = "add_plane (with_memory B) i t mat p"
  have new: "k \<notin> ?P" "k \<notin> set (bodies p)" using lt by (auto simp: set_bodies)
  have new_plane: "bt_add_plane (with_memory B) n mat (ph_world p) =
      (k, (Suc k, Inr (memory_of (insert k ?P) ?C), snd (bt_add_plane B n mat q)))"
    by (simp add: with_memory_def w plane_added [OF new(1)])
  have "ph_world ?q = (Suc k, Inr (memory_of (insert k ?P) ?C), snd (bt_add_plane B n mat q))"
    using Some by (simp add: new_plane)
  moreover have objs: "ph_objects ?q = map_put i k (ph_objects p)" "ph_characters ?q = ph_characters p"
    using Some by (simp_all add: new_plane)
  moreover have "mset (bodies ?q) = add_mset k (mset (bodies p))"
    unfolding bodies_def objs by (simp add: mset_map_put [OF assms(2)])
  ultimately show ?thesis
    using lt ok handles_put [OF assms(2), of snd k]
    by (intro memory_invI [of ?q "Suc k" "insert k ?P" ?C] distinct_bodies_add [OF d new(2)])
      (auto simp: character_handles_def less_SucI)
qed

lemma add_character_memory:
  assumes "memory_inv p" and "map_find i (ph_characters p) = None"
  shows "memory_inv (add_character (with_memory B) i mat p)"
proof -
  obtain k q where w: "ph_world p = (k, Inr (memory_of (snd ` set (ph_objects p)) (set (character_handles p))), q)"
    and lt: "\<forall>h \<in> snd ` set (ph_objects p) \<union> set (character_handles p). h < k"
    and d: "distinct (bodies p)" and ok: "map_ok (ph_objects p)" "map_ok (ph_characters p)"
    using assms(1) by (rule memory_invE) (rule that)
  let ?P = "snd ` set (ph_objects p)" and ?C = "set (character_handles p)"
  let ?q = "add_character (with_memory B) i mat p"
  have new: "k \<notin> ?C" "k \<notin> set (bodies p)" using lt by (auto simp: set_bodies)
  have new_character: "bt_add_character (with_memory B) mat (ph_world p) =
      (k, (Suc k, Inr (memory_of ?P (insert k ?C)), snd (bt_add_character B mat q)))"
    by (simp add: with_memory_def w character_added [OF new(1)])
  then have "ph_world ?q = (Suc k, Inr (memory_of ?P (insert k ?C)), snd (bt_add_character B mat q))"
    by simp
  moreover have objs: "ph_objects ?q = ph_objects p"
    "ph_characters ?q = map_put i \<lparr>ch_handle = k, ch_state = 0\<rparr> (ph_characters p)"
    by (simp_all add: new_character)
  moreover have "mset (bodies ?q) = add_mset k (mset (bodies p))"
    unfolding bodies_def objs by (simp add: mset_map_put [OF assms(2)])
  ultimately show ?thesis
    using lt ok handles_put [OF assms(2), of "\<lambda>(_, ch). ch_handle ch" "\<lparr>ch_handle = k, ch_state = 0\<rparr>"]
    by (intro memory_invI [of ?q "Suc k" ?P "insert k ?C"] distinct_bodies_add [OF d new(2)])
      (auto simp: character_handles_def less_SucI)
qed

lemma del_plane_memory:
  assumes "memory_inv p" and "map_find i (ph_objects p) = Some h"
  shows "memory_inv (p\<lparr>ph_objects := map_erase i (ph_objects p), ph_world := bt_remove_plane (with_memory B) h (ph_world p)\<rparr>)"
    (is "memory_inv ?q")
proof -
  obtain k q where w: "ph_world p = (k, Inr (memory_of (snd ` set (ph_objects p)) (set (character_handles p))), q)"
    and lt: "\<forall>h \<in> snd ` set (ph_objects p) \<union> set (character_handles p). h < k"
    and d: "distinct (bodies p)" and ok: "map_ok (ph_objects p)" "map_ok (ph_characters p)"
    using assms(1) by (rule memory_invE) (rule that)
  let ?P = "snd ` set (ph_objects p)" and ?C = "set (character_handles p)"
  have "h \<in> ?P" using map_find_SomeD [OF assms(2)] by force
  then have "ph_world ?q = (k, Inr (memory_of (?P - {h}) ?C), bt_remove_plane B h q)"
    by (simp add: with_memory_def w plane_removed)
  moreover have "mset (bodies p) = add_mset h (mset (bodies ?q))"
    using mset_map_erase [OF ok(1) assms(2)] by (simp add: bodies_def)
  ultimately show ?thesis
    using lt ok handles_erase [OF ok(1) assms(2) distinct_handles(1) [OF d]]
    by (intro memory_invI [of ?q k "?P - {h}" ?C] distinct_bodies_remove [OF d]) (auto simp: character_handles_def)
qed

lemma del_character_memory:
  assumes "memory_inv p" and "map_find i (ph_characters p) = Some ch"
  shows "memory_inv (p\<lparr>ph_characters := map_erase i (ph_characters p),
      ph_world := bt_remove_character (with_memory B) (ch_handle ch) (ph_world p)\<rparr>)" (is "memory_inv ?q")
proof -
  obtain k q where w: "ph_world p = (k, Inr (memory_of (snd ` set (ph_objects p)) (set (character_handles p))), q)"
    and lt: "\<forall>h \<in> snd ` set (ph_objects p) \<union> set (character_handles p). h < k"
    and d: "distinct (bodies p)" and ok: "map_ok (ph_objects p)" "map_ok (ph_characters p)"
    using assms(1) by (rule memory_invE) (rule that)
  let ?P = "snd ` set (ph_objects p)" and ?C = "set (character_handles p)" and ?h = "ch_handle ch"
  have "?h \<in> ?C" using map_find_SomeD [OF assms(2)] by (force simp: character_handles_def)
  then have "ph_world ?q = (k, Inr (memory_of ?P (?C - {?h})), bt_remove_character B ?h q)"
    by (simp add: with_memory_def w character_removed)
  moreover have "mset (bodies p) = add_mset ?h (mset (bodies ?q))"
    using mset_map_erase [OF ok(2) assms(2)] by (simp add: bodies_def)
  ultimately show ?thesis
    using lt ok handles_erase [OF ok(2) assms(2) distinct_handles(2) [OF d]]
    by (intro memory_invI [of ?q k ?P "?C - {?h}"] distinct_bodies_remove [OF d]) (auto simp: character_handles_def)
qed

section \<open>A tick and the end of the thread\<close>

lemma memory_inv_input [simp]: "memory_inv p \<Longrightarrow> memory_inv (setInputStateCallback i st p)"
proof -
  assume inv: "memory_inv p"
  then have ok: "map_ok (ph_characters p)" by (simp add: memory_inv_def)
  have "ph_objects (setInputStateCallback i st p) = ph_objects p" "ph_world (setInputStateCallback i st p) = ph_world p"
    "map_ok (ph_characters (setInputStateCallback i st p))"
    using ok by (auto simp: setInputStateCallback_def split: option.split)
  moreover have "character_handles (setInputStateCallback i st p) = character_handles p"
    using bodies_input [OF ok, of i st] by (simp add: bodies_def character_handles_def calculation(1))
  ultimately show ?thesis using inv bodies_input [OF ok, of i st] by (simp add: memory_inv_def)
qed

lemma parse_memory:
  assumes inv: "memory_inv (m_physics s)" and fresh: "fresh_add m (m_physics s)"
    and run: "parseMessage (with_memory B) m s = Inr s'"
  shows "memory_inv (m_physics s')"
proof (cases m)
  case (ServerInputMsg c st)
  then obtain i st' where "m_physics s' = setInputStateCallback i st' (m_physics s)"
    using run by (auto simp: Let_def case_prod_unfold set_state_def split: option.splits)
  with inv show ?thesis by simp
next
  case (AddPhysObjMsg i t mat)
  with inv fresh run show ?thesis by (auto intro: add_plane_memory)
next
  case (AddCharObjMsg i t mat)
  with inv fresh run show ?thesis by (auto intro: add_character_memory)
next
  case (DelPhysObjMsg i)
  with inv run show ?thesis by (auto intro: del_plane_memory split: option.splits)
next
  case (DelCharObjMsg i)
  with inv run show ?thesis by (auto intro: del_character_memory split: option.splits)
qed (use inv run in \<open>auto simp: set_state_def\<close>)

lemma fold_parse_memory:
  "memory_inv (m_physics s) \<Longrightarrow> fresh_run (with_memory B) ms s \<Longrightarrow>
    fold_res (parseMessage (with_memory B)) ms s = Inr s' \<Longrightarrow> memory_inv (m_physics s')"
proof (induction ms arbitrary: s)
  case (Cons m ms)
  then obtain s1 where s1: "parseMessage (with_memory B) m s = Inr s1"
    "fold_res (parseMessage (with_memory B)) ms s1 = Inr s'"
    by (auto simp: res_bind_eq_Inr)
  with Cons.prems parse_memory [of s m B s1] have "memory_inv (m_physics s1)" by simp
  with Cons s1 show ?case by simp
qed simp

text \<open>Movement touches no memory.\<close>

definition same_memory :: "'p memory_world \<Rightarrow> 'p memory_world \<Rightarrow> bool" where
  "same_memory w w' \<longleftrightarrow> fst w' = fst w \<and> fst (snd w') = fst (snd w)"

lemma update_character_memory: "same_memory w (update_character (with_memory B) ch w)"
  by (cases w) (simp add: same_memory_def update_character_def with_memory_def Let_def)

lemma simulate_memory:
  assumes "memory_inv p"
  shows "memory_inv (simulate (with_memory B) p)"
proof -
  have "same_memory w (fold (\<lambda>(_, ch) w. update_character (with_memory B) ch w) cs w)"
    for cs :: "(oid, character) std_map" and w
  proof (induction cs arbitrary: w)
    case (Cons x cs)
    with update_character_memory [of w B "snd x"] show ?case
      by (simp add: same_memory_def case_prod_unfold)
  qed (simp add: same_memory_def)
  moreover have "same_memory w (bt_step (with_memory B) w)" for w
    by (cases w) (simp add: same_memory_def with_memory_def)
  ultimately have "same_memory (ph_world p) (ph_world (simulate (with_memory B) p))"
    by (simp add: simulate_def updateCharacterObjects_def Let_def same_memory_def)
  with assms show ?thesis
    by (simp add: memory_inv_def same_memory_def bodies_def character_handles_def case_prod_unfold)
qed

lemma callbacks_memory:
  "memory_inv p \<Longrightarrow> memory_inv (fold (\<lambda>(_, i). setInputStateCallback i st) bs p)"
  by (induction bs arbitrary: p) (auto simp: case_prod_unfold)

text \<open>The two loops after the main loop.\<close>

lemma planes_removed:
  "distinct (map snd m) \<Longrightarrow> snd ` set m \<subseteq> P \<Longrightarrow>
    \<exists>q'. fold (\<lambda>(_, h). bt_remove_plane (with_memory B) h) m (k, Inr (memory_of P C), q) =
      (k, Inr (memory_of (P - snd ` set m) C), q')"
proof (induction m arbitrary: P q)
  case (Cons x m)
  have "\<exists>q'. fold (\<lambda>(_, h). bt_remove_plane (with_memory B) h) m (k, Inr (memory_of (P - {snd x}) C), q'') =
      (k, Inr (memory_of (P - {snd x} - snd ` set m) C), q')" for q''
    using Cons.prems by (intro Cons.IH) (simp_all add: subset_Diff_insert)
  moreover have "bt_remove_plane (with_memory B) (snd x) (k, Inr (memory_of P C), q) =
      (k, Inr (memory_of (P - {snd x}) C), bt_remove_plane B (snd x) q)"
    using Cons.prems by (simp add: with_memory_def plane_removed)
  ultimately show ?case by (simp add: case_prod_unfold Diff_insert2 [symmetric] Diff_insert [symmetric] insert_commute)
qed simp

lemma characters_removed:
  "distinct (map (\<lambda>(_, ch). ch_handle ch) m) \<Longrightarrow> (\<lambda>(_, ch). ch_handle ch) ` set m \<subseteq> C \<Longrightarrow>
    \<exists>q'. fold (\<lambda>(_, ch). bt_remove_character (with_memory B) (ch_handle ch)) m (k, Inr (memory_of P C), q) =
      (k, Inr (memory_of P (C - (\<lambda>(_, ch). ch_handle ch) ` set m)), q')"
proof (induction m arbitrary: C q)
  case (Cons x m)
  let ?h = "ch_handle (snd x)"
  have "\<exists>q'. fold (\<lambda>(_, ch). bt_remove_character (with_memory B) (ch_handle ch)) m (k, Inr (memory_of P (C - {?h})), q'') =
      (k, Inr (memory_of P (C - {?h} - (\<lambda>(_, ch). ch_handle ch) ` set m)), q')" for q''
    using Cons.prems by (intro Cons.IH) (simp_all add: subset_Diff_insert case_prod_unfold)
  moreover have "bt_remove_character (with_memory B) ?h (k, Inr (memory_of P C), q) =
      (k, Inr (memory_of P (C - {?h})), bt_remove_character B ?h q)"
    using Cons.prems by (simp add: with_memory_def character_removed case_prod_unfold)
  ultimately show ?case by (simp add: case_prod_unfold Diff_insert2 [symmetric] Diff_insert [symmetric] insert_commute)
qed simp

lemma shutdown_memory:
  assumes "memory_inv p"
  shows "\<exists>k q. ph_world (physics_shutdown (with_memory B) p) = (k, Inr (memory_of {} {}), q)"
proof -
  obtain k q where w: "ph_world p = (k, Inr (memory_of (snd ` set (ph_objects p)) (set (character_handles p))), q)"
    and d: "distinct (bodies p)"
    using assms by (rule memory_invE) (rule that)
  have C: "set (character_handles p) = (\<lambda>(_, ch). ch_handle ch) ` set (ph_characters p)"
    by (simp add: character_handles_def)
  obtain q1 where 1: "fold (\<lambda>(_, ch). bt_remove_character (with_memory B) (ch_handle ch)) (ph_characters p) (ph_world p) =
      (k, Inr (memory_of (snd ` set (ph_objects p)) {}), q1)"
    using characters_removed [OF distinct_handles(2) [OF d], of "set (character_handles p)" B k
        "snd ` set (ph_objects p)" q] by (auto simp: w C)
  obtain q2 where "fold (\<lambda>(_, h). bt_remove_plane (with_memory B) h) (ph_objects p)
      (k, Inr (memory_of (snd ` set (ph_objects p)) {}), q1) = (k, Inr (memory_of {} {}), q2)"
    using planes_removed [OF distinct_handles(1) [OF d], of "snd ` set (ph_objects p)" B k "{}" q1] by auto
  with 1 show ?thesis by (auto simp: physics_shutdown_def)
qed

lemma memory_inv_start:
  "memory_inv \<lparr>ph_objects = [], ph_characters = [], ph_queue = q, ph_world = (0, calls create_world (Inr no_memory), p)\<rparr>"
  by (simp add: memory_inv_def bodies_def character_handles_def map_ok_def created)



end
