(* ===== verification/NetworkGame.thy ===== *)
theory NetworkGame
  imports Game RemoteClientProperties
begin

text \<open>
  The whole server program, \<open>qntsrv.cpp\<close>: the game server of theory \<open>ServerMain\<close> with its physics, the
  listening socket, and any number of connections as in theory \<open>RemoteClient\<close>. The calls of a connection's handlers on
  the server, and those of the server on the connections' objects, are direct calls; the service, the
  server's thread, the watcher and the physics interleave one handler, one message and one step of a tick at a time.
\<close>

section \<open>State\<close>

text \<open>
  \<open>ho_clients\<close>: the objects of the connections accepted so far, by their addresses; \<open>ho_left\<close>: the
  connections whose peer has closed them after what it has sent.
\<close>

record ('f, 'w) host =
  ho_server :: "('f, 'w) qntsrv"
  ho_listen :: listen_server
  ho_clients :: "ptr \<Rightarrow> 'f remote_client option"
  ho_left :: "ptr list"

text \<open>The calls of \<open>pushMessage\<close> and \<open>serverClosed\<close> on an object while the server's state went from the first to the second.\<close>

definition forward_posts ::
    "ptr \<Rightarrow> ('f, 'w) server \<Rightarrow> ('f, 'w) server \<Rightarrow> 'f remote_client \<Rightarrow> 'f remote_client" where
  "forward_posts p s s' c =
     (let c = fold rc_pushMessage (drop (length (messages_to p s)) (messages_to p s')) c
      in if p \<in> set (drop (length (srv_closed s)) (srv_closed s')) then close_socket c else c)"

definition with_host :: "('f, 'w) qntsrv \<Rightarrow> ('f, 'w) host \<Rightarrow> ('f, 'w) host" where
  "with_host q h =
     h\<lparr>ho_server := q,
       ho_clients := (\<lambda>p. map_option (forward_posts p (qs_server (ho_server h)) (qs_server q)) (ho_clients h p))\<rparr>"

text \<open>
  The calls of an object's handlers on the server. When its thread has left \<open>run()\<close> the physics object has been deleted, but
  \<open>m_physics\<close> still points to it and the client map is as it was: to remove a client that has a character is a use of the deleted object.
\<close>

fun host_call :: "ptr \<Rightarrow> 'f server_call \<Rightarrow> ('f, 'w) qntsrv \<Rightarrow> fault + ('f, 'w) qntsrv" where
  "host_call p CallAddClient q = res_bind (addClient p (qs_server q)) (\<lambda>s. Inr (q\<lparr>qs_server := s\<rparr>))"
| "host_call p CallRemoveClient q =
     (if \<not> qs_running q \<and> fst (map_index 0 p (m_clients (qs_server q))) \<noteq> 0 then Inl UseAfterFree
      else res_bind (removeClient p (qs_server q)) (\<lambda>s. Inr (q\<lparr>qs_server := s\<rparr>)))"
| "host_call p (CallPushMessage m) q = Inr (server_pushMessage m q)"

text \<open>The service has run something on the object at \<open>p\<close>, which was \<open>c\<close> and is \<open>c'\<close> now.\<close>

definition with_remote ::
    "ptr \<Rightarrow> 'f remote_client \<Rightarrow> 'f remote_client \<Rightarrow> ('f, 'w) host \<Rightarrow> fault + ('f, 'w) host" where
  "with_remote p c c' h =
     res_bind (fold_res (host_call p) (drop (length (rc_calls c)) (rc_calls c')) (ho_server h)) (\<lambda>q.
     let q = (if rc_live c' then q else q\<lparr>qs_server := (qs_server q)\<lparr>srv_live := set_erase p (srv_live (qs_server q))\<rparr>\<rparr>)
     in Inr (with_host q (h\<lparr>ho_clients := (ho_clients h)(p \<mapsto> c')\<rparr>)))"

definition on_client ::
    "ptr \<Rightarrow> ('f remote_client \<Rightarrow> fault + 'f remote_client) \<Rightarrow> ('f, 'w) host \<Rightarrow> fault + ('f, 'w) host" where
  "on_client p f h =
     (if qs_stopped (ho_server h) then Inr h
      else case ho_clients h p of
             None \<Rightarrow> Inr h
           | Some c \<Rightarrow> res_bind (f c) (\<lambda>c'. with_remote p c c' h))"

definition new_object :: "ptr \<Rightarrow> ('f, 'w) qntsrv \<Rightarrow> ('f, 'w) qntsrv" where
  "new_object p q = q\<lparr>qs_server := (qs_server q)\<lparr>srv_live := set_insert p (srv_live (qs_server q))\<rparr>\<rparr>"

text \<open>\<open>main\<close> up to \<open>io_service.run()\<close>, over a server \<open>s\<close> with its thread running; \<open>p\<close> is the address of the first object.\<close>

definition host_start :: "ptr \<Rightarrow> ('f, 'w) server \<Rightarrow> ('f, 'w) host" where
  "host_start p s =
     \<lparr>ho_server = new_object p \<lparr>qs_queue = [], qs_server = s, qs_tick = Asleep, qs_ending = False,
       qs_running = True, qs_stopped = False, qs_exited = False\<rparr>,
      ho_listen = listen_init p, ho_clients = (\<lambda>_. None), ho_left = []\<rparr>"

text \<open>
  The pending accept completes with \<open>err\<close>. Without an error the object waiting for the connection, now on
  the socket \<open>sock\<close>, spins up, and \<open>new\<close> gives the address \<open>fresh\<close> for the next one; addresses are not given twice.
\<close>

definition accept_connection :: "int \<Rightarrow> ptr \<Rightarrow> socket \<Rightarrow> ('f, 'w) host \<Rightarrow> fault + ('f, 'w) host" where
  "accept_connection err fresh sock h =
     (let l = ho_listen h; p = m_next_client l; c = rc_init sock
      in if \<not> ls_accepting l \<or> qs_stopped (ho_server h) \<or> fresh = 0 \<or> fresh = p \<or> ho_clients h fresh \<noteq> None then Inr h
      else res_bind (if err = 0 then with_remote p c (spinup c) h else Inr h) (\<lambda>h.
        Inr (h\<lparr>ho_listen := accept_completes (err, fresh) l,
               ho_server := (if err = 0 then new_object fresh (ho_server h) else ho_server h)\<rparr>)))"

definition deliver :: "'f server_msg \<Rightarrow> 'f remote_client \<Rightarrow> 'f remote_client" where
  "deliver m c =
     (if sk_read_code (rc_sock c) = bad_descriptor then c
      else c\<lparr>rc_sock := (rc_sock c)\<lparr>sk_in := sk_in (rc_sock c) @ server_bytes m\<rparr>\<rparr>)"

section \<open>Steps\<close>

text \<open>
  A connection arrives; a peer sends a message or closes its connection; the pending read of an object completes, when something has
  arrived or the stream has ended; the service runs the next handler of an object; a step of the signal
  handler, the server's thread, the physics thread, the watcher or \<open>main\<close>; a whole tick with nothing in between.
\<close>

datatype 'f host_event =
  Accepts int ptr socket | PeerSends ptr "'f server_msg" | PeerLeaves ptr | Arrives ptr | Runs ptr | Main "'f qs_event" | Ticks

fun host_step :: "('f, 'v, 'w) bullet \<Rightarrow> 'f host_event \<Rightarrow> ('f, 'w) host \<Rightarrow> (fault + ('f, 'w) host) option" where
  "host_step B (Accepts err fresh sock) h = Some (accept_connection err fresh sock h)"
| "host_step B (PeerSends p m) h =
     Some (Inr (if p \<in> set (ho_left h) then h
       else h\<lparr>ho_clients := (ho_clients h)(p := map_option (deliver m) (ho_clients h p))\<rparr>))"
| "host_step B (PeerLeaves p) h = Some (Inr (h\<lparr>ho_left := p # ho_left h\<rparr>))"
| "host_step B (Arrives p) h =
     Some (on_client p (\<lambda>c. if sk_in (rc_sock c) = [] \<and> p \<notin> set (ho_left h) then Inr c else rc_step p Complete c) h)"
| "host_step B (Runs p) h = Some (on_client p (rc_step p Run) h)"
| "host_step B (Main e) h = Some (res_bind (qs_step B e (ho_server h)) (\<lambda>q. Inr (with_host q h)))"
| "host_step B Ticks h = map_option (\<lambda>r. res_bind r (\<lambda>q. Inr (with_host q h))) (whole_tick B (ho_server h))"

fun host_run :: "('f, 'v, 'w) bullet \<Rightarrow> 'f host_event list \<Rightarrow> ('f, 'w) host \<Rightarrow> (fault + ('f, 'w) host) option" where
  "host_run B [] h = Some (Inr h)"
| "host_run B (e # es) h =
     (case host_step B e h of
        None \<Rightarrow> None
      | Some (Inl err) \<Rightarrow> Some (Inl err)
      | Some (Inr h') \<Rightarrow> host_run B es h')"

lemma host_run_append:
  "host_run B (es @ es') h =
     (case host_run B es h of None \<Rightarrow> None | Some (Inl e) \<Rightarrow> Some (Inl e) | Some (Inr h') \<Rightarrow> host_run B es' h')"
  by (induction es arbitrary: h) (auto split: option.splits sum.splits)

section \<open>A connected player\<close>

text \<open>What a player sends: input and the wish for a character.\<close>

fun is_talk :: "'f server_msg \<Rightarrow> bool" where
  "is_talk (ServerInputMsg _ st) = (st \<noteq> None)"
| "is_talk (ServerLoadPlayerMsg _ t) = wire_string t"
| "is_talk _ = False"

lemma is_talk_sendable: "is_talk m \<Longrightarrow> server_sendable m"
  by (cases m) auto

fun waiting_ok :: "ptr set \<Rightarrow> 'f server_msg \<Rightarrow> bool" where
  "waiting_ok C (ServerInputMsg c st) = (c \<in> C \<and> st \<noteq> None)"
| "waiting_ok C (ServerLoadPlayerMsg c _) = (c \<in> C)"
| "waiting_ok C _ = False"

lemma waiting_call_ok: "waiting_ok C m \<Longrightarrow> call_ok C m"
  by (cases m) auto

lemma talk_waiting: "is_talk m \<Longrightarrow> p \<in> C \<Longrightarrow> waiting_ok C (from_client p m)"
  by (cases m) auto

lemma waiting_mono: "waiting_ok C m \<Longrightarrow> C \<subseteq> D \<Longrightarrow> waiting_ok D m"
  by (cases m) auto

lemma posted_mono: "posted_ok C m \<Longrightarrow> C \<subseteq> D \<Longrightarrow> posted_ok D m"
  by (cases m) auto

text \<open>A message whose parts have values can be written; the connection accepts every byte.\<close>

fun writable :: "client_msg \<Rightarrow> bool" where
  "writable (ClientTransDrawableMsg _ m) = (m \<noteq> None)"
| "writable (ClientTransAudibleMsg _ m) = (m \<noteq> None)"
| "writable _ = True"

lemma sock_write_open [simp]: "sk_room s = None \<Longrightarrow> sock_write bs s = (Inr (), s\<lparr>sk_out := sk_out s @ bs\<rparr>)"
  by (simp add: sock_write_def)

lemma client_send_open:
  assumes "writable m" and "sk_room s = None"
  shows "\<exists>out. client_send m s = (Inr (), s\<lparr>sk_out := out\<rparr>)"
  using assms
  by (cases m) (auto simp: client_send_def io_bind_def writePod32_def add_object_write_def trans_object_write_def
      writeString_def Let_def)

definition is_write :: "handler \<Rightarrow> bool" where
  "is_write h \<longleftrightarrow> (\<exists>m. h = WriteMsg m \<and> writable m)"

text \<open>
  The object between two handlers: either the read of the next code is pending and whole messages are on the way,
  or a code has been read, its handler is posted, and the rest of its message follows in the stream.
\<close>

definition idle :: "'f remote_client \<Rightarrow> 'f server_msg list \<Rightarrow> bool" where
  "idle c ms \<longleftrightarrow> rc_reading c \<and> list_all is_write (rc_posted c) \<and> sk_in (rc_sock c) = concat (map server_bytes ms)"

definition reading :: "'f remote_client \<Rightarrow> 'f server_msg \<Rightarrow> 'f server_msg list \<Rightarrow> bool" where
  "reading c m ms \<longleftrightarrow> \<not> rc_reading c \<and> m_next_msg_type c = server_type m \<and>
     sk_in (rc_sock c) = server_payload m @ concat (map server_bytes ms) \<and>
     (\<exists>ws ws'. rc_posted c = ws @ ReadMsg 0 # ws' \<and> list_all is_write ws \<and> list_all is_write ws')"

definition connected :: "'f remote_client \<Rightarrow> bool" where
  "connected c \<longleftrightarrow> rc_live c \<and> \<not> m_marked_for_delete c \<and> sk_room (rc_sock c) = None \<and>
     ((\<exists>ms. list_all is_talk ms \<and> idle c ms) \<or> (\<exists>m ms. is_talk m \<and> list_all is_talk ms \<and> reading c m ms))"

lemma connected_writes:
  assumes "connected c" and "list_all writable ms"
  shows "connected (c\<lparr>rc_posted := rc_posted c @ map WriteMsg ms\<rparr>)"
proof -
  have ws: "list_all is_write (map WriteMsg ms)" using assms(2) by (simp add: list_all_iff is_write_def)
  let ?c = "c\<lparr>rc_posted := rc_posted c @ map WriteMsg ms\<rparr>"
  have "idle ?c ns" if "idle c ns" for ns using that ws by (simp add: idle_def)
  moreover have "reading ?c m ns" if r: "reading c m ns" for m ns
  proof -
    obtain vs vs' where "rc_posted c = vs @ ReadMsg 0 # vs'" "list_all is_write vs" "list_all is_write vs'"
      using r by (auto simp: reading_def)
    with r ws show ?thesis
      by (simp add: reading_def) (metis append_Cons append_assoc list_all_append)
  qed
  ultimately show ?thesis using assms(1) unfolding connected_def by (simp, blast)
qed

lemma fold_posts: "fold rc_pushMessage ms c = c\<lparr>rc_posted := rc_posted c @ map WriteMsg ms\<rparr>"
  by (induction ms arbitrary: c) (simp_all add: rc_pushMessage_def)

lemma forward_posts_same [simp]: "forward_posts p s s c = c"
  by (simp add: forward_posts_def)

lemma forward_posts_writes:
  assumes "srv_closed s' = srv_closed s" and "messages_to p s' = messages_to p s @ ms"
  shows "forward_posts p s s' c = c\<lparr>rc_posted := rc_posted c @ map WriteMsg ms\<rparr>"
  by (simp add: forward_posts_def assms fold_posts)

lemma connectedI_idle:
  "rc_live c \<Longrightarrow> \<not> m_marked_for_delete c \<Longrightarrow> sk_room (rc_sock c) = None \<Longrightarrow> list_all is_talk ms \<Longrightarrow> idle c ms \<Longrightarrow> connected c"
  by (auto simp: connected_def)

lemma connectedI_reading:
  "rc_live c \<Longrightarrow> \<not> m_marked_for_delete c \<Longrightarrow> sk_room (rc_sock c) = None \<Longrightarrow> is_talk m \<Longrightarrow> list_all is_talk ms \<Longrightarrow>
    reading c m ms \<Longrightarrow> connected c"
  by (auto simp: connected_def)

lemma connected_cases:
  assumes "connected c"
  obtains ms where "list_all is_talk ms" "idle c ms"
  | m ms where "is_talk m" "list_all is_talk ms" "reading c m ms"
  using assms unfolding connected_def by blast

section \<open>The invariant\<close>

text \<open>What the server has told its clients in between: only messages that can be written, and no end.\<close>

definition tells :: "('f, 'w) server \<Rightarrow> ('f, 'w) server \<Rightarrow> bool" where
  "tells s s' \<longleftrightarrow> srv_closed s' = srv_closed s \<and>
     (\<exists>new. srv_sent s' = srv_sent s @ new \<and> list_all writable (map snd new))"

lemma tells_same: "srv_closed s' = srv_closed s \<Longrightarrow> srv_sent s' = srv_sent s \<Longrightarrow> tells s s'"
  by (simp add: tells_def)

lemma forward_connected:
  assumes "tells s s'" and "connected c"
  shows "connected (forward_posts p s s' c)"
proof -
  obtain new where new: "srv_sent s' = srv_sent s @ new" "list_all writable (map snd new)" "srv_closed s' = srv_closed s"
    using assms(1) by (auto simp: tells_def)
  let ?ms = "map snd (filter (\<lambda>(d, m). d = p) new)"
  have ms: "messages_to p s' = messages_to p s @ ?ms" by (simp add: messages_to_def new(1) case_prod_unfold)
  have "list_all writable ?ms" using new(2) by (auto simp: list_all_iff)
  from connected_writes [OF assms(2) this] show ?thesis by (simp add: forward_posts_writes [OF new(3) ms])
qed

text \<open>The objects the server's program may name: those of the connections.\<close>

definition objects :: "('f, 'w) host \<Rightarrow> ptr set" where
  "objects h = dom (ho_clients h)"

definition host_ok :: "('f, 'w) host \<Rightarrow> bool" where
  "host_ok h \<longleftrightarrow> side_ok (objects h) (qs_server (ho_server h)) \<and> qs_running (ho_server h) \<and> \<not> qs_stopped (ho_server h) \<and>
     \<not> qs_ending (ho_server h) \<and>
     list_all (waiting_ok (objects h)) (qs_queue (ho_server h)) \<and>
     (\<forall>p c. ho_clients h p = Some c \<longrightarrow> connected c) \<and> ho_left h = [] \<and>
     live_client (m_next_client (ho_listen h)) (qs_server (ho_server h)) \<and> m_next_client (ho_listen h) \<notin> objects h"

lemma objects_with_host [simp]: "objects (with_host q h) = objects h"
  by (auto simp: objects_def with_host_def dom_def)

lemma with_host_frame [simp]:
  "ho_server (with_host q h) = q" "ho_listen (with_host q h) = ho_listen h" "ho_left (with_host q h) = ho_left h"
  by (simp_all add: with_host_def)

lemma with_host_same [simp]: "with_host (ho_server h) h = h"
proof -
  have "map_option (forward_posts p s s) x = x" for p and s :: "('a, 'b) server" and x
    by (cases x) simp_all
  then show ?thesis by (simp add: with_host_def)
qed

lemma with_host_ok:
  assumes "host_ok h" and "tells (qs_server (ho_server h)) (qs_server q)" and "side_ok (objects h) (qs_server q)"
    and "qs_running q" and "\<not> qs_stopped q" and "\<not> qs_ending q" and "list_all (waiting_ok (objects h)) (qs_queue q)"
    and "srv_live (qs_server q) = srv_live (qs_server (ho_server h))"
  shows "host_ok (with_host q h)"
proof -
  have "connected c" if "ho_clients (with_host q h) p = Some c" for p c
    using that assms(1) forward_connected [OF assms(2)] by (auto simp: with_host_def host_ok_def)
  with assms show ?thesis by (simp add: host_ok_def live_client_def)
qed

lemma object_ok:
  assumes "host_ok h" and "p \<in> objects h" and "connected c"
  shows "host_ok (h\<lparr>ho_clients := (ho_clients h)(p \<mapsto> c)\<rparr>)"
proof -
  have "objects (h\<lparr>ho_clients := (ho_clients h)(p \<mapsto> c)\<rparr>) = objects h"
    using assms(2) by (auto simp: objects_def)
  with assms show ?thesis by (simp add: host_ok_def)
qed

text \<open>What one completion or handler does to a connected object, and what it calls on the server.\<close>

definition serves :: "ptr \<Rightarrow> 'f remote_client \<Rightarrow> 'f remote_client \<Rightarrow> bool" where
  "serves p c c' \<longleftrightarrow> connected c' \<and> (rc_calls c' = rc_calls c \<or>
     (\<exists>m. is_talk m \<and> rc_calls c' = rc_calls c @ [CallPushMessage (from_client p m)]))"

lemma on_client_ok:
  assumes "host_ok h" and "\<forall>c. ho_clients h p = Some c \<longrightarrow> (\<exists>c'. f c = Inr c' \<and> serves p c c')"
  shows "\<exists>h'. on_client p f h = Inr h' \<and> host_ok h'"
proof (cases "ho_clients h p")
  case None
  with assms(1) show ?thesis by (simp add: on_client_def)
next
  case (Some c)
  then obtain c' where c': "f c = Inr c'" "connected c'" "rc_calls c' = rc_calls c \<or>
      (\<exists>m. is_talk m \<and> rc_calls c' = rc_calls c @ [CallPushMessage (from_client p m)])"
    using assms(2) by (auto simp: serves_def)
  let ?h = "h\<lparr>ho_clients := (ho_clients h)(p \<mapsto> c')\<rparr>"
  have p: "p \<in> objects h" using Some by (simp add: objects_def domI)
  have ok: "host_ok ?h" by (rule object_ok [OF assms(1) p c'(2)])
  have live: "rc_live c'" using c'(2) by (simp add: connected_def)
  have step: "on_client p f h = with_remote p c c' h"
    using assms(1) Some c'(1) by (simp add: on_client_def host_ok_def)
  from c'(3) show ?thesis
  proof (elim disjE exE conjE)
    assume "rc_calls c' = rc_calls c"
    then have "with_remote p c c' h = Inr (with_host (ho_server ?h) ?h)"
      using live by (simp add: with_remote_def)
    with step ok show ?thesis unfolding with_host_same by simp
  next
    fix m
    assume m: "is_talk m" "rc_calls c' = rc_calls c @ [CallPushMessage (from_client p m)]"
    let ?q = "server_pushMessage (from_client p m) (ho_server h)"
    have "with_remote p c c' h = Inr (with_host ?q ?h)"
      using live m(2) by (simp add: with_remote_def)
    moreover have "p \<in> objects ?h" by (simp add: objects_def)
    then have "host_ok (with_host ?q ?h)"
      using ok talk_waiting [OF m(1)]
      by (intro with_host_ok [OF ok])
        (simp_all add: host_ok_def server_pushMessage_def queue_push_def lockless_push_def tells_same)
    ultimately show ?thesis using step by simp
  qed
qed

section \<open>Every step keeps it\<close>

lemma deliver_connected:
  assumes "connected c" and "is_talk m"
  shows "connected (deliver m c)"
proof (cases "sk_read_code (rc_sock c) = bad_descriptor")
  case False
  let ?d = "c\<lparr>rc_sock := (rc_sock c)\<lparr>sk_in := sk_in (rc_sock c) @ server_bytes m\<rparr>\<rparr>"
  have live: "rc_live ?d" "\<not> m_marked_for_delete ?d" "sk_room (rc_sock ?d) = None"
    using assms(1) by (simp_all add: connected_def)
  from assms(1) have "connected ?d"
  proof (cases rule: connected_cases)
    case (1 ms)
    then show ?thesis by (intro connectedI_idle [OF live, of "ms @ [m]"]) (simp_all add: idle_def assms(2))
  next
    case (2 n ms)
    then show ?thesis
      by (intro connectedI_reading [OF live, of n "ms @ [m]"]) (simp_all add: reading_def assms(2))
  qed
  with False show ?thesis by (simp add: deliver_def)
qed (use assms in \<open>simp add: deliver_def\<close>)

lemma sends_ok:
  assumes "host_ok h" and "is_talk m"
  shows "\<exists>h'. host_step B (PeerSends p m) h = Some (Inr h') \<and> host_ok h'"
proof (cases "ho_clients h p")
  case None
  then have "(ho_clients h)(p := None) = ho_clients h" by auto
  with assms None show ?thesis by simp
next
  case (Some c)
  then have "connected c" and p: "p \<in> objects h" using assms(1) by (simp_all add: host_ok_def objects_def domI)
  from object_ok [OF assms(1) p deliver_connected [OF this(1) assms(2)]] Some assms(1) show ?thesis
    by (simp add: host_ok_def)
qed

lemma arrives_serves:
  assumes "connected c" and "sk_in (rc_sock c) \<noteq> []"
  shows "\<exists>c'. rc_step p Complete c = Inr c' \<and> serves p c c'"
proof -
  from assms(1) have "connected (complete_read c) \<and> rc_calls (complete_read c) = rc_calls c"
  proof (cases rule: connected_cases)
    case (1 ms)
    with assms(2) obtain m ns where ms: "ms = m # ns" by (cases ms) (auto simp: idle_def)
    with 1 have "sk_in (rc_sock c) = pod32 (server_type m) @ server_payload m @ concat (map server_bytes ns)"
      by (simp add: idle_def server_bytes_def)
    note read = readPod32_code [OF this]
    have "\<exists>ws ws'. rc_posted c @ [ReadMsg 0] = ws @ ReadMsg 0 # ws' \<and> list_all is_write ws \<and> list_all is_write ws'"
      using 1(2) by (intro exI [of _ "rc_posted c"] exI [of _ "[]"]) (simp add: idle_def)
    with read 1 assms(1) show ?thesis
      by (intro conjI connectedI_reading [of _ m ns]) (simp_all add: complete_read_def ms reading_def idle_def connected_def)
  next
    case (2 m ms)
    with assms(1) show ?thesis by (simp add: complete_read_def reading_def)
  qed
  then show ?thesis by (simp add: serves_def)
qed

lemma write_serves:
  assumes "connected c" and "rc_posted c = WriteMsg m # hs" and "writable m"
  shows "\<exists>c'. rc_step p Run c = Inr c' \<and> serves p c c'"
proof -
  have live: "rc_live c" "\<not> m_marked_for_delete c" "sk_room (rc_sock c) = None"
    using assms(1) by (simp_all add: connected_def)
  obtain out where out: "client_send m (rc_sock c) = (Inr (), (rc_sock c)\<lparr>sk_out := out\<rparr>)"
    using client_send_open [OF assms(3) live(3)] by blast
  let ?d = "c\<lparr>rc_posted := hs, rc_sock := (rc_sock c)\<lparr>sk_out := out\<rparr>\<rparr>"
  have live': "rc_live ?d" "\<not> m_marked_for_delete ?d" "sk_room (rc_sock ?d) = None" using live by simp_all
  from assms(1) have "connected ?d"
  proof (cases rule: connected_cases)
    case (1 ms)
    with assms(2) show ?thesis by (intro connectedI_idle [OF live', of ms]) (auto simp: idle_def)
  next
    case (2 n ms)
    then obtain ws ws' where "WriteMsg m # hs = ws @ ReadMsg 0 # ws'" "list_all is_write ws" "list_all is_write ws'"
      using assms(2) by (auto simp: reading_def)
    then have "\<exists>ws ws'. hs = ws @ ReadMsg 0 # ws' \<and> list_all is_write ws \<and> list_all is_write ws'"
      by (cases ws) auto
    with 2 show ?thesis by (intro connectedI_reading [OF live', of n ms]) (auto simp: reading_def)
  qed
  moreover have "rc_step p Run c = Inr ?d"
    using assms(2) live(1) out by (simp add: rc_writeMsg_def)
  ultimately show ?thesis by (simp add: serves_def)
qed

lemma read_serves:
  assumes "connected c" and "rc_posted c = ReadMsg 0 # hs" and "is_talk m" and "list_all is_talk ms"
    and "reading c m ms" and "list_all is_write hs"
  shows "\<exists>c'. rc_step p Run c = Inr c' \<and> serves p c c'"
proof -
  have live: "rc_live c" "\<not> m_marked_for_delete c" "sk_room (rc_sock c) = None"
    using assms(1) by (simp_all add: connected_def)
  let ?d = "c\<lparr>rc_posted := hs, rc_sock := (rc_sock c)\<lparr>sk_in := concat (map server_bytes ms)\<rparr>,
    rc_calls := rc_calls c @ [CallPushMessage (from_client p m)], rc_reading := True\<rparr>"
  have "server_read (server_fresh p m) (rc_sock c) =
      (Inr (from_client p m), (rc_sock c)\<lparr>sk_in := concat (map server_bytes ms)\<rparr>)"
    using server_read_message [OF is_talk_sendable [OF assms(3)]] assms(5) by (simp add: reading_def)
  then have "rc_step p Run c = Inr ?d"
    using assms(2,5) live is_talk_sendable [OF assms(3)] by (simp add: rc_readMsg_def reading_def server_create_type)
  moreover have "connected ?d"
    using live assms(4,6) by (intro connectedI_idle [of _ ms]) (simp_all add: idle_def)
  ultimately show ?thesis using assms(3) by (auto simp: serves_def)
qed

lemma runs_serves:
  assumes "connected c"
  shows "\<exists>c'. rc_step p Run c = Inr c' \<and> serves p c c'"
proof (cases "rc_posted c")
  case Nil
  with assms show ?thesis by (simp add: serves_def)
next
  case (Cons hd hs)
  from assms show ?thesis
  proof (cases rule: connected_cases)
    case (1 ms)
    with Cons obtain n where "hd = WriteMsg n" "writable n" by (auto simp: idle_def is_write_def)
    with Cons show ?thesis by (intro write_serves [OF assms, of n hs]) simp_all
  next
    case (2 m ms)
    then obtain ws ws' where ws: "hd # hs = ws @ ReadMsg 0 # ws'" "list_all is_write ws" "list_all is_write ws'"
      using Cons by (auto simp: reading_def)
    show ?thesis
    proof (cases ws)
      case Nil
      with ws 2 Cons show ?thesis by (intro read_serves [OF assms, of hs m ms]) simp_all
    next
      case (Cons w ws1)
      with ws obtain n where "hd = WriteMsg n" "writable n" by (auto simp: is_write_def)
      with \<open>rc_posted c = hd # hs\<close> show ?thesis by (intro write_serves [OF assms, of n hs]) simp_all
    qed
  qed
qed

lemma service_ok:
  assumes "host_ok h"
  shows "\<exists>h'. host_step B (Arrives p) h = Some (Inr h') \<and> host_ok h'"
    and "\<exists>h'. host_step B (Runs p) h = Some (Inr h') \<and> host_ok h'"
proof -
  have con: "ho_clients h p = Some c \<Longrightarrow> connected c" for c using assms by (auto simp: host_ok_def)
  have left: "ho_left h = []" using assms by (simp add: host_ok_def)
  let ?f = "\<lambda>c. if sk_in (rc_sock c) = [] \<and> p \<notin> set (ho_left h) then Inr c else rc_step p Complete c"
  have "\<exists>c'. ?f c = Inr c' \<and> serves p c c'" if "ho_clients h p = Some c" for c
    using con [OF that] arrives_serves [of c p] left by (cases "sk_in (rc_sock c) = []") (simp_all add: serves_def)
  with on_client_ok [OF assms, of p ?f] show "\<exists>h'. host_step B (Arrives p) h = Some (Inr h') \<and> host_ok h'" by auto
  have "\<forall>c. ho_clients h p = Some c \<longrightarrow> (\<exists>c'. rc_step p Run c = Inr c' \<and> serves p c c')"
    using con runs_serves by blast
  from on_client_ok [OF assms this] show "\<exists>h'. host_step B (Runs p) h = Some (Inr h') \<and> host_ok h'"
    by (simp only: host_step.simps option.inject)
qed

lemma side_ok_more:
  assumes "side_ok C s" and "live_client p s"
  shows "side_ok (insert p C) s"
  using assms posted_mono [of C _ "insert p C"] by (auto simp: side_ok_def)

lemma side_ok_object: "side_ok C s \<Longrightarrow> side_ok C (s\<lparr>srv_live := set_insert p (srv_live s)\<rparr>)"
  by (auto simp: side_ok_def phys_ok_def server_ok_def clients_live_def live_client_def everybody_def)

lemma spinup_connected:
  assumes "sk_in sock = []" and "sk_room sock = None"
  shows "connected (spinup (rc_init sock))"
  using assms by (intro connectedI_idle [of _ "[]"]) (simp_all add: spinup_def rc_init_def idle_def)

lemma add_side_ok:
  assumes "side_ok C s" and "p \<in> C"
  shows "\<exists>s'. addClient p s = Inr s' \<and> side_ok C s' \<and> tells s s' \<and> srv_live s' = srv_live s"
proof -
  have live: "live_client p s" using assms by (auto simp: side_ok_def)
  let ?s = "s\<lparr>srv_sent := srv_sent s @ map (Pair p) (announcements s), m_lobby_clients := set_insert p (m_lobby_clients s)\<rparr>"
  have "side_ok C ?s"
    using assms live
    by (auto simp: side_ok_def phys_ok_def server_ok_def clients_live_def live_client_def everybody_def)
  moreover have "tells s ?s" by (auto simp: tells_def announcements_def list_all_iff)
  ultimately show ?thesis using addClient_live [OF live] by simp
qed

lemma accepts_ok:
  fixes h :: "('f, 'w) host"
  assumes "host_ok h" and "sk_in sock = []" and "sk_room sock = None"
  shows "\<exists>h'. host_step B (Accepts err fresh sock) h = Some (Inr h') \<and> host_ok h'"
proof (cases "\<not> ls_accepting (ho_listen h) \<or> fresh = 0 \<or> fresh = m_next_client (ho_listen h) \<or> ho_clients h fresh \<noteq> None")
  case True
  with assms show ?thesis by (auto simp: accept_connection_def Let_def)
next
  case False
  let ?p = "m_next_client (ho_listen h)" and ?c = "spinup (rc_init sock) :: 'f remote_client"
  let ?l = "accept_completes (err, fresh) (ho_listen h)"
  have run: "\<not> qs_stopped (ho_server h)" using assms(1) by (simp add: host_ok_def)
  show ?thesis
  proof (cases "err = 0")
    case err: False
    have "m_next_client ?l = ?p" using err False by (simp add: accept_completes_def handleAccept_def)
    then have "host_ok (h\<lparr>ho_listen := ?l\<rparr>)" using assms(1) by (simp add: host_ok_def objects_def)
    with err False run show ?thesis by (simp add: accept_connection_def Let_def)
  next
    case err: True
    have l: "m_next_client ?l = fresh" using err False by (simp add: accept_completes_def handleAccept_def)
    let ?h = "h\<lparr>ho_clients := (ho_clients h)(?p \<mapsto> ?c)\<rparr>"
    have C: "objects ?h = insert ?p (objects h)" by (simp add: objects_def)
    have ok: "side_ok (objects h) (qs_server (ho_server h))" "live_client ?p (qs_server (ho_server h))"
      using assms(1) by (simp_all add: host_ok_def)
    have side: "side_ok (objects ?h) (qs_server (ho_server h))" unfolding C by (rule side_ok_more [OF ok])
    obtain s' where s': "addClient ?p (qs_server (ho_server h)) = Inr s'" "side_ok (objects ?h) s'"
      "tells (qs_server (ho_server h)) s'" "srv_live s' = srv_live (qs_server (ho_server h))"
      using add_side_ok [OF side, of ?p] by (auto simp: C)
    let ?q = "(ho_server h)\<lparr>qs_server := s'\<rparr>"
    have "rc_calls ?c = [CallAddClient]" "rc_calls (rc_init sock :: 'f remote_client) = []" "rc_live ?c"
      by (simp_all add: spinup_def rc_init_def)
    then have step: "with_remote ?p (rc_init sock) ?c h = Inr (with_host ?q ?h)"
      using s'(1) by (simp add: with_remote_def)
    let ?h' = "(with_host ?q ?h)\<lparr>ho_listen := ?l, ho_server := new_object fresh ?q\<rparr>"
    have con: "connected c" if "ho_clients (with_host ?q ?h) p = Some c" for p c
      using that assms forward_connected [OF s'(3)] spinup_connected [OF assms(2,3)]
      by (auto simp: with_host_def host_ok_def split: if_splits)
    have "list_all (waiting_ok (objects ?h)) (qs_queue (ho_server h))"
      using assms(1) waiting_mono [of "objects h" _ "objects ?h"] C by (auto simp: host_ok_def list_all_iff)
    moreover have "objects ?h' = objects ?h" using objects_with_host [of ?q ?h] by (simp add: objects_def)
    moreover have "fresh \<notin> objects ?h" "fresh \<noteq> 0" using False by (auto simp: objects_def)
    ultimately have "host_ok ?h'"
      using assms(1) con l s'(2) by (simp add: host_ok_def new_object_def side_ok_object live_client_def)
    with err False run step show ?thesis by (simp add: accept_connection_def Let_def)
  qed
qed

lemma talk_turn:
  assumes "side_ok C s" and "waiting_ok C m"
  shows "\<exists>s'. server_dispatch m s = Inr (True, s') \<and> side_ok C s' \<and> tells s s' \<and> srv_live s' = srv_live s"
proof (cases m)
  case (ServerLoadPlayerMsg p t)
  then have p: "p \<in> C" using assms(2) by simp
  obtain s' where s': "loadPlayer p t s = Inr s'" "side_ok C s'" "srv_sent s' = srv_sent s @
      map (\<lambda>d. (d, ClientAddDrawableMsg (m_next_id s) t)) (map fst (m_clients s'))"
    using load_side_ok [OF assms(1) p, of t] by blast
  have "srv_closed s' = srv_closed s" "srv_live s' = srv_live s"
    using s'(1) step_load [of p t s s'] by (auto simp: with_player_def)
  with s' ServerLoadPlayerMsg show ?thesis by (simp add: tells_def list_all_iff)
next
  case (ServerInputMsg c st)
  with assms dispatch_side_ok [OF assms(1) waiting_call_ok [OF assms(2)]] show ?thesis
    by (auto simp: tells_def)
qed (use assms in auto)

lemma turns_ok:
  assumes "host_ok h"
  shows "\<exists>h'. host_step B (Main QsTurn) h = Some (Inr h') \<and> host_ok h'"
proof (cases "qs_queue (ho_server h)")
  case Nil
  with assms have "server_turn B (ho_server h) = Inr (ho_server h)"
    by (simp add: server_turn_def queue_pending host_ok_def)
  with assms show ?thesis by simp
next
  case (Cons m rest)
  with assms have ok: "side_ok (objects h) (qs_server (ho_server h))" "waiting_ok (objects h) m"
    "list_all (waiting_ok (objects h)) rest"
    and run: "qs_running (ho_server h)" "\<not> qs_stopped (ho_server h)" "\<not> qs_ending (ho_server h)"
    by (simp_all add: host_ok_def)
  obtain s' where s': "server_dispatch m (qs_server (ho_server h)) = Inr (True, s')" "side_ok (objects h) s'"
    "tells (qs_server (ho_server h)) s'" "srv_live s' = srv_live (qs_server (ho_server h))"
    using talk_turn [OF ok(1,2)] by blast
  let ?q = "(ho_server h)\<lparr>qs_queue := rest, qs_server := s'\<rparr>"
  have "server_turn B (ho_server h) = Inr ?q" using run Cons s'(1) by (simp add: server_turn_def queue_pending)
  moreover have "host_ok (with_host ?q h)"
    using run ok(3) s' by (intro with_host_ok [OF assms]) simp_all
  ultimately show ?thesis by simp
qed

lemma trans_writable: "list_all writable (map snd (trans_messages ct cs))"
  by (auto simp: trans_messages_def list_all_iff)

lemma physics_turn_host:
  assumes "host_ok h"
  shows "\<exists>ph s. physics_step B False (qs_tick (ho_server h)) (qs_server (ho_server h)) = Inr (ph, s) \<and>
    host_step B (Main QsPhysics) h = Some (Inr (with_host ((ho_server h)\<lparr>qs_server := s, qs_tick := ph\<rparr>) h)) \<and>
    host_ok (with_host ((ho_server h)\<lparr>qs_server := s, qs_tick := ph\<rparr>) h)"
proof -
  let ?q = "ho_server h"
  have side: "side_ok (objects h) (qs_server ?q)" and run: "qs_running ?q" "\<not> qs_ending ?q"
    using assms by (simp_all add: host_ok_def)
  from physics_step_side_ok [OF side, of B False "qs_tick ?q"] obtain ph s ct
    where s: "physics_step B False (qs_tick ?q) (qs_server ?q) = Inr (ph, s)" "side_ok (objects h) s"
      "srv_closed s = srv_closed (qs_server ?q)" "srv_live s = srv_live (qs_server ?q)"
      "srv_sent s = srv_sent (qs_server ?q) @ trans_messages ct (everybody s)" by blast
  have "tells (qs_server ?q) s" unfolding tells_def using s(3,5) trans_writable by blast
  then have "host_ok (with_host (?q\<lparr>qs_server := s, qs_tick := ph\<rparr>) h)"
    using assms s(2,4) by (intro with_host_ok) (simp_all add: host_ok_def)
  with run s(1) show ?thesis by (simp add: physics_turn_def)
qed

lemma main_ok:
  assumes "host_ok h" and "e = QsTurn \<or> e = QsPhysics \<or> e = QsWatch \<or> e = QsReturn"
  shows "\<exists>h'. host_step B (Main e) h = Some (Inr h') \<and> host_ok h'"
proof -
  have "watcher (ho_server h) = ho_server h" "main_return (ho_server h) = ho_server h"
    using assms(1) by (simp_all add: watcher_def main_return_def host_ok_def)
  then have "e = QsWatch \<or> e = QsReturn \<Longrightarrow> ?thesis" using assms(1) by auto
  with assms(2) turns_ok [OF assms(1)] physics_turn_host [OF assms(1)] show ?thesis by blast
qed

lemma ticks_ok:
  assumes "host_ok h"
  shows "\<exists>h'. host_step B Ticks h = Some (Inr h') \<and> host_ok h'"
proof (cases "qs_tick (ho_server h) = Asleep")
  case False
  with assms show ?thesis by (simp add: whole_tick_def)
next
  case True
  let ?s = "qs_server (ho_server h)"
  have side: "side_ok (objects h) ?s" and run: "qs_running (ho_server h)" "\<not> qs_ending (ho_server h)"
    using assms by (simp_all add: host_ok_def)
  obtain s' ct where s': "physics_tick B ?s = Some (Inr s')" "side_ok (objects h) s'" "srv_closed s' = srv_closed ?s"
    "srv_live s' = srv_live ?s" "srv_sent s' = srv_sent ?s @ trans_messages ct (everybody s')"
    using tick_side_ok [OF side, of B] by blast
  have "tells ?s s'" unfolding tells_def using s'(3,5) trans_writable by blast
  then have "host_ok (with_host ((ho_server h)\<lparr>qs_server := s'\<rparr>) h)"
    using assms s'(2,4) by (intro with_host_ok) (simp_all add: host_ok_def)
  with run True s'(1) show ?thesis by (simp add: whole_tick_def)
qed

text \<open>A tick that is under way is over after some steps of the physics thread.\<close>

lemma host_rests:
  assumes "host_ok h"
  shows "\<exists>n h'. host_run B (replicate n (Main QsPhysics)) h = Some (Inr h') \<and> host_ok h' \<and> qs_tick (ho_server h') = Asleep \<and>
    qs_queue (ho_server h') = qs_queue (ho_server h)"
  using assms
proof (induction "steps_left (qs_tick (ho_server h)) (qs_server (ho_server h))" arbitrary: h rule: less_induct)
  case less
  let ?q = "ho_server h"
  show ?case
  proof (cases "qs_tick ?q = Asleep")
    case True
    with less.prems have "host_run B (replicate 0 (Main QsPhysics)) h = Some (Inr h)" by simp
    with True less.prems show ?thesis by (intro exI [of _ 0] exI [of _ h]) simp
  next
    case False
    obtain ph s where ph: "physics_step B False (qs_tick ?q) (qs_server ?q) = Inr (ph, s)"
      "host_step B (Main QsPhysics) h = Some (Inr (with_host (?q\<lparr>qs_server := s, qs_tick := ph\<rparr>) h))"
      "host_ok (with_host (?q\<lparr>qs_server := s, qs_tick := ph\<rparr>) h)" (is "host_ok ?h")
      using physics_turn_host [OF less.prems, of B] by blast
    have "steps_left (qs_tick (ho_server ?h)) (qs_server (ho_server ?h)) < steps_left (qs_tick ?q) (qs_server ?q)"
      using steps_left_less [OF ph(1) False] by simp
    from less.hyps [OF this ph(3)] obtain n h' where h': "host_run B (replicate n (Main QsPhysics)) ?h = Some (Inr h')"
      "host_ok h'" "qs_tick (ho_server h') = Asleep" "qs_queue (ho_server h') = qs_queue ?q" by auto
    have "host_run B (replicate (Suc n) (Main QsPhysics)) h = Some (Inr h')"
      using h'(1) by (simp only: replicate.simps host_run.simps ph(2) option.case sum.case)
    with h' show ?thesis by (intro exI [of _ "Suc n"] exI [of _ h']) simp
  qed
qed

section \<open>Players who stay are served\<close>

text \<open>Connections come, their peers send input and ask for characters, and nobody leaves or sends a signal.\<close>

fun stays :: "'f host_event \<Rightarrow> bool" where
  "stays (Accepts err fresh sock) = (sk_in sock = [] \<and> sk_room sock = None)"
| "stays (PeerSends p m) = is_talk m"
| "stays (PeerLeaves p) = False"
| "stays (Main e) = (e = QsTurn \<or> e = QsPhysics \<or> e = QsWatch \<or> e = QsReturn)"
| "stays _ = True"

lemma host_step_ok:
  assumes "host_ok h" and "stays e"
  shows "\<exists>h'. host_step B e h = Some (Inr h') \<and> host_ok h'"
proof (cases e)
  case (Accepts err fresh sock)
  then have "sk_in sock = []" "sk_room sock = None" using assms(2) by simp_all
  from accepts_ok [OF assms(1) this] Accepts show ?thesis by (simp del: host_step.simps)
next
  case (PeerSends p m)
  with assms sends_ok show ?thesis by (simp del: host_step.simps)
next
  case (Main e)
  with assms main_ok show ?thesis by (simp del: host_step.simps)
qed (use assms service_ok ticks_ok in \<open>simp_all del: host_step.simps\<close>)

lemma host_run_ok:
  assumes "host_ok h" and "list_all stays es"
  shows "\<exists>h'. host_run B es h = Some (Inr h') \<and> host_ok h'"
  using assms
proof (induction es arbitrary: h)
  case (Cons e es)
  from host_step_ok [OF Cons.prems(1), of e B] Cons.prems(2) obtain h' where
    "host_step B e h = Some (Inr h')" "host_ok h'" by auto
  with Cons.IH [of h'] Cons.prems(2) show ?case by (simp del: host_step.simps)
qed simp

lemma host_start_ok:
  assumes "server_alone s" and "p \<noteq> 0"
  shows "host_ok (host_start p s)"
proof -
  have "\<forall>m \<in> set (ph_queue (m_physics s)). posted_ok {} m"
    using assms(1) is_addition_posted [of _ "{}"] by (auto simp: server_alone_def list_all_iff)
  then have "side_ok {} s"
    using assms(1) by (simp add: server_alone_def side_ok_def phys_ok_def clients_live_def)
  with assms(2) show ?thesis
    by (simp add: host_start_def host_ok_def new_object_def side_ok_object objects_def live_client_def listen_init_def)
qed

text \<open>
  C9: The server program serves any number of remote players safely for as long as they stay. Started on a server
  that has no client yet (with any world loaded), whatever connections come or fail to come, whatever input and requests for characters
  the peers send, and however the connections, the arrival of bytes, the handlers of the service, the messages of the server
  and the steps of the ticks interleave: every step returns, each stream stays in step with its messages, no object is marked for
  deletion or used after it, the server runs on, and everything it pushes to a player is posted as a handler that writes.
\<close>

theorem staying_players_are_served_safely:
  assumes "server_alone s" and "p \<noteq> 0" and "list_all stays es"
  shows "\<exists>h. host_run B es (host_start p s) = Some (Inr h) \<and> host_ok h"
  by (rule host_run_ok [OF host_start_ok [OF assms(1,2)] assms(3)])

text \<open>Two players, one of whom plays.\<close>

theorem staying_players_are_served_safely_witness:
  "\<exists>sock h. sk_in sock = [] \<and> host_run counting_bullet [Accepts 0 9 sock, PeerSends 8 (ServerLoadPlayerMsg 0 ''Player''), Arrives 8,
      Accepts 0 10 sock, Runs 8, Main QsTurn, Ticks, PeerSends 8 (ServerInputMsg 0 (Some 64)), Arrives 8, Runs 8, Runs 8,
      Runs 9, Main QsTurn, Main QsPhysics, Runs 8, Main QsPhysics, Accepts 24 11 sock, Runs 9]
      (host_start 8 (server_init (0, []) :: (int, nat \<times> nat list) server)) = Some (Inr h) \<and> host_ok h"
proof -
  let ?sock = "\<lparr>sk_in = [], sk_read_code = 2, sk_room = None, sk_write_code = 32, sk_out = []\<rparr>"
  have self: "(8 :: ptr) \<noteq> 0" by simp
  have "list_all stays [Accepts 0 9 ?sock, PeerSends 8 (ServerLoadPlayerMsg 0 ''Player'' :: int server_msg), Arrives 8,
      Accepts 0 10 ?sock, Runs 8, Main QsTurn, Ticks, PeerSends 8 (ServerInputMsg 0 (Some 64)), Arrives 8, Runs 8, Runs 8,
      Runs 9, Main QsTurn, Main QsPhysics, Runs 8, Main QsPhysics, Accepts 24 11 ?sock, Runs 9]"
    by (simp add: wire_string_def byte_of_char_def)
  from staying_players_are_served_safely [OF server_alone_init self this, of counting_bullet "(0, [])"] show ?thesis
    by (intro exI [of _ ?sock]) simp
qed

end
