(* ===== verification/NetworkLeave.thy ===== *)
theory NetworkLeave
  imports NetworkGame
begin

text \<open>
  How remote players leave and how the server program ends: the end of a stream, in a quiet moment and with input
  waiting, and the signal.
\<close>

section \<open>The player leaves\<close>

text \<open>The read of the next code is pending and nothing else is: what an object is in between two messages.\<close>

definition awaiting :: "'f remote_client \<Rightarrow> bool" where
  "awaiting c \<longleftrightarrow> rc_live c \<and> \<not> m_marked_for_delete c \<and> rc_reading c \<and> rc_posted c = [] \<and>
     sk_in (rc_sock c) = [] \<and> sk_read_code (rc_sock c) \<noteq> 0 \<and> sk_read_code (rc_sock c) \<noteq> bad_descriptor"

text \<open>The server without a player whose character was \<open>i\<close>, and without its object.\<close>

definition without_client :: "ptr \<Rightarrow> ('f, 'w) server \<Rightarrow> ('f, 'w) server" where
  "without_client p s = s\<lparr>m_clients := map_erase p (m_clients s), m_lobby_clients := set_erase p (m_lobby_clients s)\<rparr>"

definition left_by :: "ptr \<Rightarrow> oid \<Rightarrow> ('f, 'w) server \<Rightarrow> ('f, 'w) server" where
  "left_by p i s = (without_client p s)\<lparr>m_physics := delPhysical i True (m_physics s),
     srv_sent := srv_sent s @ map (\<lambda>d. (d, ClientDelDrawableMsg i)) (everybody (without_client p s))\<rparr>"

definition gone :: "ptr \<Rightarrow> oid \<Rightarrow> ('f, 'w) server \<Rightarrow> ('f, 'w) server" where
  "gone p i s = (left_by p i s)\<lparr>srv_live := set_erase p (srv_live s)\<rparr>"

lemma everybody_without: "set (everybody (without_client p s)) = set (everybody s) - {p}"
  by (auto simp: everybody_def without_client_def set_map_erase)

lemma everybody_gone [simp]: "everybody (gone p i s) = everybody (without_client p s)"
  by (simp add: gone_def left_by_def everybody_def)

lemma phys_ok_gone:
  assumes "phys_ok s"
  shows "phys_ok (gone p i s)"
proof -
  have "server_ok (gone p i s)"
    using assms by (simp add: phys_ok_def server_ok_def gone_def left_by_def without_client_def delPhysical_def
        ph_pushMessage_def)
  moreover have "clients_live (gone p i s)"
    using assms
    by (auto simp: phys_ok_def clients_live_def everybody_without) (simp add: gone_def left_by_def without_client_def)
  ultimately show ?thesis by (simp add: phys_ok_def)
qed

lemma removeClient_left_by:
  assumes "clients_live s" and "map_find p (m_clients s) = Some i" and "i \<noteq> 0"
  shows "removeClient p s = Inr (left_by p i s)"
  by (simp add: removeClient_live [OF assms(1)] Let_def assms(2,3) left_by_def without_client_def)

text \<open>The end of the stream: the pending read fails, the server is told, the object deletes itself.\<close>

lemma hang_up:
  assumes "phys_ok (qs_server (ho_server h))" and "ho_clients h p = Some c" and "awaiting c" and "p \<in> set (ho_left h)"
    and "\<not> qs_stopped (ho_server h)" and "map_find p (m_clients (qs_server (ho_server h))) = Some i" and "i \<noteq> 0"
    and "qs_running (ho_server h)"
  shows "\<exists>h' c'. host_run B [Arrives p, Runs p, Runs p] h = Some (Inr h') \<and>
    ho_server h' = (ho_server h)\<lparr>qs_server := gone p i (qs_server (ho_server h))\<rparr> \<and>
    ho_clients h' p = Some c' \<and> \<not> rc_live c' \<and> rc_posted c' = [] \<and> \<not> rc_reading c'"
proof -
  let ?q = "ho_server h"
  let ?s = "qs_server ?q"
  let ?code = "sk_read_code (rc_sock c)"
  have c: "rc_live c" "\<not> m_marked_for_delete c" "rc_reading c" "rc_posted c = []" "sk_in (rc_sock c) = []" "?code \<noteq> 0"
    using assms(3) by (simp_all add: awaiting_def)
  let ?failed = "c\<lparr>rc_reading := False, rc_posted := [ReadMsg ?code]\<rparr>"
  have "readPod32 (rc_sock c) = (Inl (SystemError ?code), rc_sock c)"
    using c by (simp add: readPod32_def io_bind_def sock_read_def)
  with c have "rc_step p Complete c = Inr ?failed" by (simp add: complete_read_def)
  moreover have "with_remote p c ?failed h = Inr (h\<lparr>ho_clients := (ho_clients h)(p \<mapsto> ?failed)\<rparr>)" (is "_ = Inr ?h1")
    using c with_host_same [of ?h1] by (simp add: with_remote_def)
  ultimately have step1: "host_step B (Arrives p) h = Some (Inr ?h1)"
    using assms(2,4,5) by (simp add: on_client_def)
  let ?left = "disconnect (?failed\<lparr>rc_posted := []\<rparr>)"
  have run2: "rc_step p Run ?failed = Inr ?left" using c by (simp add: rc_readMsg_def)
  have remove: "removeClient p ?s = Inr (left_by p i ?s)"
    using assms(1) by (intro removeClient_left_by assms(6,7)) (simp add: phys_ok_def)
  have fwd: "forward_posts p ?s (left_by p i ?s) d = d" for d
    by (auto simp: forward_posts_def messages_to_def left_by_def without_client_def filter_map o_def filter_empty_conv
        everybody_without [unfolded without_client_def])
  let ?h2 = "with_host (?q\<lparr>qs_server := left_by p i ?s\<rparr>) (?h1\<lparr>ho_clients := (ho_clients ?h1)(p \<mapsto> ?left)\<rparr>)"
  have "with_remote p ?failed ?left ?h1 = Inr ?h2"
    using c remove assms(8) by (simp add: with_remote_def disconnect_def)
  with run2 assms(5) have step2: "host_step B (Runs p) ?h1 = Some (Inr ?h2)" by (simp add: on_client_def)
  have at2: "ho_clients ?h2 p = Some ?left" by (simp add: with_host_def fwd)
  let ?dead = "deleteSelf (?left\<lparr>rc_posted := []\<rparr>)"
  let ?h3 = "with_host (?q\<lparr>qs_server := gone p i ?s\<rparr>) (?h2\<lparr>ho_clients := (ho_clients ?h2)(p \<mapsto> ?dead)\<rparr>)"
  have "rc_step p Run ?left = Inr ?dead" using c by (simp add: disconnect_def)
  moreover have "with_remote p ?left ?dead ?h2 = Inr ?h3"
    by (simp add: with_remote_def deleteSelf_def disconnect_def gone_def left_by_def without_client_def)
  ultimately have step3: "host_step B (Runs p) ?h2 = Some (Inr ?h3)"
    using assms(5) at2 by (simp add: on_client_def del: rc_step.simps)
  have "host_run B [Arrives p, Runs p, Runs p] h = Some (Inr ?h3)"
    by (simp only: host_run.simps step1 step2 step3 option.case sum.case)
  moreover have "forward_posts p (left_by p i ?s) (gone p i ?s) ?dead = ?dead"
    by (simp add: forward_posts_def messages_to_def gone_def)
  then have "ho_clients ?h3 p = Some ?dead" by (simp add: with_host_def)
  moreover have "\<not> rc_live ?dead \<and> rc_posted ?dead = [] \<and> \<not> rc_reading ?dead"
    by (simp add: deleteSelf_def disconnect_def)
  ultimately show ?thesis by (intro exI [of _ ?h3] exI [of _ ?dead]) simp
qed

lemma parse_everybody:
  assumes "parseMessage B m s = Inr s'" and "\<forall>c st. m \<noteq> ServerInputMsg c st"
  shows "everybody s' = everybody s"
  using assms by (cases m) (auto simp: set_state_def everybody_def split: option.splits)

lemma tick_everybody:
  assumes "physics_tick B s = Some (Inr s')" and "\<forall>m \<in> set (ph_queue (m_physics s)). \<forall>c st. m \<noteq> ServerInputMsg c st"
  shows "everybody s' = everybody s"
proof -
  obtain s1 where s1: "fold_res (parseMessage B) (ph_queue (m_physics s)) (without_queue s) = Inr s1"
    and s': "server_step (OpTransforms (transforms B (simulate B (m_physics (without_queue s1)))))
      (runTickCallbacks ((without_queue s1)\<lparr>m_physics := simulate B (m_physics (without_queue s1))\<rparr>)) = Inr s'"
    using assms(1) by (auto simp: physics_tick_def handle_messages_fold res_bind_eq_Inr Let_def)
  have "everybody s1 = everybody (without_queue s)"
  proof (rule fold_res_invariant [OF s1, where I = "\<lambda>t. everybody t = everybody (without_queue s)"])
    show "everybody u' = everybody (without_queue s)"
      if "m \<in> set (ph_queue (m_physics s))" "everybody u = everybody (without_queue s)" "parseMessage B m u = Inr u'" for m u u'
      using parse_everybody [OF that(3)] assms(2) that(1,2) by simp
  qed simp
  moreover have "everybody s' = everybody s1"
    using step_transforms [OF s'] by (auto simp: without_queue_def)
  ultimately show ?thesis by (simp add: without_queue_def)
qed

text \<open>Two players, the one at address 8 over the network; the object at address 7 waits for the next connection.\<close>

definition two_players :: "(int, nat \<times> nat list) host" where
  "two_players = \<lparr>ho_server = \<lparr>qs_queue = [], qs_server = (server_init (2, [0, 1]))
      \<lparr>m_clients := [(8, 1), (9, 2)], m_next_id := 3, srv_live := [7, 8, 9],
       m_physics := \<lparr>ph_objects = [], ph_characters = [(1, \<lparr>ch_handle = 0, ch_state = 0\<rparr>), (2, \<lparr>ch_handle = 1, ch_state = 0\<rparr>)],
         ph_queue = [], ph_world = (2, [0, 1])\<rparr>\<rparr>,
       qs_tick = Asleep, qs_ending = False, qs_running = True, qs_stopped = False, qs_exited = False\<rparr>,
     ho_listen = listen_init 7, 
     ho_clients = [8 \<mapsto> spinup (rc_init \<lparr>sk_in = [], sk_read_code = 2, sk_room = None, sk_write_code = 32, sk_out = []\<rparr>),
       9 \<mapsto> spinup (rc_init \<lparr>sk_in = [], sk_read_code = 2, sk_room = None, sk_write_code = 32, sk_out = []\<rparr>)],
     ho_left = []\<rparr>"

lemma two_players_state:
  "phys_ok (qs_server (ho_server two_players))"
  "ho_clients two_players 8 = Some (spinup (rc_init \<lparr>sk_in = [], sk_read_code = 2, sk_room = None, sk_write_code = 32, sk_out = []\<rparr>))"
  "awaiting (spinup (rc_init \<lparr>sk_in = [], sk_read_code = 2, sk_room = None, sk_write_code = 32, sk_out = []\<rparr>) :: int remote_client)"
  "qs_running (ho_server two_players)" "\<not> qs_stopped (ho_server two_players)"
  "8 \<notin> set (ho_left two_players)" "qs_queue (ho_server two_players) = []"
  "ph_queue (m_physics (qs_server (ho_server two_players))) = []"
  "map_find 8 (m_clients (qs_server (ho_server two_players))) = Some 1"
  "phys_ids (m_physics (qs_server (ho_server two_players))) = ({}, {1, 2})"
  "everybody (qs_server (ho_server two_players)) = [8, 9]"
  "qs_tick (ho_server two_players) = Asleep" "\<not> qs_ending (ho_server two_players)"
  by (simp_all add: two_players_def phys_ok_def server_ok_def clients_live_def everybody_def server_init_def map_ok_def
      set_ok_def awaiting_def spinup_def rc_init_def phys_ids_def map_find_def bad_descriptor_def)

text \<open>
  C10: A player that hangs up is forgotten. When nothing of the player is waiting any more, neither at the connection, nor at
  the server, nor at the physics: the end of the stream makes the service remove the client and
  delete the object, with nothing of it left in the service; the next tick removes the character; and
  everybody else, and nobody else, has been told to delete its drawable and has the transforms of
  the other characters.
\<close>

theorem player_leaves_cleanly:
  assumes "phys_ok (qs_server (ho_server h))" and "ho_clients h p = Some c" and "awaiting c"
    and "qs_running (ho_server h)" and "\<not> qs_stopped (ho_server h)" and "ph_queue (m_physics (qs_server (ho_server h))) = []"
    and "map_find p (m_clients (qs_server (ho_server h))) = Some i" and "i \<noteq> 0"
    and "i \<in> snd (phys_ids (m_physics (qs_server (ho_server h))))"
    and "qs_tick (ho_server h) = Asleep" and "\<not> qs_ending (ho_server h)"
  shows "\<exists>h' c' ct. host_run B [PeerLeaves p, Arrives p, Runs p, Runs p, Ticks] h = Some (Inr h') \<and>
    ho_clients h' p = Some c' \<and> \<not> rc_live c' \<and> rc_posted c' = [] \<and> \<not> rc_reading c' \<and>
    phys_ok (qs_server (ho_server h')) \<and> p \<notin> set (srv_live (qs_server (ho_server h'))) \<and>
    set (everybody (qs_server (ho_server h'))) = set (everybody (qs_server (ho_server h))) - {p} \<and>
    fst ` set ct = snd (phys_ids (m_physics (qs_server (ho_server h)))) - {i} \<and>
    phys_ids (m_physics (qs_server (ho_server h'))) = (fst (phys_ids (m_physics (qs_server (ho_server h)))), fst ` set ct) \<and>
    srv_sent (qs_server (ho_server h')) = srv_sent (qs_server (ho_server h)) @
      map (\<lambda>d. (d, ClientDelDrawableMsg i)) (everybody (qs_server (ho_server h'))) @
      trans_messages ct (everybody (qs_server (ho_server h')))"
proof -
  let ?s = "qs_server (ho_server h)" and ?h = "h\<lparr>ho_left := p # ho_left h\<rparr>"
  let ?t = "gone p i ?s"
  obtain h1 c' where h1: "host_run B [Arrives p, Runs p, Runs p] ?h = Some (Inr h1)"
    "ho_server h1 = (ho_server h)\<lparr>qs_server := ?t\<rparr>"
    "ho_clients h1 p = Some c'" "\<not> rc_live c'" "rc_posted c' = []" "\<not> rc_reading c'"
    using hang_up [of ?h p c i B] assms by auto
  have ok: "phys_ok ?t" using phys_ok_gone [OF assms(1)] .
  have q: "ph_queue (m_physics ?t) = [DelCharObjMsg i]"
    using assms(6) by (simp add: gone_def left_by_def delPhysical_def ph_pushMessage_def queue_push_def lockless_push_def)
  then have input: "\<forall>m \<in> set (ph_queue (m_physics ?t)). input_ok m ?t" by simp
  have ids: "phys_ids (m_physics ?t) = phys_ids (m_physics ?s)"
    by (simp add: gone_def left_by_def delPhysical_def ph_pushMessage_def phys_ids_def)
  obtain os cs where os: "phys_ids (m_physics ?s) = (os, cs)" by (cases "phys_ids (m_physics ?s)")
  obtain s' ct where s': "physics_tick B ?t = Some (Inr s')" "phys_ok s'" "phys_ids (m_physics s') = (os, cs - {i})"
    "srv_live s' = srv_live ?t" "srv_closed s' = srv_closed ?t" "fst ` set ct = cs - {i}"
    "srv_sent s' = srv_sent ?t @ trans_messages ct (everybody s')"
    using physics_tick_ids [OF ok input, of B] assms(9) by (auto simp: q ids os)
  have "everybody s' = everybody ?t" using tick_everybody [OF s'(1)] by (simp add: q)
  then have everybody: "set (everybody s') = set (everybody ?s) - {p}"
    "everybody s' = everybody (without_client p ?s)"
    by (simp_all add: everybody_without)
  have sent: "srv_sent ?t = srv_sent ?s @ map (\<lambda>d. (d, ClientDelDrawableMsg i)) (everybody s')"
    by (simp add: gone_def left_by_def everybody(2))
  have live: "p \<notin> set (srv_live s')" by (simp add: s'(4) gone_def set_erase_def)
  have "messages_to p s' = messages_to p ?t"
    using everybody(1) by (auto simp: messages_to_def s'(7) trans_messages_def filter_empty_conv)
  then have fwd: "forward_posts p ?t s' c' = c'" using s'(5) by (simp add: forward_posts_def)
  let ?h' = "with_host ((ho_server h)\<lparr>qs_server := s'\<rparr>) h1"
  have "host_step B Ticks h1 = Some (Inr ?h')"
    using h1(2) s'(1) assms(4,10,11) by (simp add: whole_tick_def)
  then have "host_run B ([Arrives p, Runs p, Runs p] @ [Ticks]) ?h = Some (Inr ?h')"
    unfolding host_run_append h1(1) by (simp del: host_step.simps)
  then have run: "host_run B [PeerLeaves p, Arrives p, Runs p, Runs p, Ticks] h = Some (Inr ?h')" by simp
  have "ho_clients ?h' p = Some c'" using h1(2,3) fwd by (simp add: with_host_def)
  with run h1(4-6) s'(2,3,6,7) everybody(1) sent live os show ?thesis
    by (intro exI [of _ ?h'] exI [of _ c'] exI [of _ ct]) simp
qed

theorem player_leaves_cleanly_witness:
  "\<exists>h' c'. host_run counting_bullet [PeerLeaves 8, Arrives 8, Runs 8, Runs 8, Ticks] two_players = Some (Inr h') \<and>
    ho_clients h' 8 = Some c' \<and> \<not> rc_live c' \<and> set (everybody (qs_server (ho_server h'))) = {9} \<and>
    snd (phys_ids (m_physics (qs_server (ho_server h')))) = {2}"
proof -
  have "(1 :: oid) \<noteq> 0" "1 \<in> snd (phys_ids (m_physics (qs_server (ho_server two_players))))"
    by (simp_all add: two_players_state(10))
  from player_leaves_cleanly [OF two_players_state(1-5,8,9) this two_players_state(12,13), of counting_bullet] show ?thesis
    unfolding two_players_state(10,11) by fastforce
qed

section \<open>The player leaves with input waiting\<close>

lemma push_all_stops:
  assumes "\<forall>p \<in> set ms. fst p \<noteq> 0" and "\<exists>p \<in> set ms. fst p \<notin> set (srv_live s)"
  shows "push_all ms s = Inl UseAfterFree"
  using assms unfolding push_all_def
proof (induction ms arbitrary: s)
  case (Cons p ms)
  show ?case
  proof (cases "fst p \<in> set (srv_live s)")
    case True
    with Cons.prems have "push_client (fst p) (snd p) s = Inr (s\<lparr>srv_sent := srv_sent s @ [p]\<rparr>)"
      by (simp add: push_client_live)
    with Cons.IH [of "s\<lparr>srv_sent := srv_sent s @ [p]\<rparr>"] Cons.prems True show ?thesis by (simp add: case_prod_unfold)
  qed (use Cons.prems in \<open>simp add: case_prod_unfold push_client_def call_client_def\<close>)
qed simp

lemma pushClientTransforms_stops:
  assumes "ct \<noteq> []" and "\<forall>c \<in> set (everybody s). c \<noteq> 0" and "c \<in> set (everybody s)" and "c \<notin> set (srv_live s)"
  shows "pushClientTransforms ct s = Inl UseAfterFree"
proof -
  obtain i mat rest where ct: "ct = (i, mat) # rest" using assms(1) by (cases ct) auto
  have "push_all (map (\<lambda>c. (c, ClientTransDrawableMsg i (Some mat))) (everybody s)) s = Inl UseAfterFree"
    using assms by (intro push_all_stops) auto
  then show ?thesis by (simp add: pushClientTransforms_def ct)
qed

text \<open>A tick that handles input of a player already removed enters it again, with the identifier 0.\<close>

lemma tick_dead_input:
  assumes "phys_ok s" and "p \<notin> set (srv_live s)" and "p \<noteq> 0"
    and "ph_queue (m_physics s) = [ServerInputMsg p (Some st), DelCharObjMsg i]"
    and "i \<in> snd (phys_ids (m_physics s))" and "j \<in> snd (phys_ids (m_physics s))" and "j \<noteq> i"
  shows "physics_tick B s = Some (Inl UseAfterFree)"
proof -
  let ?s = "without_queue s"
  let ?u = "set_state (fst (getClientId p ?s)) st (snd (getClientId p ?s))"
  have first: "parseMessage B (ServerInputMsg p (Some st)) ?s = Inr ?u" by (simp add: Let_def case_prod_unfold)
  have ids: "phys_ids (m_physics ?u) = phys_ids (m_physics s)" by (simp add: set_state_def phys_ids_ops(1))
  then obtain ch where ch: "map_find i (ph_characters (m_physics ?u)) = Some ch"
    using assms(5) map_find_None_iff [of i "ph_characters (m_physics ?u)"] by (auto simp: phys_ids_def)
  let ?v = "?u\<lparr>m_physics := (m_physics ?u)\<lparr>ph_characters := map_erase i (ph_characters (m_physics ?u)),
    ph_world := bt_remove_character B (ch_handle ch) (ph_world (m_physics ?u))\<rparr>\<rparr>"
  have msgs: "fold_res (parseMessage B) (ph_queue (m_physics s)) ?s = Inr ?v"
    using first ch by (simp add: assms(4))
  let ?w = "without_queue ?v"
  let ?p = "simulate B (m_physics ?w)"
  have "j \<in> fst ` set (ph_characters (m_physics ?w))"
    using assms(6,7) ids by (simp add: phys_ids_def set_map_erase_keys)
  then have ct: "transforms B ?p \<noteq> []" by (auto simp: transforms_def)
  have all: "set (everybody (runTickCallbacks (?w\<lparr>m_physics := ?p\<rparr>))) = insert p (set (everybody s))"
    using everybody_put [of p 0 s] map_find_None_iff [of p "m_clients s"]
    by (auto simp: set_state_def getClientId_state without_queue_def everybody_def)
  have live: "srv_live (runTickCallbacks (?w\<lparr>m_physics := ?p\<rparr>)) = srv_live s"
    by (simp add: set_state_def getClientId_state)
  have "pushClientTransforms (transforms B ?p) (runTickCallbacks (?w\<lparr>m_physics := ?p\<rparr>)) = Inl UseAfterFree"
    using assms(1-3) all live by (intro pushClientTransforms_stops [OF ct, of _ p]) (auto simp: phys_ok_def clients_live_def)
  then show ?thesis by (simp add: physics_tick_def handle_messages_fold msgs Let_def del: parseMessage.simps)
qed

text \<open>A message arrives and is read while nothing else is waiting at the connection.\<close>

lemma reads_one:
  fixes h :: "('f, 'w) host"
  assumes "ho_clients h p = Some c" and "rc_live c" and "\<not> m_marked_for_delete c" and "rc_reading c" and "rc_posted c = []"
    and "sk_in (rc_sock c) = server_bytes m" and "server_sendable m" and "\<not> qs_stopped (ho_server h)" and "p \<in> set (ho_left h)"
  shows "\<exists>h'. host_run B [Arrives p, Runs p] h = Some (Inr h') \<and>
    ho_server h' = server_pushMessage (from_client p m) (ho_server h) \<and> ho_left h' = ho_left h \<and>
    ho_clients h' p = Some (c\<lparr>rc_sock := (rc_sock c)\<lparr>sk_in := []\<rparr>, m_next_msg_type := server_type m,
      rc_calls := rc_calls c @ [CallPushMessage (from_client p m)]\<rparr>)"
proof -
  let ?code = "complete_read c"
  let ?read = "c\<lparr>rc_sock := (rc_sock c)\<lparr>sk_in := []\<rparr>, m_next_msg_type := server_type m,
    rc_calls := rc_calls c @ [CallPushMessage (from_client p m)]\<rparr>"
  have steps: "rc_steps p [Complete, Run] c = Inr ?read"
    using receive_one [of m c "[]" p] assms by simp
  have "sk_in (rc_sock c) = pod32 (server_type m) @ server_payload m" using assms(6) by (simp add: server_bytes_def)
  from readPod32_code [OF this] assms(2,4) have code: "rc_calls ?code = rc_calls c" "rc_live ?code"
    by (simp_all add: complete_read_def)
  let ?h1 = "h\<lparr>ho_clients := (ho_clients h)(p \<mapsto> ?code)\<rparr>"
  have "with_remote p c ?code h = Inr ?h1" using code with_host_same [of ?h1] by (simp add: with_remote_def)
  then have arrives: "host_step B (Arrives p) h = Some (Inr ?h1)"
    using assms(1,8,9) by (simp add: on_client_def)
  let ?q = "server_pushMessage (from_client p m) (ho_server h)"
  let ?h2 = "with_host ?q (?h1\<lparr>ho_clients := (ho_clients ?h1)(p \<mapsto> ?read)\<rparr>)"
  have "rc_step p Run ?code = Inr ?read"
    using steps by (cases "rc_step p Run ?code") (simp_all del: rc_step.simps(4))
  moreover have "with_remote p ?code ?read ?h1 = Inr ?h2"
    using code assms(2) by (simp add: with_remote_def)
  ultimately have runs: "host_step B (Runs p) ?h1 = Some (Inr ?h2)"
    using assms(8) by (simp add: on_client_def del: rc_step.simps)
  have "ho_clients ?h2 p = Some ?read" by (simp add: with_host_def server_pushMessage_def)
  moreover have "host_run B [Arrives p, Runs p] h = Some (Inr ?h2)"
    by (simp only: host_run.simps arrives runs option.case sum.case)
  ultimately show ?thesis by (intro exI [of _ ?h2]) simp
qed

text \<open>
  C11: A player that sends input and hangs up can take the server down. If the service reads the input, removes the client and deletes
  the object before the server's thread takes the input from the queue, then the input reaches the physics after the
  removal: looking the sender up enters the deleted object as a player again, with the identifier 0, and
  as long as any other character is in the world the transforms of the same tick are pushed to the
  deleted object.
\<close>

theorem hang_up_with_input_waiting_crashes:
  fixes h :: "('f, 'w) host"
  assumes "phys_ok (qs_server (ho_server h))" and "ho_clients h p = Some c" and "awaiting c"
    and "qs_running (ho_server h)" and "\<not> qs_stopped (ho_server h)" and "p \<notin> set (ho_left h)"
    and "qs_queue (ho_server h) = []" and "ph_queue (m_physics (qs_server (ho_server h))) = []"
    and "map_find p (m_clients (qs_server (ho_server h))) = Some i" and "i \<noteq> 0" and "p \<noteq> 0"
    and "i \<in> snd (phys_ids (m_physics (qs_server (ho_server h))))"
    and "j \<in> snd (phys_ids (m_physics (qs_server (ho_server h))))" and "j \<noteq> i"
    and "qs_tick (ho_server h) = Asleep" and "\<not> qs_ending (ho_server h)"
  shows "host_run B [PeerSends p (ServerInputMsg d (Some st)), PeerLeaves p, Arrives p, Runs p,
      Arrives p, Runs p, Runs p, Main QsTurn, Ticks] h = Some (Inl UseAfterFree)"
proof -
  let ?s = "qs_server (ho_server h)"
  let ?m = "ServerInputMsg d (Some st) :: 'f server_msg" and ?w = "ServerInputMsg p (Some st) :: 'f server_msg"
  let ?sent = "c\<lparr>rc_sock := (rc_sock c)\<lparr>sk_in := server_bytes ?m\<rparr>\<rparr>"
  let ?h0 = "h\<lparr>ho_clients := (ho_clients h)(p \<mapsto> ?sent), ho_left := p # ho_left h\<rparr>"
  have c: "rc_live c" "\<not> m_marked_for_delete c" "rc_reading c" "rc_posted c = []" "sk_in (rc_sock c) = []"
    "sk_read_code (rc_sock c) \<noteq> 0" "sk_read_code (rc_sock c) \<noteq> bad_descriptor"
    using assms(3) by (simp_all add: awaiting_def)
  then have "deliver ?m c = ?sent" by (simp add: deliver_def)
  then have sends: "host_run B [PeerSends p ?m, PeerLeaves p] h = Some (Inr ?h0)" using assms(2,6) by simp
  obtain h2 where h2: "host_run B [Arrives p, Runs p] ?h0 = Some (Inr h2)"
    "ho_server h2 = server_pushMessage ?w (ho_server h)" "ho_left h2 = p # ho_left h"
    "ho_clients h2 p = Some (?sent\<lparr>rc_sock := (rc_sock ?sent)\<lparr>sk_in := []\<rparr>, m_next_msg_type := server_type ?m,
      rc_calls := rc_calls ?sent @ [CallPushMessage ?w]\<rparr>)" (is "_ = Some ?read")
    using reads_one [of ?h0 p ?sent ?m B] c assms(5) by auto
  have "awaiting ?read" using c by (simp add: awaiting_def)
  moreover have s2: "qs_server (ho_server h2) = ?s" "\<not> qs_stopped (ho_server h2)" "qs_running (ho_server h2)"
    using assms(4,5) by (simp_all add: h2(2) server_pushMessage_def)
  ultimately obtain h3 c' where h3: "host_run B [Arrives p, Runs p, Runs p] h2 = Some (Inr h3)"
    "ho_server h3 = (ho_server h2)\<lparr>qs_server := gone p i ?s\<rparr>"
    using hang_up [of h2 p ?read i B] assms(1,9,10) h2(3,4) by auto
  let ?t = "gone p i ?s"
  let ?u = "?t\<lparr>m_physics := ph_pushMessage ?w (m_physics ?t)\<rparr>"
  let ?h4 = "with_host ((ho_server h)\<lparr>qs_server := ?u\<rparr>) h3"
  have "server_turn B (ho_server h3) = Inr ((ho_server h)\<lparr>qs_server := ?u\<rparr>)"
    using assms(4,7,16) by (simp add: h3(2) h2(2) server_turn_def server_pushMessage_def queue_push_def lockless_push_def queue_pending)
  then have turn: "host_step B (Main QsTurn) h3 = Some (Inr ?h4)" by simp
  have u: "ph_queue (m_physics ?u) = [?w, DelCharObjMsg i]" "phys_ids (m_physics ?u) = phys_ids (m_physics ?s)"
    using assms(8) by (simp_all add: gone_def left_by_def delPhysical_def ph_pushMessage_def queue_push_def
        lockless_push_def phys_ids_def)
  have "phys_ok ?u"
    using phys_ok_gone [OF assms(1), of p i]
    by (simp add: phys_ok_def server_ok_def clients_live_def ph_pushMessage_def)
  moreover have "p \<notin> set (srv_live ?u)" by (simp add: gone_def set_erase_def)
  ultimately have "physics_tick B ?u = Some (Inl UseAfterFree)"
    using assms(11-14) u by (intro tick_dead_input [of ?u p st i j]) auto
  then have tick: "host_step B Ticks ?h4 = Some (Inl UseAfterFree)" using assms(4,15,16) by (simp add: whole_tick_def)
  have "host_run B [Main QsTurn, Ticks] h3 = Some (Inl UseAfterFree)"
    by (simp only: host_run.simps turn tick option.case sum.case)
  then have "host_run B ([PeerSends p ?m, PeerLeaves p] @ [Arrives p, Runs p] @ [Arrives p, Runs p, Runs p] @ [Main QsTurn, Ticks]) h =
      Some (Inl UseAfterFree)"
    unfolding host_run_append sends h2(1) h3(1) option.case sum.case .
  then show ?thesis by simp
qed

theorem hang_up_with_input_waiting_crashes_witness:
  "host_run counting_bullet [PeerSends 8 (ServerInputMsg 0 (Some 64)), PeerLeaves 8, Arrives 8, Runs 8,
    Arrives 8, Runs 8, Runs 8, Main QsTurn, Ticks] two_players = Some (Inl UseAfterFree)"
proof -
  have "(1 :: oid) \<noteq> 0" "(8 :: ptr) \<noteq> 0" "(2 :: oid) \<noteq> 1"
    "1 \<in> snd (phys_ids (m_physics (qs_server (ho_server two_players))))"
    "2 \<in> snd (phys_ids (m_physics (qs_server (ho_server two_players))))"
    by (simp_all add: two_players_state(10))
  with hang_up_with_input_waiting_crashes [OF two_players_state(1-9)] two_players_state(12,13) show ?thesis by blast
qed

section \<open>The end of the server program\<close>

text \<open>The signal and the turn of the server's thread that takes it: what both properties of this section start with.\<close>

definition ended :: "('f, 'v, 'w) bullet \<Rightarrow> ('f, 'w) server \<Rightarrow> ('f, 'w) server" where
  "ended B s = s\<lparr>m_physics := physics_shutdown B (m_physics s), srv_closed := srv_closed s @ everybody s\<rparr>"

lemma signal_and_turn:
  assumes "host_ok h" and "qs_tick (ho_server h) = Asleep"
  shows "\<exists>h'. host_run B [Main QsSignal, Main QsTurn] h = Some (Inr h') \<and>
    ho_server h' = (ho_server h)\<lparr>qs_server := ended B (qs_server (ho_server h)), qs_running := False\<rparr> \<and>
    (\<forall>p. ho_clients h' p =
      map_option (\<lambda>c. if p \<in> set (everybody (qs_server (ho_server h))) then close_socket c else c) (ho_clients h p)) \<and>
    ho_listen h' = ho_listen h"
proof -
  let ?q = "ho_server h"
  let ?s = "qs_server ?q"
  let ?q1 = "signal_handler ?q" and ?q2 = "?q\<lparr>qs_server := ended B ?s, qs_running := False\<rparr>"
  have run: "qs_running ?q" "\<not> qs_ending ?q" and live: "clients_live ?s"
    using assms by (simp_all add: host_ok_def side_ok_def phys_ok_def)
  let ?h1 = "with_host ?q1 h"
  let ?h2 = "with_host ?q2 ?h1"
  have "server_turn B ?q1 = Inr ?q2"
    using run live assms(2) by (simp add: signal_handler_def server_pushMessage_def server_turn_def finish_physics_def queue_push_def lockless_push_def
        queue_pending server_end_live ended_def)
  then have steps: "host_step B (Main QsSignal) h = Some (Inr ?h1)" "host_step B (Main QsTurn) ?h1 = Some (Inr ?h2)"
    by simp_all
  have "forward_posts p ?s (ended B ?s) c = (if p \<in> set (everybody ?s) then close_socket c else c)" for p c
    by (simp add: forward_posts_def messages_to_def ended_def)
  then have "ho_clients ?h2 p = map_option (\<lambda>c. if p \<in> set (everybody ?s) then close_socket c else c) (ho_clients h p)" for p
    by (cases "ho_clients h p") (simp_all add: with_host_def signal_handler_def server_pushMessage_def)
  moreover have "host_run B [Main QsSignal, Main QsTurn] h = Some (Inr ?h2)"
    by (simp only: host_run.simps steps option.case sum.case)
  ultimately show ?thesis by (intro exI [of _ ?h2]) simp
qed

lemma signal_between_ticks:
  assumes "host_ok h" and "qs_tick (ho_server h) = Asleep"
  shows "\<exists>h'. host_run B [Main QsSignal, Main QsTurn, Main QsWatch, Main QsReturn] h = Some (Inr h') \<and>
    qs_exited (ho_server h') \<and> \<not> qs_running (ho_server h') \<and> qs_queue (ho_server h') = qs_queue (ho_server h) \<and>
    srv_closed (qs_server (ho_server h')) = srv_closed (qs_server (ho_server h)) @ everybody (qs_server (ho_server h)) \<and>
    m_physics (qs_server (ho_server h')) = physics_shutdown B (m_physics (qs_server (ho_server h))) \<and>
    (\<forall>p c. ho_clients h p = Some c \<longrightarrow>
      ho_clients h' p = Some (if p \<in> set (everybody (qs_server (ho_server h))) then close_socket c else c)) \<and>
    (\<forall>p. host_step B (Runs p) h' = Some (Inr h'))"
proof -
  obtain h2 where h2: "host_run B [Main QsSignal, Main QsTurn] h = Some (Inr h2)"
    "ho_server h2 = (ho_server h)\<lparr>qs_server := ended B (qs_server (ho_server h)), qs_running := False\<rparr>"
    "\<forall>p. ho_clients h2 p =
      map_option (\<lambda>c. if p \<in> set (everybody (qs_server (ho_server h))) then close_socket c else c) (ho_clients h p)"
    using signal_and_turn [OF assms, of B] by blast
  let ?q3 = "(ho_server h2)\<lparr>qs_stopped := True\<rparr>" and ?q4 = "(ho_server h2)\<lparr>qs_stopped := True, qs_exited := True\<rparr>"
  let ?h' = "with_host ?q4 (with_host ?q3 h2)"
  have steps: "host_step B (Main QsWatch) h2 = Some (Inr (with_host ?q3 h2))"
    "host_step B (Main QsReturn) (with_host ?q3 h2) = Some (Inr ?h')"
    by (simp_all add: watcher_def main_return_def h2(2))
  have "host_run B [Main QsWatch, Main QsReturn] h2 = Some (Inr ?h')"
    by (simp only: host_run.simps steps option.case sum.case)
  then have "host_run B ([Main QsSignal, Main QsTurn] @ [Main QsWatch, Main QsReturn]) h = Some (Inr ?h')"
    unfolding host_run_append h2(1) option.case sum.case .
  moreover have "ho_clients ?h' p = ho_clients h2 p" for p
    by (cases "ho_clients h2 p") (simp_all add: with_host_def)
  moreover have "\<forall>p. host_step B (Runs p) ?h' = Some (Inr ?h')" by (simp add: on_client_def)
  ultimately show ?thesis using h2(3) by (intro exI [of _ ?h']) (simp add: h2(2) ended_def)
qed


lemma two_players_ok: "host_ok two_players"
proof -
  have "connected c" if "ho_clients two_players p = Some c" for p c
    using that by (auto simp: two_players_def spinup_connected split: if_splits)
  moreover have "objects two_players = {8, 9}" by (auto simp: objects_def two_players_def)
  moreover have "live_client c (qs_server (ho_server two_players))" if "c \<in> {7, 8, 9}" for c
    using that by (auto simp: live_client_def two_players_def)
  ultimately show ?thesis
    using two_players_state by (simp add: host_ok_def side_ok_def) (simp add: two_players_def listen_init_def)
qed


text \<open>
  C12: If the watcher is not quick, the end of the server program uses deleted memory. The server's thread deletes the physics, closes the
  sockets and leaves the client map as it is; the cancelled read of any player then removes the client, and \<open>removeClient\<close>
  calls \<open>delPhysical\<close> on the deleted physics.
\<close>

theorem cancelled_read_uses_deleted_physics:
  assumes "host_ok h" and "ho_clients h p = Some c" and "rc_reading c" and "rc_posted c = []"
    and "map_find p (m_clients (qs_server (ho_server h))) = Some i" and "i \<noteq> 0"
    and "qs_tick (ho_server h) = Asleep"
  shows "host_run B [Main QsSignal, Main QsTurn, Runs p] h = Some (Inl UseAfterFree)"
proof -
  let ?s = "qs_server (ho_server h)"
  obtain h2 where h2: "host_run B [Main QsSignal, Main QsTurn] h = Some (Inr h2)"
    "ho_server h2 = (ho_server h)\<lparr>qs_server := ended B ?s, qs_running := False\<rparr>"
    "\<forall>p. ho_clients h2 p = map_option (\<lambda>c. if p \<in> set (everybody ?s) then close_socket c else c) (ho_clients h p)"
    using signal_and_turn [OF assms(1,7), of B] by blast
  have "p \<in> set (everybody ?s)" using assms(5) by (force simp: everybody_def map_find_def dest: map_of_SomeD)
  with h2(3) assms(2) have closed: "ho_clients h2 p = Some (close_socket c)" by simp
  have c: "rc_live c" "\<not> m_marked_for_delete c" using assms(1,2) by (auto simp: host_ok_def connected_def)
  let ?c = "disconnect ((close_socket c)\<lparr>rc_posted := []\<rparr>)"
  have "rc_step p Run (close_socket c) = Inr ?c"
    using c assms(3,4) by (simp add: close_socket_def rc_readMsg_def operation_aborted_def)
  moreover have "with_remote p (close_socket c) ?c h2 = Inl UseAfterFree"
    using assms(5,6) by (simp add: with_remote_def disconnect_def h2(2) ended_def map_index_def)
  moreover have "\<not> qs_stopped (ho_server h2)" using assms(1) by (simp add: h2(2) host_ok_def)
  ultimately have step: "host_step B (Runs p) h2 = Some (Inl UseAfterFree)"
    using closed by (simp add: on_client_def del: rc_step.simps)
  have "host_run B [Runs p] h2 = Some (Inl UseAfterFree)"
    by (simp only: host_run.simps step option.case sum.case)
  then have "host_run B ([Main QsSignal, Main QsTurn] @ [Runs p]) h = Some (Inl UseAfterFree)"
    unfolding host_run_append h2(1) option.case sum.case .
  then show ?thesis by simp
qed

theorem cancelled_read_uses_deleted_physics_witness:
  "host_run counting_bullet [Main QsSignal, Main QsTurn, Runs 8] two_players = Some (Inl UseAfterFree)"
proof (rule cancelled_read_uses_deleted_physics [OF two_players_ok two_players_state(2) _ _ two_players_state(9)])
qed (simp_all add: spinup_def rc_init_def two_players_state)

text \<open>
  What \<open>main\<close> deletes on its way out: the destructor of \<open>ListenServer\<close> deletes the object that waits for the next connection. The
  objects of the connections, which delete themselves in a handler, are left.
\<close>

definition listen_end :: "('f, 'w) host \<Rightarrow> ('f, 'w) host" where
  "listen_end h =
     (let q = ho_server h
      in h\<lparr>ho_server := q\<lparr>qs_server := (qs_server q)
        \<lparr>srv_live := set_erase (m_next_client (ho_listen h)) (srv_live (qs_server q))\<rparr>\<rparr>\<rparr>)"

lemma connections_outlive_main:
  assumes "host_ok h" and "qs_tick (ho_server h) = Asleep"
  shows "\<exists>h'. host_run B [Main QsSignal, Main QsTurn, Main QsWatch, Main QsReturn] h = Some (Inr h') \<and>
    m_next_client (ho_listen h) \<notin> set (srv_live (qs_server (ho_server (listen_end h')))) \<and>
    (\<forall>p \<in> objects h. p \<in> set (srv_live (qs_server (ho_server (listen_end h')))))"
proof -
  let ?s = "qs_server (ho_server h)"
  obtain h2 where h2: "host_run B [Main QsSignal, Main QsTurn] h = Some (Inr h2)"
    "ho_server h2 = (ho_server h)\<lparr>qs_server := ended B ?s, qs_running := False\<rparr>" "ho_listen h2 = ho_listen h"
    using signal_and_turn [OF assms, of B] by blast
  let ?q3 = "(ho_server h2)\<lparr>qs_stopped := True\<rparr>" and ?q4 = "(ho_server h2)\<lparr>qs_stopped := True, qs_exited := True\<rparr>"
  let ?h' = "with_host ?q4 (with_host ?q3 h2)"
  have steps: "host_step B (Main QsWatch) h2 = Some (Inr (with_host ?q3 h2))"
    "host_step B (Main QsReturn) (with_host ?q3 h2) = Some (Inr ?h')"
    by (simp_all add: watcher_def main_return_def h2(2))
  have "host_run B [Main QsWatch, Main QsReturn] h2 = Some (Inr ?h')"
    by (simp only: host_run.simps steps option.case sum.case)
  then have run: "host_run B ([Main QsSignal, Main QsTurn] @ [Main QsWatch, Main QsReturn]) h = Some (Inr ?h')"
    unfolding host_run_append h2(1) option.case sum.case .
  have "p \<in> set (srv_live ?s)" "p \<noteq> m_next_client (ho_listen h)" if "p \<in> objects h" for p
    using assms(1) that by (auto simp: host_ok_def side_ok_def live_client_def)
  with run show ?thesis
    by (intro exI [of _ ?h']) (auto simp: listen_end_def h2(2,3) ended_def set_erase_def)
qed

end
