(* ===== verification/ClientProgram.thy ===== *)
theory ClientProgram
  imports Game RemoteServer
begin

text \<open>
  The client program, \<open>qntcli.cpp\<close>: the window and the main loop of theory \<open>LocalClient\<close>, and in the place of the
  game server the \<open>RemoteServer\<close> of theory \<open>RemoteServer\<close> with the thread that runs its service. The calls of the
  client on the server and of the server on the client are direct calls; the messages the client takes, the rest of its frames,
  the handlers and what arrives from the network interleave one at a time.
\<close>

section \<open>State and steps\<close>

text \<open>
  \<open>cp_ended\<close>: the stream ends after the bytes that have arrived; \<open>cp_running\<close> is the \<open>m_running\<close> of the
  remote server; \<open>cp_frame\<close>: the client is in the middle of a frame; \<open>cp_left\<close>: the client has left its loop and waits for the termination; \<open>cp_exited\<close>: \<open>main\<close> has returned.
\<close>

record 'f program =
  cp_client :: "'f client"
  cp_server :: "'f remote_server"
  cp_ended :: bool
  cp_running :: bool
  cp_frame :: bool
  cp_left :: bool
  cp_exited :: bool

definition with_service :: "'f remote_server \<Rightarrow> 'f program \<Rightarrow> 'f program" where
  "with_service s p =
     (let new = drop (length (rs_given (cp_server p))) (rs_given s);
          c = fold client_pushMessage (map snd new) (cp_client p)
      in p\<lparr>cp_server := s,
           cp_client := (if length (rs_told (cp_server p)) < length (rs_told s) then serverClosed c else c)\<rparr>)"

definition with_window :: "'f client \<Rightarrow> 'f program \<Rightarrow> 'f program" where
  "with_window c p =
     p\<lparr>cp_client := c,
       cp_server := fold rs_pushMessage (drop (length (lc_sent (cp_client p))) (lc_sent c)) (cp_server p)\<rparr>"

text \<open>
  \<open>main\<close> up to the main loop, with the arguments \<open>argv\<close>, the outcomes of resolving and connecting, and the
  connected socket; the wait of \<open>addClient\<close> for the thread is in theory \<open>RemoteServer\<close>.
\<close>

definition program_start ::
    "ptr \<Rightarrow> string list \<Rightarrow> int \<Rightarrow> int \<Rightarrow> socket \<Rightarrow> fault + 'f program" where
  "program_start self argv resolve_code connect_code sock =
     res_bind (rs_connect self resolve_code connect_code (qntcli_server argv sock)) (\<lambda>s.
       let c = client_init self in
       Inr \<lparr>cp_client = c, cp_server = fold rs_pushMessage (lc_sent c) (rs_listen s), cp_ended = False,
            cp_running = True, cp_frame = False, cp_left = False, cp_exited = False\<rparr>)"

text \<open>
  The server sends a message or ends the stream; the pending read completes; the service runs a handler; it returns and its thread
  ends; the client takes a message of its queue; (the rest of) a frame with its X events; the end of the main loop; the return of \<open>main\<close>.
\<close>

datatype program_event =
  ServerSends client_msg | ServerEnds | Completes | Handles | ThreadEnds | Takes | Frames "xevent list" | Leaves | Returns

fun program_step :: "x11 \<Rightarrow> (ptr \<Rightarrow> float_bits list) \<Rightarrow> ptr \<Rightarrow> program_event \<Rightarrow> 'f program \<Rightarrow>
    (fault + 'f program) option" where
  "program_step X J self (ServerSends m) p =
     Some (Inr (if cp_ended p then p
       else p\<lparr>cp_server := (cp_server p)\<lparr>rs_sock := (rs_sock (cp_server p))
         \<lparr>sk_in := sk_in (rs_sock (cp_server p)) @ client_bytes m\<rparr>\<rparr>\<rparr>))"
| "program_step X J self ServerEnds p = Some (Inr (p\<lparr>cp_ended := True\<rparr>))"
| "program_step X J self Completes p =
     Some (Inr (if sk_in (rs_sock (cp_server p)) = [] \<and> \<not> cp_ended p then p else with_service (rs_complete (cp_server p)) p))"
| "program_step X J self Handles p =
     Some (if \<not> cp_running p then Inr p
       else res_bind (rs_step RsRun (cp_server p)) (\<lambda>s. Inr (with_service s p)))"
| "program_step X J self ThreadEnds p =
     Some (Inr (if cp_running p \<and> rs_done (cp_server p)
       then (with_service (rs_after (cp_server p)) p)\<lparr>cp_running := False\<rparr> else p))"
| "program_step X J self Takes p =
     Some (if m_finished (cp_client p) \<and> \<not> cp_frame p then Inr p
       else res_bind (take_message (cp_client p)) (\<lambda>c. Inr ((with_window c p)\<lparr>cp_frame := True\<rparr>)))"
| "program_step X J self (Frames evs) p =
     (if m_finished (cp_client p) \<and> \<not> cp_frame p then Some (Inr p)
      else map_option (\<lambda>r. res_bind r (\<lambda>c. Inr ((with_window c p)\<lparr>cp_frame := False\<rparr>)))
        (frame_with J X self \<lparr>fi_messages = [], fi_closed = False, fi_events = evs\<rparr> (cp_client p)))"
| "program_step X J self Leaves p =
     Some (Inr (if m_finished (cp_client p) \<and> \<not> cp_frame p \<and> \<not> cp_left p
       then let p = with_window (leave (rs_isLocal (cp_server p)) self (cp_client p)) p
            in p\<lparr>cp_server := rs_stop (cp_server p), cp_left := True\<rparr>
       else p))"
| "program_step X J self Returns p =
     Some (Inr (if cp_left p \<and> \<not> cp_running p then p\<lparr>cp_exited := True\<rparr> else p))"

fun program_run :: "x11 \<Rightarrow> (ptr \<Rightarrow> float_bits list) \<Rightarrow> ptr \<Rightarrow> program_event list \<Rightarrow> 'f program \<Rightarrow>
    (fault + 'f program) option" where
  "program_run X J self [] p = Some (Inr p)"
| "program_run X J self (e # es) p =
     (case program_step X J self e p of
        None \<Rightarrow> None
      | Some (Inl err) \<Rightarrow> Some (Inl err)
      | Some (Inr p') \<Rightarrow> program_run X J self es p')"

section \<open>The stream\<close>

text \<open>What the client sends always has a value; writing it succeeds or fails with the error of the socket.\<close>

definition has_value :: "'f server_msg \<Rightarrow> bool" where
  "has_value m \<longleftrightarrow> (\<forall>c. m \<noteq> ServerInputMsg c None)"

definition same_input :: "socket \<Rightarrow> socket \<Rightarrow> bool" where
  "same_input s s' \<longleftrightarrow> sk_in s' = sk_in s \<and> sk_read_code s' = sk_read_code s"

definition writes :: "unit io \<Rightarrow> bool" where
  "writes f \<longleftrightarrow> (\<forall>s. \<exists>s'. same_input s s' \<and> (f s = (Inr (), s') \<or> (\<exists>e. f s = (Inl (SystemError e), s'))))"

lemma writes_sock_write: "writes (sock_write bs)"
  by (auto simp: writes_def same_input_def sock_write_def split: option.split)

lemma writes_return: "writes (io_return ())"
  by (auto simp: writes_def same_input_def io_return_def)

lemma writes_bind:
  assumes "writes f" and "writes g"
  shows "writes (io_bind f (\<lambda>_. g))"
  unfolding writes_def
proof
  fix s
  obtain s' where s': "same_input s s'" "f s = (Inr (), s') \<or> (\<exists>e. f s = (Inl (SystemError e), s'))"
    using assms(1) unfolding writes_def by blast
  obtain s'' where "same_input s' s''" "g s' = (Inr (), s'') \<or> (\<exists>e. g s' = (Inl (SystemError e), s''))"
    using assms(2) unfolding writes_def by blast
  with s' show "\<exists>t. same_input s t \<and> (io_bind f (\<lambda>_. g) s = (Inr (), t) \<or>
      (\<exists>e. io_bind f (\<lambda>_. g) s = (Inl (SystemError e), t)))"
    by (auto simp: io_bind_def same_input_def)
qed

lemma writes_server_send:
  assumes "has_value m"
  shows "writes (server_send m)"
proof -
  have "writes (server_write m)"
    using assms
    by (cases m) (auto simp: has_value_def writeString_def writePod32_def writePod16_def Let_def
        intro: writes_bind writes_sock_write writes_return split: option.split)
  then show ?thesis
    unfolding server_send_def writePod32_def by (intro writes_bind writes_sock_write)
qed

definition is_send :: "'f rs_handler \<Rightarrow> bool" where
  "is_send h \<longleftrightarrow> (\<exists>m. h = RsWrite m \<and> has_value m)"

text \<open>
  The service until it is stopped: the read of the next code is pending and whole messages are on the way; or a code has been read, its
  handler is posted, and the rest of its message follows; or a failed read waits for its handler.
\<close>

definition awaits :: "'f remote_server \<Rightarrow> client_msg list \<Rightarrow> bool" where
  "awaits s ms \<longleftrightarrow> rs_reading s \<and> list_all is_send (rs_posted s) \<and> list_all client_sendable ms \<and>
     sk_in (rs_sock s) = concat (map client_bytes ms)"

definition one_read :: "int \<Rightarrow> 'f rs_handler list \<Rightarrow> bool" where
  "one_read code hs \<longleftrightarrow> (\<exists>ws ws'. hs = ws @ RsRead code # ws' \<and> list_all is_send ws \<and> list_all is_send ws')"

definition reads :: "'f remote_server \<Rightarrow> client_msg \<Rightarrow> client_msg list \<Rightarrow> bool" where
  "reads s m ms \<longleftrightarrow> \<not> rs_reading s \<and> one_read 0 (rs_posted s) \<and> client_sendable m \<and> list_all client_sendable ms \<and>
     rs_msg_type s = client_type_code (client_type m) \<and> sk_in (rs_sock s) = client_payload m @ concat (map client_bytes ms)"

definition fails :: "'f remote_server \<Rightarrow> bool" where
  "fails s \<longleftrightarrow> \<not> rs_reading s \<and> (\<exists>code. code \<noteq> 0 \<and> one_read code (rs_posted s))"

definition stream_ok :: "'f remote_server \<Rightarrow> bool" where
  "stream_ok s \<longleftrightarrow> sk_read_code (rs_sock s) \<noteq> 0 \<and>
     (rs_stopped s \<or> (\<exists>ms. awaits s ms) \<or> (\<exists>m ms. reads s m ms) \<or> fails s)"

lemma one_read_more: "one_read code hs \<Longrightarrow> list_all is_send ws \<Longrightarrow> one_read code (hs @ ws)"
  unfolding one_read_def by (metis append_Cons append_assoc list_all_append)

lemma one_read_end: "list_all is_send ws \<Longrightarrow> one_read code (ws @ [RsRead code])"
  unfolding one_read_def by (intro exI [of _ ws] exI [of _ "[]"]) simp

lemma one_read_cases:
  assumes "one_read code (h # hs)"
  obtains m where "h = RsWrite m" "has_value m" "one_read code hs"
  | "h = RsRead code" "list_all is_send hs"
proof -
  obtain ws ws' where ws: "h # hs = ws @ RsRead code # ws'" "list_all is_send ws" "list_all is_send ws'"
    using assms by (auto simp: one_read_def)
  show ?thesis
  proof (cases ws)
    case Nil
    with ws that(2) show ?thesis by simp
  next
    case (Cons w ws1)
    with ws have "one_read code hs" by (auto simp: one_read_def)
    moreover obtain m where "h = RsWrite m" "has_value m" using ws Cons by (auto simp: is_send_def)
    ultimately show ?thesis using that(1) by blast
  qed
qed

lemma stream_cases:
  assumes "stream_ok s"
  obtains "rs_stopped s" | ms where "awaits s ms" | m ms where "reads s m ms" | "fails s"
  using assms unfolding stream_ok_def by blast

lemma stream_code: "stream_ok s \<Longrightarrow> sk_read_code (rs_sock s) \<noteq> 0"
  by (simp add: stream_ok_def)

lemma fold_rs_posts: "fold rs_pushMessage ms s = s\<lparr>rs_posted := rs_posted s @ map RsWrite ms\<rparr>"
  by (induction ms arbitrary: s) (simp_all add: rs_pushMessage_def)

lemma stream_posts:
  assumes "stream_ok s" and "\<forall>m \<in> set ms. has_value m"
  shows "stream_ok (fold rs_pushMessage ms s)"
proof -
  have ws: "list_all is_send (map RsWrite ms)" using assms(2) by (auto simp: list_all_iff is_send_def)
  let ?s = "s\<lparr>rs_posted := rs_posted s @ map RsWrite ms\<rparr>"
  note code = stream_code [OF assms(1)]
  from assms(1) have "stream_ok ?s"
  proof (cases rule: stream_cases)
    case (2 ns)
    with ws have "awaits ?s ns" by (simp add: awaits_def)
    with code show ?thesis by (auto simp: stream_ok_def)
  next
    case (3 m ns)
    with one_read_more [OF _ ws] have "reads ?s m ns" by (simp add: reads_def)
    with code show ?thesis by (auto simp: stream_ok_def)
  next
    case 4
    with one_read_more [OF _ ws] have "fails ?s" by (auto simp: fails_def)
    with code show ?thesis by (auto simp: stream_ok_def)
  qed (use code in \<open>simp add: stream_ok_def\<close>)
  then show ?thesis by (simp add: fold_rs_posts)
qed

lemma stream_sends:
  assumes "stream_ok s" and "client_sendable m"
  shows "stream_ok (s\<lparr>rs_sock := (rs_sock s)\<lparr>sk_in := sk_in (rs_sock s) @ client_bytes m\<rparr>\<rparr>)" (is "stream_ok ?s")
proof -
  note code = stream_code [OF assms(1)]
  from assms(1) show ?thesis
  proof (cases rule: stream_cases)
    case (2 ns)
    with assms(2) have "awaits ?s (ns @ [m])" by (simp add: awaits_def)
    with code show ?thesis by (auto simp: stream_ok_def)
  next
    case (3 n ns)
    with assms(2) have "reads ?s n (ns @ [m])" by (simp add: reads_def)
    with code show ?thesis by (auto simp: stream_ok_def)
  qed (use code in \<open>auto simp: stream_ok_def fails_def\<close>)
qed

lemma readPod32_code_kept: "readPod32 sk = (r, sk') \<Longrightarrow> sk_read_code sk' = sk_read_code sk"
  by (auto simp: readPod32_def io_bind_def io_return_def sock_read_def split: if_splits)

lemma stream_complete:
  assumes "stream_ok s"
  shows "stream_ok (rs_complete s)"
proof -
  note code = stream_code [OF assms]
  obtain r sk where read: "readPod32 (rs_sock s) = (r, sk)" by (cases "readPod32 (rs_sock s)")
  with code have code': "sk_read_code sk \<noteq> 0" using readPod32_code_kept by simp
  from assms show ?thesis
  proof (cases rule: stream_cases)
    case 1
    with code code' read show ?thesis by (cases r) (simp_all add: rs_complete_def stream_ok_def)
  next
    case (2 ms)
    show ?thesis
    proof (cases ms)
      case Nil
      with 2 have "readPod32 (rs_sock s) = (Inl (SystemError (sk_read_code (rs_sock s))), rs_sock s)"
        by (simp add: awaits_def readPod32_def io_bind_def sock_read_def)
      with 2 code have "fails (rs_complete s) \<and> rs_sock (rs_complete s) = rs_sock s"
        by (auto simp: rs_complete_def fails_def awaits_def intro: one_read_end)
      with code show ?thesis by (simp add: stream_ok_def)
    next
      case (Cons m ns)
      let ?t = "client_type_code (client_type m)"
      have "readPod32 (rs_sock s) = (Inr ?t, (rs_sock s)\<lparr>sk_in := client_payload m @ concat (map client_bytes ns)\<rparr>)"
        using parses_readPod32 [of ?t] 2 Cons by (auto simp: awaits_def parses_def receives_def client_bytes_def)
      with 2 Cons have "reads (rs_complete s) m ns" "sk_read_code (rs_sock (rs_complete s)) = sk_read_code (rs_sock s)"
        by (simp_all add: rs_complete_def reads_def awaits_def one_read_end)
      with code show ?thesis by (auto simp: stream_ok_def)
    qed
  qed (use assms in \<open>simp_all add: rs_complete_def reads_def fails_def\<close>)
qed


lemma write_handled:
  assumes "has_value m"
  shows "\<exists>sk. same_input (rs_sock s) sk \<and>
    (rs_writeMsg m s = Inr (s\<lparr>rs_sock := sk\<rparr>) \<or> rs_writeMsg m s = Inr (rs_stop (s\<lparr>rs_sock := sk\<rparr>)))"
proof -
  obtain sk where "same_input (rs_sock s) sk"
    "server_send m (rs_sock s) = (Inr (), sk) \<or> (\<exists>e. server_send m (rs_sock s) = (Inl (SystemError e), sk))"
    using writes_server_send [OF assms] unfolding writes_def by blast
  then show ?thesis by (auto simp: rs_writeMsg_def)
qed

lemma read_handled:
  assumes "client_sendable m" and "rs_msg_type s = client_type_code (client_type m)"
    and "sk_in (rs_sock s) = client_payload m @ rest"
  shows "rs_readMsg 0 s = Inr ((rs_give m (s\<lparr>rs_sock := (rs_sock s)\<lparr>sk_in := rest\<rparr>\<rparr>))\<lparr>rs_reading := True\<rparr>)"
proof -
  have "client_read (client_fresh (client_type m)) (rs_sock s) = (Inr m, (rs_sock s)\<lparr>sk_in := rest\<rparr>)"
    using parses_client_read [OF assms(1)] assms(3) by (auto simp: parses_def receives_def)
  then show ?thesis by (simp add: rs_readMsg_def assms(2) client_create_code)
qed

lemma stream_write:
  assumes "stream_ok s" and "rs_posted s = RsWrite m # hs" and "has_value m" and "same_input (rs_sock s) sk"
  shows "stream_ok (s\<lparr>rs_posted := hs, rs_sock := sk\<rparr>)" (is "stream_ok ?s")
proof -
  have code: "sk_read_code sk \<noteq> 0" using stream_code [OF assms(1)] assms(4) by (simp add: same_input_def)
  from assms(1) show ?thesis
  proof (cases rule: stream_cases)
    case (2 ms)
    with assms have "awaits ?s ms" by (simp add: awaits_def same_input_def)
    with code show ?thesis by (auto simp: stream_ok_def)
  next
    case (3 n ns)
    then have "one_read 0 (RsWrite m # hs)" using assms(2) by (simp add: reads_def)
    then have "one_read 0 hs" by (rule one_read_cases) simp_all
    with 3 assms have "reads ?s n ns" by (simp add: reads_def same_input_def)
    with code show ?thesis by (auto simp: stream_ok_def)
  next
    case 4
    then obtain c where c: "c \<noteq> 0" "one_read c (RsWrite m # hs)" "\<not> rs_reading s" using assms(2) by (auto simp: fails_def)
    from c(2) have "one_read c hs" by (rule one_read_cases) simp_all
    with c have "fails ?s" by (auto simp: fails_def)
    with code show ?thesis by (auto simp: stream_ok_def)
  qed (use code in \<open>simp add: stream_ok_def\<close>)
qed

lemma stream_read:
  assumes "stream_ok s" and "\<not> rs_stopped s" and "rs_posted s = RsRead code # hs"
  shows "\<exists>s'. rs_readMsg code (s\<lparr>rs_posted := hs\<rparr>) = Inr s' \<and> stream_ok s'"
proof -
  note rcode = stream_code [OF assms(1)]
  from assms(1) show ?thesis
  proof (cases rule: stream_cases)
    case (2 ms)
    with assms(3) show ?thesis by (simp add: awaits_def is_send_def)
  next
    case (3 m ms)
    then have "one_read 0 (RsRead code # hs)" using assms(3) by (simp add: reads_def)
    then have hs: "code = 0" "list_all is_send hs" by (rule one_read_cases; simp)+
    let ?s = "(rs_give m (s\<lparr>rs_posted := hs, rs_sock := (rs_sock s)\<lparr>sk_in := concat (map client_bytes ms)\<rparr>\<rparr>))\<lparr>rs_reading := True\<rparr>"
    have "rs_readMsg 0 (s\<lparr>rs_posted := hs\<rparr>) = Inr ?s"
      using read_handled [of m "s\<lparr>rs_posted := hs\<rparr>" "concat (map client_bytes ms)"] 3 by (simp add: reads_def)
    moreover have "awaits ?s ms" using 3 hs(2) by (simp add: awaits_def reads_def rs_give_def)
    then have "stream_ok ?s" using rcode by (auto simp: stream_ok_def rs_give_def)
    ultimately show ?thesis using hs(1) by blast
  next
    case 4
    then obtain c where c: "c \<noteq> 0" "one_read c (RsRead code # hs)" using assms(3) by (auto simp: fails_def)
    from c(2) have "code = c" by (rule one_read_cases) simp_all
    with c(1) rcode show ?thesis by (simp add: rs_readMsg_def rs_stop_def stream_ok_def)
  qed (use assms(2) in simp)
qed

lemma stream_handle:
  assumes "stream_ok s"
  shows "\<exists>s'. rs_step RsRun s = Inr s' \<and> stream_ok s'"
proof (cases "rs_stopped s \<or> rs_posted s = []")
  case True
  with assms show ?thesis by auto
next
  case False
  then obtain h hs where hs: "rs_posted s = h # hs" "\<not> rs_stopped s" by (cases "rs_posted s") auto
  show ?thesis
  proof (cases h)
    case (RsRead code)
    with stream_read [OF assms hs(2)] hs show ?thesis by simp
  next
    case (RsWrite m)
    have "has_value m"
      using assms
    proof (cases rule: stream_cases)
      case (2 ms)
      with hs RsWrite show ?thesis by (auto simp: awaits_def is_send_def)
    next
      case (3 n ns)
      then have "one_read 0 (RsWrite m # hs)" using hs RsWrite by (simp add: reads_def)
      then show ?thesis by (rule one_read_cases) simp_all
    next
      case 4
      then obtain c where "one_read c (RsWrite m # hs)" using hs RsWrite by (auto simp: fails_def)
      then show ?thesis by (rule one_read_cases) simp_all
    qed (use hs in simp)
    from write_handled [OF this, of "s\<lparr>rs_posted := hs\<rparr>"] obtain sk where sk: "same_input (rs_sock s) sk"
      "rs_writeMsg m (s\<lparr>rs_posted := hs\<rparr>) = Inr (s\<lparr>rs_posted := hs, rs_sock := sk\<rparr>) \<or>
       rs_writeMsg m (s\<lparr>rs_posted := hs\<rparr>) = Inr (rs_stop (s\<lparr>rs_posted := hs, rs_sock := sk\<rparr>))" by auto
    have "stream_ok (s\<lparr>rs_posted := hs, rs_sock := sk\<rparr>)"
      using stream_write [OF assms _ \<open>has_value m\<close> sk(1)] hs RsWrite by simp
    moreover have "stream_ok t \<Longrightarrow> stream_ok (rs_stop t)" for t :: "'a remote_server"
      by (simp add: stream_ok_def rs_stop_def)
    ultimately show ?thesis using sk(2) hs RsWrite by auto
  qed
qed


section \<open>The program\<close>

definition program_ok :: "'f program \<Rightarrow> bool" where
  "program_ok p \<longleftrightarrow> renderer_ok (lc_renderer (cp_client p)) \<and> stream_ok (cp_server p)"

text \<open>The server sends whole messages of the protocol.\<close>

fun in_protocol :: "program_event \<Rightarrow> bool" where
  "in_protocol (ServerSends m) = client_sendable m"
| "in_protocol _ = True"

lemma with_service_ok: "program_ok p \<Longrightarrow> stream_ok s \<Longrightarrow> program_ok (with_service s p)"
  by (simp add: program_ok_def with_service_def Let_def pushes_queue serverClosed_def)

lemma program_frame_ok:
  assumes "program_ok p"
  shows "\<exists>p'. program_step X J self (Frames evs) p = Some (Inr p') \<and> program_ok p'"
proof (cases "m_finished (cp_client p) \<and> \<not> cp_frame p")
  case False
  have "renderer_ok (lc_renderer (cp_client p))" using assms by (simp add: program_ok_def)
  from frame_outcome [OF this, of J X self evs] obtain c ms where
    c: "frame_with J X self \<lparr>fi_messages = [], fi_closed = False, fi_events = evs\<rparr> (cp_client p) = Some (Inr c)"
      "renderer_ok (lc_renderer c)" "lc_sent c = lc_sent (cp_client p) @ ms" "\<forall>m \<in> set ms. \<exists>km. m = ServerInputMsg self (Some km)"
    by blast
  have "\<forall>m \<in> set ms. has_value m" using c(4) by (auto simp: has_value_def)
  with assms c(2,3) have "program_ok ((with_window c p)\<lparr>cp_frame := False\<rparr>)"
    by (simp add: program_ok_def with_window_def stream_posts)
  with False c(1) show ?thesis by auto
qed (use assms in simp)

lemma program_take_ok:
  assumes "program_ok p"
  shows "\<exists>p'. program_step X J self Takes p = Some (Inr p') \<and> program_ok p'"
proof -
  have "renderer_ok (lc_renderer (cp_client p))" using assms by (simp add: program_ok_def)
  from take_message_ok [OF this] assms show ?thesis by (auto simp: program_ok_def with_window_def)
qed

lemma program_step_ok:
  assumes "program_ok p" and "in_protocol e"
  shows "\<exists>p'. program_step X J self e p = Some (Inr p') \<and> program_ok p'"
proof (cases e)
  case (ServerSends m)
  with assms show ?thesis by (auto simp: program_ok_def stream_sends)
next
  case Completes
  have "stream_ok (rs_complete (cp_server p))" using assms(1) by (simp add: program_ok_def stream_complete)
  with Completes with_service_ok [OF assms(1)] assms(1) show ?thesis by simp
next
  case Handles
  obtain s' where "rs_step RsRun (cp_server p) = Inr s'" "stream_ok s'"
    using stream_handle assms(1) unfolding program_ok_def by blast
  with Handles with_service_ok [OF assms(1)] assms(1) show ?thesis by (auto simp del: rs_step.simps)
next
  case ThreadEnds
  have "stream_ok (rs_after (cp_server p))"
    using assms(1) by (auto simp: program_ok_def stream_ok_def rs_after_def awaits_def reads_def fails_def)
  from with_service_ok [OF assms(1) this] ThreadEnds assms(1) show ?thesis by (simp add: program_ok_def)
next
  case (Frames evs)
  with program_frame_ok [OF assms(1)] show ?thesis by (simp del: program_step.simps)
next
  case Takes
  with program_take_ok [OF assms(1)] show ?thesis by (simp del: program_step.simps)
next
  case Leaves
  with assms(1) show ?thesis
    by (simp add: program_ok_def Let_def rs_isLocal_def leave_def with_window_def rs_stop_def stream_ok_def)
qed (use assms in \<open>auto simp: program_ok_def\<close>)

lemma program_run_ok:
  assumes "program_ok p" and "list_all in_protocol es"
  shows "\<exists>p'. program_run X J self es p = Some (Inr p') \<and> program_ok p'"
  using assms
proof (induction es arbitrary: p)
  case (Cons e es)
  from program_step_ok [OF Cons.prems(1), of e X J self] Cons.prems(2) obtain p' where
    "program_step X J self e p = Some (Inr p')" "program_ok p'" by auto
  with Cons.IH [of p'] Cons.prems(2) show ?case by (simp del: program_step.simps)
qed simp

lemma program_start_ok:
  assumes "sk_in sock = []" and "sk_read_code sock \<noteq> 0"
  shows "\<exists>p :: 'f program. program_start self argv 0 0 sock = Inr p \<and> program_ok p"
proof -
  let ?s = "rs_listen ((qntcli_server argv sock)\<lparr>rs_client := self\<rparr>) :: 'f remote_server"
  have "awaits ?s []" using assms(1) by (simp add: awaits_def rs_listen_def qntcli_server_def rs_init_def)
  with assms(2) have "stream_ok ?s" by (auto simp: stream_ok_def rs_listen_def qntcli_server_def rs_init_def)
  moreover have "\<forall>m \<in> set (lc_sent (client_init self :: 'f client)). has_value m"
    by (simp add: client_init_def has_value_def)
  ultimately have "stream_ok (fold rs_pushMessage (lc_sent (client_init self)) ?s)" by (rule stream_posts)
  moreover have "renderer_ok (lc_renderer (client_init self :: 'f client))"
    using renderer_init_ok(1) by (simp add: client_init_def)
  ultimately show ?thesis
    by (simp add: program_start_def rs_connect_def Let_def program_ok_def client_init_def)
qed



text \<open>
  C15: Closing the window ends the client program. From any moment of a run in which the window is open, whatever
  is waiting or arriving: the frame that sees the window closed is drawn, the client leaves its loop without asking the server to
  shut down, the service is stopped, its thread ends and \<open>main\<close> returns. What was posted and not yet written
  is never sent.
\<close>

theorem closing_the_window_ends_the_client_program:
  fixes p :: "'f program"
  assumes "sk_in sock = []" and "sk_read_code sock \<noteq> 0" and "list_all in_protocol es"
    and "program_start self argv 0 0 sock = Inr p0" and "program_run X J self es p0 = Some (Inr p)"
    and "cp_running p" and "\<not> cp_left p" and "\<not> m_finished (cp_client p)"
    and "ClientMessage (WM_PROTOCOLS X) (WM_DELETE_WINDOW X) \<in> set evs"
  shows "\<exists>p'. program_run X J self [Frames evs, Leaves, ThreadEnds, Returns] p = Some (Inr p') \<and> cp_exited p' \<and>
    \<not> cp_running p' \<and> length (lc_frames (cp_client p')) = Suc (length (lc_frames (cp_client p))) \<and>
    rs_sock (cp_server p') = rs_sock (cp_server p) \<and>
    (\<exists>ms. rs_posted (cp_server p') = rs_posted (cp_server p) @ map RsWrite ms \<and> (\<forall>m \<in> set ms. \<forall>c. m \<noteq> ServerShutdownMsg c))"
proof -
  obtain q :: "'f program" where "program_start self argv 0 0 sock = Inr q" "program_ok q"
    using program_start_ok [OF assms(1,2)] by blast
  with assms(4) have "program_ok p0" by simp
  from program_run_ok [OF this assms(3), of X J self] assms(5) have "program_ok p" by simp
  then have "renderer_ok (lc_renderer (cp_client p))" by (simp add: program_ok_def)
  then obtain c ms where c: "frame_with J X self \<lparr>fi_messages = [], fi_closed = False, fi_events = evs\<rparr> (cp_client p) = Some (Inr c)"
    "m_finished c" "length (lc_frames c) = Suc (length (lc_frames (cp_client p)))"
    "lc_sent c = lc_sent (cp_client p) @ ms" "\<forall>m \<in> set ms. \<exists>km. m = ServerInputMsg self (Some km)"
    using frame_outcome [of "cp_client p" J X self evs] assms(9) by blast
  let ?s = "fold rs_pushMessage ms (cp_server p)"
  let ?p1 = "p\<lparr>cp_client := c, cp_server := ?s, cp_frame := False\<rparr>"
  let ?p2 = "?p1\<lparr>cp_server := rs_stop ?s, cp_left := True\<rparr>"
  let ?p3 = "(with_service (rs_after (rs_stop ?s)) ?p2)\<lparr>cp_running := False\<rparr>"
  have steps: "program_step X J self (Frames evs) p = Some (Inr ?p1)" "program_step X J self Leaves ?p1 = Some (Inr ?p2)"
    "program_step X J self ThreadEnds ?p2 = Some (Inr ?p3)" "program_step X J self Returns ?p3 = Some (Inr (?p3\<lparr>cp_exited := True\<rparr>))"
    using c(1,2,4) assms(6-8)
    by (simp_all add: with_window_def rs_isLocal_def leave_def Let_def rs_done_def rs_stop_def with_service_def)
  then have "program_run X J self [Frames evs, Leaves, ThreadEnds, Returns] p = Some (Inr (?p3\<lparr>cp_exited := True\<rparr>))"
    by (simp only: program_run.simps option.case sum.case)
  then show ?thesis
    using c(3,5)
    by (intro exI [of _ "?p3\<lparr>cp_exited := True\<rparr>"])
      (auto simp: with_service_def Let_def fold_rs_posts rs_stop_def rs_after_def serverClosed_def intro!: exI [of _ ms])
qed

theorem closing_the_window_ends_the_client_program_witness:
  "\<exists>sock (p :: int program) p'. program_start 8 [''qntcli''] 0 0 sock = Inr p \<and>
    program_run sample_x11 (\<lambda>_. [0]) 8 [Frames [KeyPress 65361, ClientMessage 5 6], Leaves, ThreadEnds, Returns] p =
      Some (Inr p') \<and> cp_exited p'"
proof -
  let ?sock = "\<lparr>sk_in = [], sk_read_code = 2, sk_room = None, sk_write_code = 32, sk_out = []\<rparr>"
  have sock: "sk_in ?sock = []" "sk_read_code ?sock \<noteq> 0" "list_all in_protocol []" by simp_all
  obtain p :: "int program" where p: "program_start 8 [''qntcli''] 0 0 ?sock = Inr p"
    "cp_running p" "\<not> cp_left p" "\<not> m_finished (cp_client p)"
    by (simp add: program_start_def rs_connect_def Let_def client_init_def)
  have run: "program_run sample_x11 (\<lambda>_. [0]) 8 [] p = Some (Inr p)" by simp
  have "ClientMessage (WM_PROTOCOLS sample_x11) (WM_DELETE_WINDOW sample_x11) \<in> set [KeyPress 65361, ClientMessage 5 6]"
    by simp
  from closing_the_window_ends_the_client_program [OF sock p(1) run p(2-4) this] p(1) show ?thesis
    by (intro exI [of _ ?sock]) blast
qed

text \<open>
  The end of the stream ends the client program too: in a quiet moment of the service, the failed read stops it, its thread tells the client that
  the server has closed, no frame is drawn any more, the client leaves its loop and \<open>main\<close> returns.
\<close>

lemma server_end_ends_the_client_program:
  assumes "awaits (cp_server p) []" and "rs_posted (cp_server p) = []" and "\<not> rs_stopped (cp_server p)"
    and "sk_read_code (rs_sock (cp_server p)) \<noteq> 0" and "rs_client (cp_server p) \<noteq> 0"
    and "cp_running p" and "\<not> cp_frame p" and "\<not> cp_left p"
  shows "\<exists>p'. program_run X J self [ServerEnds, Completes, Handles, ThreadEnds, Frames evs, Leaves, Returns] p = Some (Inr p') \<and>
    cp_exited p' \<and> lc_frames (cp_client p') = lc_frames (cp_client p) \<and> lc_queue (cp_client p') = lc_queue (cp_client p)"
proof -
  let ?s = "cp_server p"
  have "readPod32 (rs_sock ?s) = (Inl (SystemError (sk_read_code (rs_sock ?s))), rs_sock ?s)"
    using assms(1) by (simp add: awaits_def readPod32_def io_bind_def sock_read_def)
  then show ?thesis
    using assms
    by (simp add: awaits_def rs_complete_def with_service_def Let_def rs_readMsg_def rs_stop_def rs_done_def rs_after_def
        serverClosed_def with_window_def leave_def rs_isLocal_def)
qed

end
