(* ===== verification/Interfaces.thy ===== *)
theory Interfaces
  imports NetworkGame ClientProgram
begin

text \<open>
  The abstract classes of \<open>core/*iface.hpp\<close> that two parts of the program meet at: each is the record of its
  virtual functions, with one instance per class that implements it; what its comments and its callers
  rely on is a locale, interpreted for every instance; what a caller does through it is proved once.
\<close>

section \<open>Clients: ClientIface\<close>

record 'c client_iface =
  ci_pushMessage :: "client_msg \<Rightarrow> 'c \<Rightarrow> 'c"
  ci_serverClosed :: "'c \<Rightarrow> 'c"

definition local_client_iface :: "'f client client_iface" where
  "local_client_iface = \<lparr>ci_pushMessage = client_pushMessage, ci_serverClosed = serverClosed\<rparr>"

definition remote_client_iface :: "'f remote_client client_iface" where
  "remote_client_iface = \<lparr>ci_pushMessage = rc_pushMessage, ci_serverClosed = close_socket\<rparr>"

text \<open>What the server has called on the client at \<open>p\<close> while its state went from the first to the second.\<close>

definition called :: "'c client_iface \<Rightarrow> ptr \<Rightarrow> ('f, 'w) server \<Rightarrow> ('f, 'w) server \<Rightarrow> 'c \<Rightarrow> 'c" where
  "called I p s s' c =
     (let c = fold (ci_pushMessage I) (drop (length (messages_to p s)) (messages_to p s')) c
      in if p \<in> set (drop (length (srv_closed s)) (srv_closed s')) then ci_serverClosed I c else c)"

lemma called_local: "forward_messages p s s' = called local_client_iface p s s'"
  by (simp add: fun_eq_iff forward_messages_def called_def Let_def local_client_iface_def)

lemma called_remote: "forward_posts p s s' = called remote_client_iface p s s'"
  by (simp add: fun_eq_iff forward_posts_def called_def Let_def remote_client_iface_def)

text \<open>
  \<open>pending\<close>: the messages the client has been given and has not taken, oldest first; \<open>ending\<close>: it has
  been told that the server has closed.
\<close>

locale client_interface =
  fixes I :: "'c client_iface"
    and pending :: "'c \<Rightarrow> client_msg list"
    and ending :: "'c \<Rightarrow> bool"
  assumes push_pending: "pending (ci_pushMessage I m c) = pending c @ [m]"
    and push_ending: "ending (ci_pushMessage I m c) = ending c"
    and close_pending: "pending (ci_serverClosed I c) = pending c"
    and close_ending: "ending (ci_serverClosed I c)"
begin

lemma pushes: "pending (fold (ci_pushMessage I) ms c) = pending c @ ms" "ending (fold (ci_pushMessage I) ms c) = ending c"
  by (induction ms arbitrary: c) (simp_all add: push_pending push_ending)

text \<open>Whatever the server does, its clients have what it has sent them, in order, and know of its end.\<close>

lemma called_pending:
  "pending (called I p s s' c) = pending c @ drop (length (messages_to p s)) (messages_to p s')"
  by (simp add: called_def Let_def close_pending pushes)

lemma called_ending:
  "ending (called I p s s' c) \<longleftrightarrow> ending c \<or> p \<in> set (drop (length (srv_closed s)) (srv_closed s'))"
  by (simp add: called_def Let_def close_ending pushes)

lemma called_tick:
  assumes "srv_sent s' = srv_sent s @ trans_messages ct cs" and "srv_closed s' = srv_closed s" and "distinct cs" and "p \<in> set cs"
  shows "pending (called I p s s' c) = pending c @ map (\<lambda>(i, mat). ClientTransDrawableMsg i (Some mat)) ct"
    and "ending (called I p s s' c) = ending c"
proof -
  have one: "filter (\<lambda>d. d = p) cs = [p]"
    using assms(3,4) by (induction cs) (auto simp: filter_empty_conv)
  have "map snd (filter (\<lambda>d. fst d = p) (trans_messages ct cs)) = map (\<lambda>(i, mat). ClientTransDrawableMsg i (Some mat)) ct"
    by (induction ct) (auto simp: trans_messages_def filter_map o_def one)
  then show "pending (called I p s s' c) = pending c @ map (\<lambda>(i, mat). ClientTransDrawableMsg i (Some mat)) ct"
    by (simp add: called_pending messages_to_def assms(1))
  show "ending (called I p s s' c) = ending c" by (simp add: called_ending assms(2))
qed

end

text \<open>A window has its messages in the queue, newest first; a connection has them in the handlers that write.\<close>

fun handler_message :: "handler \<Rightarrow> client_msg option" where
  "handler_message (WriteMsg m) = Some m"
| "handler_message _ = None"

definition posted_messages :: "'f remote_client \<Rightarrow> client_msg list" where
  "posted_messages c = List.map_filter handler_message (rc_posted c)"

interpretation local_client: client_interface local_client_iface "\<lambda>c. rev (lc_queue c)" m_finished
  by unfold_locales (simp_all add: local_client_iface_def client_pushMessage_def queue_push_def lockless_push_def serverClosed_def)

interpretation remote_client: client_interface remote_client_iface posted_messages
    "\<lambda>c. sk_read_code (rc_sock c) = bad_descriptor"
  by unfold_locales
    (simp_all add: remote_client_iface_def rc_pushMessage_def close_socket_def posted_messages_def map_filter_def)


section \<open>Servers: ServerIface\<close>

text \<open>\<open>waitForTermination\<close> gives \<open>None\<close> while it blocks; how it wakes up is in theory \<open>ThreadLifecycle\<close>.\<close>

record ('f, 's) server_iface =
  si_addClient :: "ptr \<Rightarrow> 's \<Rightarrow> fault + 's"
  si_removeClient :: "ptr \<Rightarrow> 's \<Rightarrow> fault + 's"
  si_makeClientPrivileged :: "ptr \<Rightarrow> 's \<Rightarrow> 's"
  si_isLocal :: "'s \<Rightarrow> bool"
  si_pushMessage :: "'f server_msg \<Rightarrow> 's \<Rightarrow> 's"
  si_waitForTermination :: "'s \<Rightarrow> 's option"

definition local_server_iface :: "('f, ('f, 'w) qntsrv) server_iface" where
  "local_server_iface =
     \<lparr>si_addClient = (\<lambda>c q. res_bind (addClient c (qs_server q)) (\<lambda>s. Inr (q\<lparr>qs_server := s\<rparr>))),
      si_removeClient = (\<lambda>c q. res_bind (removeClient c (qs_server q)) (\<lambda>s. Inr (q\<lparr>qs_server := s\<rparr>))),
      si_makeClientPrivileged = (\<lambda>c q. q\<lparr>qs_server := makeClientPrivileged c (qs_server q)\<rparr>),
      si_isLocal = (\<lambda>q. server_isLocal (qs_server q)), si_pushMessage = server_pushMessage,
      si_waitForTermination = (\<lambda>q. if qs_running q then None else Some q)\<rparr>"

text \<open>
  A remote server in a network where resolving and connecting end with the given codes; its \<open>waitForTermination\<close>
  stops the service and waits for the thread, which tells the client.
\<close>

definition remote_server_iface :: "int \<Rightarrow> int \<Rightarrow> ('f, 'f remote_server) server_iface" where
  "remote_server_iface resolve_code connect_code =
     \<lparr>si_addClient = (\<lambda>c s. res_bind (rs_connect c resolve_code connect_code s) (\<lambda>s. Inr (rs_listen s))),
      si_removeClient = (\<lambda>c s. Inr (rs_removeClient c s)), si_makeClientPrivileged = rs_makeClientPrivileged,
      si_isLocal = rs_isLocal, si_pushMessage = rs_pushMessage,
      si_waitForTermination = (\<lambda>s. Some (rs_after (rs_stop s)))\<rparr>"

text \<open>What the constructor of \<open>LocalClient\<close> and the end of its main loop do with the server they are given.\<close>

definition join_server :: "('f, 's) server_iface \<Rightarrow> ptr \<Rightarrow> 's \<Rightarrow> fault + 's" where
  "join_server I self s =
     res_bind (si_addClient I self s) (\<lambda>s. Inr (si_pushMessage I (ServerLoadPlayerMsg self ''Player'') s))"

definition leave_server :: "('f, 's) server_iface \<Rightarrow> ptr \<Rightarrow> 's \<Rightarrow> 's" where
  "leave_server I self s = (if si_isLocal I s then si_pushMessage I (ServerShutdownMsg self) s else s)"

text \<open>
  \<open>ready c\<close>: the server can add the client \<open>c\<close>; \<open>knows c\<close>: it has it; \<open>inbox\<close>: the messages pushed and not taken,
  in no particular order, as the queues behind the interface differ.
\<close>

locale server_interface =
  fixes I :: "('f, 's) server_iface"
    and ready :: "ptr \<Rightarrow> 's \<Rightarrow> bool"
    and knows :: "ptr \<Rightarrow> 's \<Rightarrow> bool"
    and inbox :: "'s \<Rightarrow> 'f server_msg multiset"
    and ended :: "'s \<Rightarrow> bool"
  assumes add: "ready c s \<Longrightarrow> \<exists>s'. si_addClient I c s = Inr s' \<and> knows c s' \<and> inbox s' = inbox s \<and> si_isLocal I s' = si_isLocal I s"
    and remove: "ready c s \<Longrightarrow> si_addClient I c s = Inr s' \<Longrightarrow>
      \<exists>s''. si_removeClient I c s' = Inr s'' \<and> \<not> knows c s'' \<and> inbox s'' = inbox s"
    and privileged: "si_makeClientPrivileged I c s = s"
    and push: "inbox (si_pushMessage I m s) = add_mset m (inbox s)" "knows c (si_pushMessage I m s) = knows c s"
      "si_isLocal I (si_pushMessage I m s) = si_isLocal I s"
    and wait: "si_waitForTermination I s = Some s' \<Longrightarrow> ended s' \<and> inbox s' = inbox s"
begin

text \<open>A client joins: it is known, and its wish for a player waits.\<close>

lemma joins:
  assumes "ready self s"
  shows "\<exists>s'. join_server I self s = Inr s' \<and> knows self s' \<and>
    inbox s' = add_mset (ServerLoadPlayerMsg self ''Player'') (inbox s) \<and> si_isLocal I s' = si_isLocal I s"
proof -
  obtain s1 where "si_addClient I self s = Inr s1" "knows self s1" "inbox s1 = inbox s" "si_isLocal I s1 = si_isLocal I s"
    using add [OF assms] by blast
  then show ?thesis by (simp add: join_server_def push)
qed

text \<open>When it leaves, a server of its own process is asked to shut down, another one is not.\<close>

lemma leaves: "inbox (leave_server I self s) = (if si_isLocal I s then add_mset (ServerShutdownMsg self) (inbox s) else inbox s)"
  by (simp add: leave_server_def push)

lemma joins_and_leaves:
  assumes "ready self s"
  shows "\<exists>s'. join_server I self s = Inr s' \<and> inbox (leave_server I self s') =
    (if si_isLocal I s then {#ServerShutdownMsg self, ServerLoadPlayerMsg self ''Player''#}
     else {#ServerLoadPlayerMsg self ''Player''#}) + inbox s"
proof -
  obtain s' where "join_server I self s = Inr s'" "inbox s' = add_mset (ServerLoadPlayerMsg self ''Player'') (inbox s)"
    "si_isLocal I s' = si_isLocal I s"
    using joins [OF assms] by blast
  then show ?thesis by (simp add: leaves)
qed

end

definition ready_locally :: "ptr \<Rightarrow> ('f, 'w) qntsrv \<Rightarrow> bool" where
  "ready_locally c q \<longleftrightarrow> live_client c (qs_server q) \<and> clients_live (qs_server q) \<and> map_find c (m_clients (qs_server q)) = None"

fun posted_message :: "'f rs_handler \<Rightarrow> 'f server_msg option" where
  "posted_message (RsWrite m) = Some m"
| "posted_message (RsRead _) = None"

lemma remove_added:
  assumes "ready_locally c q" and "addClient c (qs_server q) = Inr s"
  shows "\<exists>s'. removeClient c s = Inr s' \<and> c \<notin> set (everybody s')"
proof -
  have s: "s = (qs_server q)\<lparr>srv_sent := srv_sent (qs_server q) @ map (Pair c) (announcements (qs_server q)),
      m_lobby_clients := set_insert c (m_lobby_clients (qs_server q))\<rparr>"
    using assms addClient_live [of c "qs_server q"] by (simp add: ready_locally_def)
  then have "clients_live s"
    using assms(1) by (auto simp: ready_locally_def clients_live_def live_client_def everybody_def)
  moreover have "map_find c (m_clients s) = None" using assms(1) s by (simp add: ready_locally_def)
  ultimately show ?thesis
    using removeClient_live [of s c] by (auto simp: Let_def everybody_def set_map_erase)
qed

interpretation local_server: server_interface local_server_iface ready_locally
    "\<lambda>c q. c \<in> set (everybody (qs_server q))" "\<lambda>q. mset (qs_queue q)" "\<lambda>q. \<not> qs_running q"
proof unfold_locales
  fix c and q :: "('a, 'b) qntsrv"
  assume "ready_locally c q"
  then show "\<exists>s'. si_addClient local_server_iface c q = Inr s' \<and> c \<in> set (everybody (qs_server s')) \<and>
      mset (qs_queue s') = mset (qs_queue q) \<and> si_isLocal local_server_iface s' = si_isLocal local_server_iface q"
    by (simp add: local_server_iface_def ready_locally_def addClient_live everybody_def server_isLocal_def)
next
  fix c and q q' :: "('a, 'b) qntsrv"
  assume "ready_locally c q" and "si_addClient local_server_iface c q = Inr q'"
  then show "\<exists>s''. si_removeClient local_server_iface c q' = Inr s'' \<and> c \<notin> set (everybody (qs_server s'')) \<and>
      mset (qs_queue s'') = mset (qs_queue q)"
    using remove_added [of c q] by (fastforce simp: local_server_iface_def res_bind_eq_Inr)
qed (simp_all add: local_server_iface_def makeClientPrivileged_def server_pushMessage_def queue_push_def lockless_push_def
    server_isLocal_def split: if_splits)

text \<open>A network in which the server is found and accepts the connection.\<close>

interpretation remote_server: server_interface "remote_server_iface 0 0" "\<lambda>c s. c \<noteq> 0" "\<lambda>c s. c \<noteq> 0 \<and> rs_client s = c"
    "\<lambda>s. mset (List.map_filter posted_message (rs_posted s))" rs_stopped
  by unfold_locales
    (auto simp: rs_after_def rs_stop_def remote_server_iface_def rs_connect_def rs_listen_def rs_removeClient_def rs_makeClientPrivileged_def
      rs_pushMessage_def rs_isLocal_def map_filter_def)

text \<open>The two programs start and leave through the interface.\<close>

lemma program_starts_by_joining:
  "program_start self argv resolve_code connect_code sock =
     res_bind (join_server (remote_server_iface resolve_code connect_code) self (qntcli_server argv sock)) (\<lambda>s.
       Inr \<lparr>cp_client = client_init self, cp_server = s, cp_ended = False, cp_running = True, cp_frame = False, cp_left = False, cp_exited = False\<rparr>)"
  by (simp add: program_start_def join_server_def remote_server_iface_def rs_connect_def client_init_def Let_def)

section \<open>Physics: PhysicsIface\<close>

text \<open>\<open>finish\<close> is given by what the thread has done when the wait for it is over.\<close>

record ('f, 'p) physics_iface =
  pi_pushMessage :: "'f server_msg \<Rightarrow> 'p \<Rightarrow> 'p"
  pi_addPhysical :: "oid \<Rightarrow> string \<Rightarrow> 'f list \<Rightarrow> bool \<Rightarrow> 'p \<Rightarrow> 'p"
  pi_delPhysical :: "oid \<Rightarrow> bool \<Rightarrow> 'p \<Rightarrow> 'p"
  pi_setInputState :: "oid \<Rightarrow> u16 \<Rightarrow> 'p \<Rightarrow> 'p"
  pi_setInputStateCallback :: "oid \<Rightarrow> u16 \<Rightarrow> 'p \<Rightarrow> 'p"
  pi_finish :: "'p \<Rightarrow> 'p"

definition bt_physics_iface :: "('f, 'v, 'w) bullet \<Rightarrow> ('f, ('f, 'w) physics) physics_iface" where
  "bt_physics_iface B =
     \<lparr>pi_pushMessage = ph_pushMessage, pi_addPhysical = addPhysical, pi_delPhysical = delPhysical,
      pi_setInputState = setInputState, pi_setInputStateCallback = setInputStateCallback,
      pi_finish = physics_shutdown B\<rparr>"

datatype 'f physics_request =
  PushMessage "'f server_msg" | AddPhysical oid string "'f list" bool | DelPhysical oid bool | SetInputState oid u16
  | SetInputStateCallback oid u16

fun request :: "('f, 'p) physics_iface \<Rightarrow> 'f physics_request \<Rightarrow> 'p \<Rightarrow> 'p" where
  "request I (PushMessage m) p = pi_pushMessage I m p"
| "request I (AddPhysical i t mat c) p = pi_addPhysical I i t mat c p"
| "request I (DelPhysical i c) p = pi_delPhysical I i c p"
| "request I (SetInputState i st) p = pi_setInputState I i st p"
| "request I (SetInputStateCallback i st) p = pi_setInputStateCallback I i st p"

fun posts :: "'f physics_request \<Rightarrow> bool" where
  "posts (SetInputStateCallback i st) = False"
| "posts _ = True"

text \<open>
  \<open>waiting\<close>: the number of messages in the event queue; \<open>bodies\<close>: the identifiers of the objects and of the characters in the
  world. Every request but the callback may be asynchronous; none changes which bodies there are.
  What waits when the physics finishes is never handled.
\<close>

locale physics_interface =
  fixes I :: "('f, 'p) physics_iface"
    and waiting :: "'p \<Rightarrow> nat"
    and bodies :: "'p \<Rightarrow> id_sets"
  assumes posts_wait: "waiting (request I r p) = waiting p + (if posts r then 1 else 0)"
    and bodies_kept: "bodies (request I r p) = bodies p"
    and finish: "waiting (pi_finish I p) = waiting p"
begin

lemma requests: "waiting (fold (request I) rs p) = waiting p + length (filter posts rs)" "bodies (fold (request I) rs p) = bodies p"
  by (induction rs arbitrary: p) (simp_all add: posts_wait bodies_kept)

end

interpretation bt_physics: physics_interface "bt_physics_iface B" "\<lambda>p. length (ph_queue p)" phys_ids for B
proof unfold_locales
  fix r and p :: "('a, 'c) physics"
  show "length (ph_queue (request (bt_physics_iface B) r p)) = length (ph_queue p) + (if posts r then 1 else 0)"
    by (cases r) (simp_all add: bt_physics_iface_def physics_post_defs queue_push_def lockless_push_def)
  show "phys_ids (request (bt_physics_iface B) r p) = phys_ids p"
    by (cases r) (simp_all add: bt_physics_iface_def physics_post_defs phys_ids_def)
qed (simp add: bt_physics_iface_def physics_shutdown_def)

text \<open>The server uses the physics through the interface only, so that no operation of the server changes which bodies there are.\<close>

lemma server_uses_interface:
  fixes s :: "('f, 'w) server"
  assumes "server_step op s = Inr s'"
  shows "\<exists>rs. m_physics s' = fold (request (bt_physics_iface B)) rs (m_physics s)"
proof (cases op)
  case (OpAdd c)
  with assms step_add [of c s s'] show ?thesis by (auto intro: exI [of _ "[]"])
next
  case (OpRemove c)
  have "m_physics s' = m_physics s \<or> (\<exists>i. m_physics s' = delPhysical i True (m_physics s))"
    using assms OpRemove
    by (auto simp: removeClient_def Let_def case_prod_unfold split: if_splits dest!: push_all_Inr)
  then show ?thesis
  proof
    assume "m_physics s' = m_physics s"
    then show ?thesis by (intro exI [of _ "[]"]) simp
  next
    assume "\<exists>i. m_physics s' = delPhysical i True (m_physics s)"
    then obtain i where "m_physics s' = delPhysical i True (m_physics s)" ..
    then show ?thesis by (intro exI [of _ "[DelPhysical i True]"]) (simp add: bt_physics_iface_def)
  qed
next
  case (OpLoad c t)
  with assms obtain x where "s' = (with_player c t s)\<lparr>srv_sent := x\<rparr>" using step_load by blast
  then show ?thesis
    by (intro exI [of _ "[AddPhysical (m_next_id s) t (value_ptr (m_player_spawn s)) True]"])
      (simp add: with_player_def bt_physics_iface_def)
next
  case (OpTransforms ct)
  with assms step_transforms [of ct s s'] show ?thesis by (auto intro: exI [of _ "[]"])
next
  case OpTick
  define st where "st = (let t = m_ticks s + 1 in if (if t = 40 then 0 else t) < 20 then StrafeLeft else StrafeRight)"
  have "fold (\<lambda>(_, i). setInputStateCallback i st) bs p =
      fold (request (bt_physics_iface B)) (map (\<lambda>(_, i). SetInputStateCallback i st) bs) p" for bs :: "(string \<times> oid) list" and p :: "('f, 'w) physics"
    by (induction bs arbitrary: p) (auto simp: bt_physics_iface_def)
  moreover have "m_physics s' = fold (\<lambda>(_, i). setInputStateCallback i st) (m_baddies s) (m_physics s)"
    using assms OpTick by (auto simp: runTickCallbacks_def st_def Let_def)
  ultimately show ?thesis by (intro exI) (rule trans)
next
  case (OpGetId c)
  with assms show ?thesis by (auto simp: getClientId_state intro: exI [of _ "[]"])
qed (use assms in \<open>auto intro: exI [of _ "[]"]\<close>)

lemma server_keeps_bodies: "server_step op s = Inr s' \<Longrightarrow> phys_ids (m_physics s') = phys_ids (m_physics s)"
  using server_uses_interface bt_physics.requests(2) by metis

section \<open>Renderers: RenderIface\<close>

record 'r render_iface =
  ri_pushMessage :: "client_msg \<Rightarrow> 'r \<Rightarrow> fault + 'r"
  ri_draw :: "'r \<Rightarrow> fault + gl_call list"

definition gl_render_iface :: "renderer render_iface" where
  "gl_render_iface = \<lparr>ri_pushMessage = gl_pushMessage, ri_draw = draw\<rparr>"

text \<open>The inner loop of the main loop passes on what is for the renderer.\<close>

definition pass_on :: "'r render_iface \<Rightarrow> client_msg \<Rightarrow> 'r \<Rightarrow> fault + 'r" where
  "pass_on I msg r =
     (case client_type msg of
        AddDrawable \<Rightarrow> ri_pushMessage I msg r
      | TransDrawable \<Rightarrow> ri_pushMessage I msg r
      | DelDrawable \<Rightarrow> ri_pushMessage I msg r
      | _ \<Rightarrow> Inr r)"

lemma dispatch_passes_on: "dispatch m r = pass_on gl_render_iface m r"
  by (cases m) (simp_all add: dispatch_def pass_on_def gl_render_iface_def)

text \<open>A renderer holds a scene, which its messages change as specified, and can draw a scene whose parts all have a matrix.\<close>

locale render_interface =
  fixes I :: "'r render_iface"
    and sound :: "'r \<Rightarrow> bool"
    and shown :: "'r \<Rightarrow> scene"
  assumes push: "sound r \<Longrightarrow> \<exists>r'. ri_pushMessage I m r = Inr r' \<and> sound r' \<and> shown r' = scene_step m (shown r)"
    and draws: "sound r \<Longrightarrow> (\<And>i d. shown r i = Some d \<Longrightarrow> d_matrix d \<noteq> None) \<Longrightarrow> \<exists>calls. ri_draw I r = Inr calls"
begin

lemma passes_on:
  assumes "sound r"
  shows "\<exists>r'. pass_on I m r = Inr r' \<and> sound r' \<and> shown r' = scene_step m (shown r)"
  using push [OF assms, of m] assms by (cases m) (simp_all add: pass_on_def)

text \<open>A batch of messages and the draw after it.\<close>

lemma batch:
  assumes "sound r"
  shows "\<exists>r'. fold_res (pass_on I) ms r = Inr r' \<and> sound r' \<and> shown r' = fold scene_step ms (shown r)"
  using assms
proof (induction ms arbitrary: r)
  case (Cons m ms)
  obtain r1 where "pass_on I m r = Inr r1" "sound r1" "shown r1 = scene_step m (shown r)"
    using passes_on [OF Cons.prems] by blast
  with Cons.IH [of r1] show ?case by simp
qed simp

lemma batch_draws:
  assumes "sound r" and "\<And>i d. fold scene_step ms (shown r) i = Some d \<Longrightarrow> d_matrix d \<noteq> None"
  shows "\<exists>calls. res_bind (fold_res (pass_on I) ms r) (ri_draw I) = Inr calls"
proof -
  obtain r' where r': "fold_res (pass_on I) ms r = Inr r'" "sound r'" "shown r' = fold scene_step ms (shown r)"
    using batch [OF assms(1)] by blast
  then have "\<exists>calls. ri_draw I r' = Inr calls" using assms(2) by (intro draws) auto
  with r'(1) show ?thesis by simp
qed

end

interpretation gl_render: render_interface gl_render_iface renderer_ok scene
proof unfold_locales
  fix r m
  assume ok: "renderer_ok r"
  show "\<exists>r'. ri_pushMessage gl_render_iface m r = Inr r' \<and> renderer_ok r' \<and> scene r' = scene_step m (scene r)"
    using gl_step_refines [OF ok] by (simp add: gl_render_iface_def)
next
  fix r
  assume "renderer_ok r" and "\<And>i d. scene r i = Some d \<Longrightarrow> d_matrix d \<noteq> None"
  then show "\<exists>calls. ri_draw gl_render_iface r = Inr calls"
    using draw_complete [of r] by (auto simp: gl_render_iface_def)
qed

end
