(* ===== verification/Locking.thy ===== *)
theory Locking
  imports Prelude
begin

text \<open>
  The locks of the server: \<open>m_clients_mutex\<close>, a read/write lock, and the mutex each locked queue has. The methods of
  \<open>LocalServer\<close> are given by what they lock and which members they access, in the order of the code, and run in any
  number of threads, one such action at a time. What the methods compute is in theory \<open>LocalServer\<close>, the waits on
  the status mutexes in theory \<open>ThreadLifecycle\<close>.
\<close>

section \<open>Threads and locks\<close>

datatype mode = Shared | Exclusive

text \<open>\<open>Atomic\<close> is an access that other threads may make at the same time.\<close>

datatype ('l, 'x) action = Acquire 'l mode | Release 'l | ReadOf 'x | WriteOf 'x | Atomic 'x

text \<open>A thread: what it has still to do, and the locks it holds.\<close>

record ('l, 'x) thread =
  th_todo :: "('l, 'x) action list"
  th_held :: "('l \<times> mode) list"

fun held_after :: "('l, 'x) action \<Rightarrow> ('l \<times> mode) list \<Rightarrow> ('l \<times> mode) list" where
  "held_after (Acquire l m) hs = (l, m) # hs"
| "held_after (Release l) hs = filter (\<lambda>(l', _). l' \<noteq> l) hs"
| "held_after _ hs = hs"

text \<open>Whether thread \<open>i\<close> could take a lock: no thread has it, or only others have it and all is shared.\<close>

definition grantable :: "('l, 'x) thread list \<Rightarrow> nat \<Rightarrow> 'l \<Rightarrow> mode \<Rightarrow> bool" where
  "grantable ts i l m \<longleftrightarrow>
     (\<forall>j < length ts. \<forall>(l', m') \<in> set (th_held (ts ! j)). l' = l \<longrightarrow> j \<noteq> i \<and> m = Shared \<and> m' = Shared)"

definition runnable :: "('l, 'x) thread list \<Rightarrow> nat \<Rightarrow> bool" where
  "runnable ts i \<longleftrightarrow> i < length ts \<and>
     (case th_todo (ts ! i) of [] \<Rightarrow> False | Acquire l m # _ \<Rightarrow> grantable ts i l m | _ \<Rightarrow> True)"

text \<open>The scheduler picks a thread, which does its next action if it can; a run is what the picks lead to.\<close>

definition act :: "('l, 'x) thread \<Rightarrow> ('l, 'x) thread" where
  "act t = \<lparr>th_todo = tl (th_todo t), th_held = held_after (hd (th_todo t)) (th_held t)\<rparr>"

definition pick :: "nat \<Rightarrow> ('l, 'x) thread list \<Rightarrow> ('l, 'x) thread list" where
  "pick i ts = (if runnable ts i then ts[i := act (ts ! i)] else ts)"

definition picks :: "nat list \<Rightarrow> ('l, 'x) thread list \<Rightarrow> ('l, 'x) thread list" where
  "picks = fold pick"

definition started :: "('l, 'x) action list list \<Rightarrow> ('l, 'x) thread list" where
  "started = map (\<lambda>p. \<lparr>th_todo = p, th_held = []\<rparr>)"

text \<open>A data race on \<open>x\<close>: two threads are both about to access it, one of them to write.\<close>

definition next_action :: "('l, 'x) thread list \<Rightarrow> nat \<Rightarrow> ('l, 'x) action option" where
  "next_action ts i = (if i < length ts \<and> th_todo (ts ! i) \<noteq> [] then Some (hd (th_todo (ts ! i))) else None)"

definition racing :: "'x \<Rightarrow> ('l, 'x) thread list \<Rightarrow> bool" where
  "racing x ts \<longleftrightarrow> (\<exists>i < length ts. \<exists>j < length ts. i \<noteq> j \<and> next_action ts i = Some (WriteOf x) \<and>
     (next_action ts j = Some (WriteOf x) \<or> next_action ts j = Some (ReadOf x)))"

section \<open>Locking discipline\<close>

text \<open>
  Every access to a place that has a guard happens with the guard held, and locks are taken in the order of a rank.
\<close>

fun allowed :: "('x \<Rightarrow> 'l option) \<Rightarrow> ('l \<Rightarrow> nat) \<Rightarrow> ('l \<times> mode) list \<Rightarrow> ('l, 'x) action \<Rightarrow> bool" where
  "allowed g r hs (Acquire l m) = list_all (\<lambda>(l', _). r l' < r l) hs"
| "allowed g r hs (ReadOf x) = (case g x of None \<Rightarrow> True | Some l \<Rightarrow> l \<in> fst ` set hs)"
| "allowed g r hs (WriteOf x) = (case g x of None \<Rightarrow> True | Some l \<Rightarrow> l \<in> fst ` set hs)"
| "allowed g r hs _ = True"

fun orderly :: "('x \<Rightarrow> 'l option) \<Rightarrow> ('l \<Rightarrow> nat) \<Rightarrow> ('l \<times> mode) list \<Rightarrow> ('l, 'x) action list \<Rightarrow> bool" where
  "orderly g r hs [] = True"
| "orderly g r hs (a # p) = (allowed g r hs a \<and> orderly g r (held_after a hs) p)"

text \<open>A tidy piece of program keeps the discipline and gives back what it takes.\<close>

definition tidy :: "('x \<Rightarrow> 'l option) \<Rightarrow> ('l \<Rightarrow> nat) \<Rightarrow> ('l \<times> mode) list \<Rightarrow> ('l, 'x) action list \<Rightarrow> bool" where
  "tidy g r hs p \<longleftrightarrow> orderly g r hs p \<and> fold held_after p hs = hs"

lemma orderly_append [simp]:
  "orderly g r hs (p @ q) \<longleftrightarrow> orderly g r hs p \<and> orderly g r (fold held_after p hs) q"
  by (induction p arbitrary: hs) auto

lemma tidy_Nil [simp, intro]: "tidy g r hs []"
  by (simp add: tidy_def)

lemma tidy_append [intro]: "tidy g r hs p \<Longrightarrow> tidy g r hs q \<Longrightarrow> tidy g r hs (p @ q)"
  by (simp add: tidy_def)

lemma tidy_concat [intro]: "(\<And>p. p \<in> set ps \<Longrightarrow> tidy g r hs p) \<Longrightarrow> tidy g r hs (concat ps)"
  by (induction ps) (auto intro: tidy_append)

lemma tidy_access:
  "tidy g r hs (ReadOf x # p) \<longleftrightarrow> allowed g r hs (ReadOf x :: ('l, 'x) action) \<and> tidy g r hs p"
  "tidy g r hs (WriteOf x # p) \<longleftrightarrow> allowed g r hs (WriteOf x :: ('l, 'x) action) \<and> tidy g r hs p"
  "tidy g r hs (Atomic x # p) \<longleftrightarrow> tidy g r hs (p :: ('l, 'x) action list)"
  by (simp_all add: tidy_def)

text \<open>A scoped lock: the destructor of the guard object gives it back. It may be taken where only lower ones are held.\<close>

definition scoped :: "'l \<Rightarrow> mode \<Rightarrow> ('l, 'x) action list \<Rightarrow> ('l, 'x) action list" where
  "scoped l m p = Acquire l m # p @ [Release l]"

lemma tidy_scoped:
  assumes "list_all (\<lambda>(l', _). r l' < r l) hs" and "tidy g r ((l, m) # hs) p"
  shows "tidy g r hs (scoped l m p)"
proof -
  from assms(1) have "filter (\<lambda>(l', _). l' \<noteq> l) hs = hs"
    by (auto simp: filter_id_conv list_all_iff)
  with assms show ?thesis by (simp add: tidy_def scoped_def)
qed

section \<open>Invariants of every run\<close>

lemma runnable_todo: "runnable ts i \<Longrightarrow> i < length ts \<and> th_todo (ts ! i) \<noteq> []"
  by (auto simp: runnable_def)

lemma length_pick [simp]: "length (pick i ts) = length ts"
  by (simp add: pick_def)

lemma length_picks [simp]: "length (picks is ts) = length ts"
  unfolding picks_def by (induction "is" arbitrary: ts) simp_all

definition every :: "(nat \<Rightarrow> ('l, 'x) thread \<Rightarrow> bool) \<Rightarrow> ('l, 'x) thread list \<Rightarrow> bool" where
  "every P ts \<longleftrightarrow> (\<forall>i < length ts. P i (ts ! i))"

lemma every_picks:
  assumes "every P ts" and step: "\<And>i t. P i t \<Longrightarrow> th_todo t \<noteq> [] \<Longrightarrow> P i (act t)"
  shows "every P (picks is ts)"
proof -
  have "every P (pick i us)" if "every P us" for i us
    using that step runnable_todo [of us i] by (auto simp: every_def pick_def nth_list_update)
  then show ?thesis
    using assms(1) unfolding picks_def by (induction "is" arbitrary: ts) simp_all
qed

text \<open>What is left of a program keeps the discipline and gives everything back in the end.\<close>

definition keeps :: "('x \<Rightarrow> 'l option) \<Rightarrow> ('l \<Rightarrow> nat) \<Rightarrow> ('l, 'x) thread \<Rightarrow> bool" where
  "keeps g r t \<longleftrightarrow> orderly g r (th_held t) (th_todo t) \<and> fold held_after (th_todo t) (th_held t) = []"

lemma keeps_act: "keeps g r t \<Longrightarrow> th_todo t \<noteq> [] \<Longrightarrow> keeps g r (act t)"
  by (cases "th_todo t") (auto simp: keeps_def act_def)

text \<open>A thread that does not take a lock shared never has it shared.\<close>

definition not_shared :: "'l \<Rightarrow> ('l, 'x) thread \<Rightarrow> bool" where
  "not_shared l t \<longleftrightarrow> Acquire l Shared \<notin> set (th_todo t) \<and> (l, Shared) \<notin> set (th_held t)"

lemma not_shared_act: "not_shared l t \<Longrightarrow> th_todo t \<noteq> [] \<Longrightarrow> not_shared l (act t)"
  by (cases "th_todo t"; cases "hd (th_todo t)") (auto simp: not_shared_def act_def)

definition exclusive :: "('l, 'x) thread list \<Rightarrow> bool" where
  "exclusive ts \<longleftrightarrow> (\<forall>i < length ts. \<forall>j < length ts. \<forall>l m m'. i \<noteq> j \<and> (l, m) \<in> set (th_held (ts ! i)) \<and>
     (l, m') \<in> set (th_held (ts ! j)) \<longrightarrow> m = Shared \<and> m' = Shared)"

lemma held_act:
  "(l, m) \<in> set (th_held (act t)) \<Longrightarrow> (l, m) \<in> set (th_held t) \<or> hd (th_todo t) = Acquire l m"
  by (cases "hd (th_todo t)") (auto simp: act_def)

lemma exclusive_pick:
  assumes "exclusive ts"
  shows "exclusive (pick i ts)"
proof (cases "runnable ts i")
  case False
  with assms show ?thesis by (simp add: pick_def)
next
  case True
  then have i: "i < length ts" by (simp add: runnable_def)
  have new: "m = Shared \<and> m' = Shared"
    if "(l, m) \<in> set (th_held (act (ts ! i)))" "(l, m') \<in> set (th_held (ts ! j))" "j < length ts" "i \<noteq> j" for l m m' j
  proof (cases "hd (th_todo (ts ! i)) = Acquire l m")
    case False
    with that(1) have "(l, m) \<in> set (th_held (ts ! i))" by (auto dest: held_act)
    with that i assms show ?thesis unfolding exclusive_def by blast
  next
    case True
    with \<open>runnable ts i\<close> have "grantable ts i l m"
      by (cases "th_todo (ts ! i)") (auto simp: runnable_def)
    with that show ?thesis by (fastforce simp: grantable_def)
  qed
  from True have "pick i ts = ts[i := act (ts ! i)]" by (simp add: pick_def)
  moreover have "m = Shared \<and> m' = Shared"
    if "a < length ts" "b < length ts" "a \<noteq> b" "(l, m) \<in> set (th_held (ts[i := act (ts ! i)] ! a))"
      "(l, m') \<in> set (th_held (ts[i := act (ts ! i)] ! b))" for a b l m m'
  proof -
    consider "a = i" | "b = i" | "a \<noteq> i" "b \<noteq> i" by blast
    then show ?thesis
    proof cases
      case 1 with that i new [of l m m' b] show ?thesis by simp
    next
      case 2 with that i new [of l m' m a] show ?thesis by simp
    next
      case 3 with that i assms show ?thesis unfolding exclusive_def by (metis nth_list_update_neq)
    qed
  qed
  ultimately show ?thesis unfolding exclusive_def by (metis length_list_update)
qed

lemma exclusive_picks: "exclusive ts \<Longrightarrow> exclusive (picks is ts)"
  unfolding picks_def by (induction "is" arbitrary: ts) (simp_all add: exclusive_pick)

section \<open>What the discipline gives\<close>

text \<open>The thread that awaits the lock of the highest rank can go on.\<close>

definition awaited :: "('l \<Rightarrow> nat) \<Rightarrow> ('l, 'x) thread \<Rightarrow> nat" where
  "awaited r t = (case th_todo t of Acquire l _ # _ \<Rightarrow> r l | _ \<Rightarrow> 0)"

lemma keeps_held: "keeps g r t \<Longrightarrow> th_held t \<noteq> [] \<Longrightarrow> th_todo t \<noteq> []"
  by (auto simp: keeps_def)

lemma stuck_waits_for_higher:
  assumes "every (\<lambda>_. keeps g r) ts" "i < length ts" "th_todo (ts ! i) \<noteq> []" "\<not> runnable ts i"
  obtains j where "j < length ts" "th_todo (ts ! j) \<noteq> []" "runnable ts j \<or> awaited r (ts ! i) < awaited r (ts ! j)"
proof -
  from assms(2-4) obtain l m p where next_i: "th_todo (ts ! i) = Acquire l m # p" and "\<not> grantable ts i l m"
    by (auto simp: runnable_def neq_Nil_conv split: action.splits list.splits)
  then obtain j m' where j: "j < length ts" "(l, m') \<in> set (th_held (ts ! j))" "\<not> (j \<noteq> i \<and> m = Shared \<and> m' = Shared)"
    by (auto simp: grantable_def)
  from assms(1) j(1) have keeps_j: "keeps g r (ts ! j)" by (simp add: every_def)
  with j(2) have todo_j: "th_todo (ts ! j) \<noteq> []" by (auto dest: keeps_held)
  have "runnable ts j \<or> r l < awaited r (ts ! j)"
  proof (cases "runnable ts j")
    case False
    with j(1) todo_j obtain k n q where next_j: "th_todo (ts ! j) = Acquire k n # q"
      by (auto simp: runnable_def neq_Nil_conv split: action.splits list.splits)
    with keeps_j j(2) have "r l < r k" by (auto simp: keeps_def list_all_iff)
    with next_j show ?thesis by (simp add: awaited_def)
  qed simp
  with j(1) todo_j next_i that show ?thesis by (simp add: awaited_def)
qed

lemma some_thread_runs:
  assumes keeps: "every (\<lambda>_. keeps g r) ts" and "i < length ts" "th_todo (ts ! i) \<noteq> []"
  shows "\<exists>j. runnable ts j"
proof (rule ccontr)
  assume stuck: "\<not> (\<exists>j. runnable ts j)"
  let ?W = "{j. j < length ts \<and> th_todo (ts ! j) \<noteq> []}"
  let ?A = "(\<lambda>j. awaited r (ts ! j)) ` ?W"
  from assms(2,3) have "finite ?A" "?A \<noteq> {}" by auto
  then have "Max ?A \<in> ?A" by (rule Max_in)
  then obtain k where k: "k < length ts" "th_todo (ts ! k) \<noteq> []" "awaited r (ts ! k) = Max ?A" by auto
  from stuck_waits_for_higher [OF keeps k(1,2)] stuck obtain j
    where "j < length ts" "th_todo (ts ! j) \<noteq> []" "awaited r (ts ! k) < awaited r (ts ! j)" by metis
  then have "awaited r (ts ! j) \<in> ?A" "Max ?A < awaited r (ts ! j)" using k(3) by auto
  with \<open>finite ?A\<close> show False by (simp add: Max_gr_iff leD)
qed

definition all_done :: "('l, 'x) thread list \<Rightarrow> bool" where
  "all_done ts \<longleftrightarrow> (\<forall>t \<in> set ts. th_todo t = [] \<and> th_held t = [])"

definition left :: "('l, 'x) thread list \<Rightarrow> nat" where
  "left ts = (\<Sum>t \<leftarrow> ts. length (th_todo t))"

lemma left_pick:
  assumes "runnable ts i"
  shows "left (pick i ts) < left ts"
proof -
  from runnable_todo [OF assms] have i: "i < length ts" "th_todo (ts ! i) \<noteq> []" by auto
  have "left (take i ts @ act (ts ! i) # drop (Suc i) ts) < left (take i ts @ ts ! i # drop (Suc i) ts)"
    using i(2) by (simp add: left_def act_def)
  with i(1) assms show ?thesis by (simp add: pick_def upd_conv_take_nth_drop id_take_nth_drop [symmetric])
qed

lemma keeps_picks: "every (\<lambda>_. keeps g r) ts \<Longrightarrow> every (\<lambda>_. keeps g r) (picks is ts)"
  by (rule every_picks) (auto intro: keeps_act)

lemma can_be_finished:
  assumes "every (\<lambda>_. keeps g r) ts"
  shows "\<exists>is. all_done (picks is ts)"
  using assms
proof (induction "left ts" arbitrary: ts rule: less_induct)
  case less
  show ?case
  proof (cases "\<forall>t \<in> set ts. th_todo t = []")
    case True
    have "th_held t = []" if "t \<in> set ts" for t
    proof -
      from that less.prems have "keeps g r t" by (auto simp: every_def in_set_conv_nth)
      with True that show ?thesis by (simp add: keeps_def)
    qed
    with True have "all_done (picks [] ts)" by (simp add: all_done_def picks_def)
    then show ?thesis ..
  next
    case False
    then obtain i where "i < length ts" "th_todo (ts ! i) \<noteq> []" by (auto simp: in_set_conv_nth)
    with some_thread_runs [OF less.prems] obtain j where j: "runnable ts j" by blast
    have "every (\<lambda>_. keeps g r) (pick j ts)"
      using keeps_picks [OF less.prems, of "[j]"] by (simp add: picks_def)
    from less.hyps [OF left_pick [OF j] this] obtain js where "all_done (picks js (pick j ts))" ..
    then have "all_done (picks (j # js) ts)" by (simp add: picks_def)
    then show ?thesis ..
  qed
qed

text \<open>
  Threads that are tidy, of which at most one takes a guard shared. A lock that is read-shared by one thread only is
  as good as an exclusive one.
\<close>

locale lock_discipline =
  fixes guard :: "'x \<Rightarrow> 'l option" and rank :: "'l \<Rightarrow> nat" and progs :: "('l, 'x) action list list"
  assumes progs_tidy: "p \<in> set progs \<Longrightarrow> tidy guard rank [] p"
    and one_reader: "guard x = Some l \<Longrightarrow> i < length progs \<Longrightarrow> j < length progs \<Longrightarrow> i \<noteq> j \<Longrightarrow>
      Acquire l Shared \<in> set (progs ! i) \<Longrightarrow> Acquire l Shared \<notin> set (progs ! j)"
begin

lemma start_keeps: "every (\<lambda>_. keeps guard rank) (started progs)"
  using progs_tidy by (auto simp: every_def started_def keeps_def tidy_def)

lemma run_can_be_finished: "\<exists>js. all_done (picks js (picks is (started progs)))"
  by (rule can_be_finished [OF keeps_picks [OF start_keeps]])

lemma run_is_exclusive: "exclusive (picks is (started progs))"
  by (intro exclusive_picks) (auto simp: exclusive_def started_def)

lemma access_is_guarded:
  assumes "guard x = Some l" "next_action (picks is (started progs)) i = Some a" "a = ReadOf x \<or> a = WriteOf x"
  shows "l \<in> fst ` set (th_held (picks is (started progs) ! i))"
proof -
  have "every (\<lambda>_. keeps guard rank) (picks is (started progs))" by (intro keeps_picks start_keeps)
  with assms show ?thesis
    by (cases "th_todo (picks is (started progs) ! i)")
      (auto simp: next_action_def every_def keeps_def split: if_splits)
qed

lemma at_most_one_has_it_shared:
  assumes "guard x = Some l" "i < length progs" "j < length progs" "i \<noteq> j"
  shows "not_shared l (picks is (started progs) ! i) \<or> not_shared l (picks is (started progs) ! j)"
proof -
  let ?P = "\<lambda>k t. Acquire l Shared \<notin> set (progs ! k) \<longrightarrow> not_shared l t"
  have "every ?P (picks is (started progs))"
    by (rule every_picks) (auto simp: every_def started_def not_shared_def [of l "\<lparr>th_todo = _, th_held = []\<rparr>"]
      intro: not_shared_act)
  with assms one_reader [OF assms] show ?thesis by (auto simp: every_def started_def)
qed

lemma no_race:
  assumes "guard x = Some l"
  shows "\<not> racing x (picks is (started progs))"
proof
  let ?ts = "picks is (started progs)"
  assume "racing x ?ts"
  then obtain i j a b where ij: "i < length progs" "j < length progs" "i \<noteq> j"
    and acc: "next_action ?ts i = Some a" "next_action ?ts j = Some b"
      "a = ReadOf x \<or> a = WriteOf x" "b = ReadOf x \<or> b = WriteOf x"
    unfolding racing_def by (auto simp: started_def)
  from access_is_guarded [OF assms acc(1,3)] access_is_guarded [OF assms acc(2,4)]
  obtain m n where held: "(l, m) \<in> set (th_held (?ts ! i))" "(l, n) \<in> set (th_held (?ts ! j))" by auto
  with run_is_exclusive [of "is"] ij have "m = Shared" "n = Shared"
    unfolding exclusive_def by (auto simp: started_def)
  with held at_most_one_has_it_shared [OF assms ij, of "is"] show False by (auto simp: not_shared_def)
qed

end

section \<open>What the server's methods lock and access\<close>

text \<open>
  The locks, and the places that are shared: the members of \<open>LocalServer\<close>, the physics object, the items of each
  queue, and the work of an \<open>io_service\<close>.
\<close>

datatype server_queue = ServerQueue | PhysicsQueue | ClientQueue nat

datatype server_lock = ClientsMutex | QueueMutex server_queue

datatype place =
    Clients | LobbyClients | Baddies | PlayerSpawn | NextId | Ticks | PhysicsObject | Items server_queue | Service

type_synonym piece = "(server_lock, place) action list"

text \<open>The order of the locks, and the lock that guards a place.\<close>

fun lock_rank :: "server_lock \<Rightarrow> nat" where
  "lock_rank ClientsMutex = 0"
| "lock_rank (QueueMutex q) = 1"

fun place_guard :: "place \<Rightarrow> server_lock option" where
  "place_guard Clients = Some ClientsMutex"
| "place_guard LobbyClients = Some ClientsMutex"
| "place_guard (Items q) = Some (QueueMutex q)"
| "place_guard _ = None"

text \<open>
  The operations of a queue. \<open>locked\<close> says whether \<open>QNT_USE_LOCKED_QUEUE\<close> is defined; otherwise the head is read and
  swapped by atomic operations (theory \<open>LocklessQueue\<close>). \<open>wait_pop\<close> finds the queue empty \<open>n\<close> times; the
  condition variable gives the mutex up meanwhile.
\<close>

definition push_piece :: "bool \<Rightarrow> server_queue \<Rightarrow> piece" where
  "push_piece locked q =
     (if locked then scoped (QueueMutex q) Exclusive [ReadOf (Items q), WriteOf (Items q)]
      else [Atomic (Items q)])"

definition try_pop_piece :: "bool \<Rightarrow> server_queue \<Rightarrow> bool \<Rightarrow> piece" where
  "try_pop_piece locked q found =
     (if locked then scoped (QueueMutex q) Exclusive (ReadOf (Items q) # (if found then [WriteOf (Items q)] else []))
      else [Atomic (Items q)])"

definition wait_pop_piece :: "bool \<Rightarrow> server_queue \<Rightarrow> nat \<Rightarrow> piece" where
  "wait_pop_piece locked q n =
     concat (replicate n (try_pop_piece locked q False)) @ try_pop_piece locked q True"

text \<open>A client is the local one with its queue, or a connection, which posts to the \<open>io_service\<close>.\<close>

datatype client_ref = Window nat | Connection

fun client_push_piece :: "bool \<Rightarrow> client_ref \<Rightarrow> piece" where
  "client_push_piece locked (Window n) = push_piece locked (ClientQueue n)"
| "client_push_piece locked Connection = [Atomic Service]"

text \<open>\<open>for(auto i = x.begin(); i != x.end(); ++i) body\<close> over the elements found.\<close>

definition for_each :: "place \<Rightarrow> ('a \<Rightarrow> piece) \<Rightarrow> 'a list \<Rightarrow> piece" where
  "for_each x body ys = concat (map (\<lambda>y. ReadOf x # body y) ys) @ [ReadOf x]"

text \<open>
  The methods, given what their loops find: the clients \<open>cs\<close>, those in the lobby \<open>ls\<close>, the number of baddies.
\<close>

definition addClient_piece :: "bool \<Rightarrow> client_ref list \<Rightarrow> nat \<Rightarrow> client_ref \<Rightarrow> piece" where
  "addClient_piece locked cs baddies c =
     scoped ClientsMutex Exclusive
       (for_each Clients (\<lambda>_. client_push_piece locked c) cs @
        for_each Baddies (\<lambda>_. client_push_piece locked c) [0..<baddies] @
        [WriteOf LobbyClients])"

definition removeClient_piece :: "bool \<Rightarrow> bool \<Rightarrow> client_ref list \<Rightarrow> client_ref list \<Rightarrow> piece" where
  "removeClient_piece locked has_id cs ls =
     scoped ClientsMutex Exclusive
       ([WriteOf Clients, WriteOf Clients, WriteOf LobbyClients] @
        (if has_id
         then ReadOf PhysicsObject # push_piece locked PhysicsQueue @
           for_each Clients (client_push_piece locked) cs @ for_each LobbyClients (client_push_piece locked) ls
         else []))"

definition loadPlayer_piece :: "bool \<Rightarrow> client_ref list \<Rightarrow> piece" where
  "loadPlayer_piece locked cs =
     scoped ClientsMutex Exclusive
       (WriteOf LobbyClients # Atomic NextId # ReadOf PlayerSpawn # ReadOf PhysicsObject #
        push_piece locked PhysicsQueue @ WriteOf Clients # for_each Clients (client_push_piece locked) cs)"

text \<open>\<open>m_clients[cli]\<close> may insert, although the lock is taken shared.\<close>

definition getClientId_piece :: piece where
  "getClientId_piece = scoped ClientsMutex Shared [ReadOf Clients, WriteOf Clients]"

definition pushClientTransforms_piece :: "bool \<Rightarrow> nat \<Rightarrow> client_ref list \<Rightarrow> client_ref list \<Rightarrow> piece" where
  "pushClientTransforms_piece locked transforms cs ls =
     scoped ClientsMutex Shared
       (concat (replicate transforms
         (for_each Clients (client_push_piece locked) cs @ for_each LobbyClients (client_push_piece locked) ls)))"

definition runTickCallbacks_piece :: "nat \<Rightarrow> piece" where
  "runTickCallbacks_piece baddies =
     ReadOf Ticks # WriteOf Ticks # for_each Baddies (\<lambda>_. [ReadOf PhysicsObject]) [0..<baddies]"

text \<open>\<open>loadWorld\<close> places \<open>mobs\<close> baddies and \<open>blockers\<close> objects, or none if it finds no file.\<close>

definition loadWorld_piece :: "bool \<Rightarrow> bool \<Rightarrow> nat \<Rightarrow> nat \<Rightarrow> piece" where
  "loadWorld_piece locked spawn mobs blockers =
     (if spawn then [WriteOf PlayerSpawn] else []) @
     concat (replicate mobs
       (Atomic NextId # ReadOf PhysicsObject # push_piece locked PhysicsQueue @ [WriteOf Baddies])) @
     concat (replicate blockers (Atomic NextId # ReadOf PhysicsObject # push_piece locked PhysicsQueue))"

definition serverClosed_piece :: "client_ref list \<Rightarrow> client_ref list \<Rightarrow> piece" where
  "serverClosed_piece cs ls =
     scoped ClientsMutex Exclusive (for_each Clients (\<lambda>_. []) cs @ for_each LobbyClients (\<lambda>_. []) ls)"

section \<open>The threads\<close>

text \<open>A turn of \<open>LocalServer::run\<close>: the message found after \<open>n\<close> waits.\<close>

datatype server_msg_kind = LoadPlayerOf "client_ref list" | InputOf | OtherMsg

fun server_turn_piece :: "bool \<Rightarrow> nat \<times> server_msg_kind \<Rightarrow> piece" where
  "server_turn_piece locked (n, LoadPlayerOf cs) = wait_pop_piece locked ServerQueue n @ loadPlayer_piece locked cs"
| "server_turn_piece locked (n, InputOf) =
     wait_pop_piece locked ServerQueue n @ ReadOf PhysicsObject # push_piece locked PhysicsQueue"
| "server_turn_piece locked (n, OtherMsg) = wait_pop_piece locked ServerQueue n"

text \<open>
  The server thread: it creates the physics, loads the world, handles messages until the one to shut down, deletes the
  physics and tells the clients. It holds no lock where it waits for the physics thread to end.
\<close>

record server_course =
  sc_spawn :: bool
  sc_mobs :: nat
  sc_blockers :: nat
  sc_turns :: "(nat \<times> server_msg_kind) list"
  sc_idle :: nat
  sc_clients :: "client_ref list"
  sc_lobby :: "client_ref list"

definition server_piece :: "bool \<Rightarrow> server_course \<Rightarrow> piece" where
  "server_piece locked sc =
     loadWorld_piece locked (sc_spawn sc) (sc_mobs sc) (sc_blockers sc) @
     concat (map (server_turn_piece locked) (sc_turns sc)) @
     wait_pop_piece locked ServerQueue (sc_idle sc) @
     ReadOf PhysicsObject # WriteOf PhysicsObject #
     serverClosed_piece (sc_clients sc) (sc_lobby sc)"

text \<open>A tick of the physics thread: it handles messages, of which the inputs ask for an identifier, and reports back.\<close>

record tick_course =
  tc_messages :: "bool list"
  tc_baddies :: nat
  tc_transforms :: nat
  tc_clients :: "client_ref list"
  tc_lobby :: "client_ref list"

definition tick_piece :: "bool \<Rightarrow> tick_course \<Rightarrow> piece" where
  "tick_piece locked tc =
     concat (map (\<lambda>input. try_pop_piece locked PhysicsQueue True @ (if input then getClientId_piece else []))
       (tc_messages tc)) @
     try_pop_piece locked PhysicsQueue False @
     runTickCallbacks_piece (tc_baddies tc) @
     pushClientTransforms_piece locked (tc_transforms tc) (tc_clients tc) (tc_lobby tc)"

text \<open>The other threads, of the window and of the connections, call the server and read the window's queue.\<close>

datatype outer_call =
    AddClient "client_ref list" nat client_ref
  | RemoveClient bool "client_ref list" "client_ref list"
  | PushMessage
  | PopOwn nat bool

fun call_piece :: "bool \<Rightarrow> outer_call \<Rightarrow> piece" where
  "call_piece locked (AddClient cs baddies c) = addClient_piece locked cs baddies c"
| "call_piece locked (RemoveClient has_id cs ls) = removeClient_piece locked has_id cs ls"
| "call_piece locked PushMessage = push_piece locked ServerQueue"
| "call_piece locked (PopOwn n found) = try_pop_piece locked (ClientQueue n) found"

definition server_program :: "bool \<Rightarrow> server_course \<Rightarrow> tick_course list \<Rightarrow> outer_call list list \<Rightarrow> piece list" where
  "server_program locked sc ticks callers =
     concat (map (tick_piece locked) ticks) # server_piece locked sc #
     map (\<lambda>cs. concat (map (call_piece locked) cs)) callers"

section \<open>The server keeps the discipline\<close>

abbreviation tidy_piece :: "(server_lock \<times> mode) list \<Rightarrow> piece \<Rightarrow> bool" where
  "tidy_piece \<equiv> tidy place_guard lock_rank"

text \<open>What may be held where a message is pushed: at most the lock of the clients.\<close>

definition no_queue_held :: "(server_lock \<times> mode) list \<Rightarrow> bool" where
  "no_queue_held hs \<longleftrightarrow> list_all (\<lambda>(l, _). l = ClientsMutex) hs"

lemma no_queue_held_simps [simp]:
  "no_queue_held []"
  "no_queue_held ((l, m) # hs) \<longleftrightarrow> l = ClientsMutex \<and> no_queue_held hs"
  by (simp_all add: no_queue_held_def)

lemma tidy_queue_section:
  "no_queue_held hs \<Longrightarrow> tidy_piece ((QueueMutex q, m) # hs) p \<Longrightarrow>
    tidy_piece hs (scoped (QueueMutex q) m p)"
  by (rule tidy_scoped) (auto simp: no_queue_held_def list_all_iff)

lemma tidy_clients_section:
  "tidy_piece [(ClientsMutex, m)] p \<Longrightarrow> tidy_piece [] (scoped ClientsMutex m p)"
  by (rule tidy_scoped) simp

lemma tidy_queues:
  assumes "no_queue_held hs"
  shows "tidy_piece hs (push_piece locked q)" "tidy_piece hs (try_pop_piece locked q found)"
    "tidy_piece hs (wait_pop_piece locked q n)"
proof -
  show push: "tidy_piece hs (push_piece locked q)"
    unfolding push_piece_def using assms by (auto intro!: tidy_queue_section simp: tidy_access)
  have pop: "tidy_piece hs (try_pop_piece locked q found)" for found
    unfolding try_pop_piece_def using assms by (auto intro!: tidy_queue_section simp: tidy_access)
  show "tidy_piece hs (try_pop_piece locked q found)" by (rule pop)
  show "tidy_piece hs (wait_pop_piece locked q n)"
    unfolding wait_pop_piece_def by (auto intro!: tidy_append tidy_concat pop)
qed

lemma tidy_client_push: "no_queue_held hs \<Longrightarrow> tidy_piece hs (client_push_piece locked c)"
  by (cases c) (simp_all add: tidy_queues tidy_access)

lemma tidy_for_each:
  "allowed place_guard lock_rank hs (ReadOf x) \<Longrightarrow> (\<And>y. tidy_piece hs (body y)) \<Longrightarrow> tidy_piece hs (for_each x body ys)"
  unfolding for_each_def by (auto intro!: tidy_append tidy_concat simp: tidy_access)

lemmas tidy_rules = tidy_append tidy_concat tidy_clients_section tidy_queues tidy_client_push tidy_for_each

lemma tidy_methods:
  "tidy_piece [] (addClient_piece locked cs n c)"
  "tidy_piece [] (removeClient_piece locked has_id cs ls)"
  "tidy_piece [] (loadPlayer_piece locked cs)"
  "tidy_piece [] getClientId_piece"
  "tidy_piece [] (pushClientTransforms_piece locked k cs ls)"
  "tidy_piece [] (runTickCallbacks_piece n)"
  "tidy_piece [] (loadWorld_piece locked spawn mobs blockers)"
  "tidy_piece [] (serverClosed_piece cs ls)"
  unfolding addClient_piece_def removeClient_piece_def loadPlayer_piece_def getClientId_piece_def
    pushClientTransforms_piece_def runTickCallbacks_piece_def loadWorld_piece_def serverClosed_piece_def
  by (auto intro!: tidy_rules simp: tidy_access)

lemma tidy_program:
  assumes "p \<in> set (server_program locked sc ticks callers)"
  shows "tidy_piece [] p"
proof -
  have "tidy_piece [] (server_turn_piece locked t)" for t
    by (cases "(locked, t)" rule: server_turn_piece.cases) (auto intro!: tidy_rules tidy_methods simp: tidy_access)
  moreover have "tidy_piece [] (call_piece locked c)" for c
    by (cases c) (auto intro!: tidy_rules tidy_methods)
  moreover have "tidy_piece [] (tick_piece locked t)" for t
    unfolding tick_piece_def by (auto intro!: tidy_rules tidy_methods)
  ultimately show ?thesis
    using assms unfolding server_program_def server_piece_def
    by (auto intro!: tidy_rules tidy_methods simp: tidy_access)
qed

text \<open>Only the physics thread takes the lock of the clients shared.\<close>

lemma never_shared:
  "Acquire l Shared \<notin> set (push_piece locked q)"
  "Acquire l Shared \<notin> set (try_pop_piece locked q found)"
  "Acquire l Shared \<notin> set (wait_pop_piece locked q n)"
  "Acquire l Shared \<notin> set (client_push_piece locked c)"
  by (auto simp: push_piece_def try_pop_piece_def wait_pop_piece_def scoped_def split: if_splits)
    (cases c; auto simp: push_piece_def scoped_def split: if_splits)

lemma for_each_actions:
  "a \<in> set (for_each x body ys) \<longleftrightarrow> a = ReadOf x \<or> (\<exists>y \<in> set ys. a \<in> set (body y))"
  by (auto simp: for_each_def)

lemma server_never_shares:
  "Acquire l Shared \<notin> set (server_piece locked sc)"
proof -
  have "Acquire l Shared \<notin> set (server_turn_piece locked t)" for t
    by (cases "(locked, t)" rule: server_turn_piece.cases)
      (auto simp: never_shared for_each_actions loadPlayer_piece_def scoped_def)
  then show ?thesis
    by (auto simp: server_piece_def loadWorld_piece_def serverClosed_piece_def scoped_def for_each_actions never_shared)
qed

lemma callers_never_share: "Acquire l Shared \<notin> set (call_piece locked c)"
  by (cases c)
    (auto simp: never_shared for_each_actions addClient_piece_def removeClient_piece_def scoped_def)

lemma only_physics_shares:
  assumes "i < length (server_program locked sc ticks callers)" "i \<noteq> 0"
  shows "Acquire l Shared \<notin> set (server_program locked sc ticks callers ! i)"
  using assms server_never_shares callers_never_share
  by (cases i; cases "i - 1") (auto simp: server_program_def)

interpretation srv: lock_discipline place_guard lock_rank "server_program locked sc ticks callers"
  for locked sc ticks callers
proof
  fix p assume "p \<in> set (server_program locked sc ticks callers)"
  then show "tidy_piece [] p" by (rule tidy_program)
next
  fix l i j
  assume "i < length (server_program locked sc ticks callers)" "j < length (server_program locked sc ticks callers)"
    "i \<noteq> j" "Acquire l Shared \<in> set (server_program locked sc ticks callers ! i)"
  then show "Acquire l Shared \<notin> set (server_program locked sc ticks callers ! j)"
    by (metis only_physics_shares)
qed

section \<open>Properties\<close>

text \<open>
  C21: In every interleaving of the server thread, the physics thread and any number of threads that add and remove clients
  and push messages, no two threads ever access the map of clients or the lobby at the same time with one of them
  writing, nor the items of a locked queue, although \<open>getClientId\<close> inserts under a shared lock. And the locks cause no
  deadlock: from every state reached, the threads can all be brought to their end, with every lock given back.
\<close>

theorem server_locks_are_sound:
  fixes sc :: server_course and ticks :: "tick_course list" and callers :: "outer_call list list"
  shows "\<not> racing Clients (picks is (started (server_program locked sc ticks callers))) \<and>
    \<not> racing LobbyClients (picks is (started (server_program locked sc ticks callers))) \<and>
    \<not> racing (Items q) (picks is (started (server_program locked sc ticks callers))) \<and>
    (\<exists>js. all_done (picks js (picks is (started (server_program locked sc ticks callers)))))"
  using srv.no_race [of Clients ClientsMutex] srv.no_race [of LobbyClients ClientsMutex]
    srv.no_race [of "Items q" "QueueMutex q"] srv.run_can_be_finished by simp

text \<open>
  The members without a guard. A client that is added while the world is loaded reads the baddies that the server thread
  appends to, and so does the tick of the physics; and a connection that ends while the server shuts down uses the
  physics object that is being deleted.
\<close>

definition quiet_course :: server_course where
  "quiet_course = \<lparr>sc_spawn = False, sc_mobs = 0, sc_blockers = 0, sc_turns = [], sc_idle = 0, sc_clients = [], sc_lobby = []\<rparr>"

lemmas run_simps = racing_def picks_def pick_def runnable_def next_action_def act_def started_def server_program_def
  quiet_course_def tick_piece_def server_piece_def loadWorld_piece_def try_pop_piece_def push_piece_def wait_pop_piece_def
  runTickCallbacks_piece_def addClient_piece_def removeClient_piece_def for_each_def scoped_def grantable_def
  All_less_Suc Ex_less_Suc numeral_eq_Suc

lemma baddies_race_with_a_tick:
  "racing Baddies (picks (replicate 3 0 @ replicate 3 1)
    (started (server_program False (quiet_course\<lparr>sc_mobs := 1\<rparr>)
      [\<lparr>tc_messages = [], tc_baddies = 0, tc_transforms = 0, tc_clients = [], tc_lobby = []\<rparr>] [])))"
  by (simp add: run_simps)

lemma baddies_race_with_a_new_client:
  "racing Baddies (picks (replicate 3 1 @ replicate 2 2)
    (started (server_program False (quiet_course\<lparr>sc_mobs := 1\<rparr>) [] [[AddClient [] 0 Connection]])))"
  by (simp add: run_simps)

lemma physics_object_races_at_the_end:
  "racing PhysicsObject (picks (replicate 2 1 @ replicate 4 2)
    (started (server_program False quiet_course [] [[RemoveClient True [] []]])))"
  by (simp add: run_simps)

text \<open>
  A signal handler runs in the thread it interrupts. The one of \<open>qntsrv.cpp\<close> pushes to the server's queue; with the locked
  queue, a signal that comes while the thread is itself in such a push waits for ever for the mutex its own thread holds.
\<close>

definition interrupted :: "nat \<Rightarrow> piece \<Rightarrow> piece \<Rightarrow> piece" where
  "interrupted n handler p = take n p @ handler @ drop n p"

lemma stuck_for_ever: "\<forall>i. \<not> runnable ts i \<Longrightarrow> picks is ts = ts"
  unfolding picks_def by (induction "is") (simp_all add: pick_def)

lemma signal_in_a_push_deadlocks:
  assumes "n \<in> {1, 2, 3}"
  shows "\<exists>js. let ts = picks js (started [interrupted n (push_piece True ServerQueue) (push_piece True ServerQueue)])
    in th_todo (ts ! 0) \<noteq> [] \<and> (\<forall>is. picks is ts = ts)"
proof -
  let ?p = "interrupted n (push_piece True ServerQueue) (push_piece True ServerQueue)"
  let ?ts = "picks (replicate n 0) (started [?p])"
  have "th_todo (?ts ! 0) \<noteq> [] \<and> \<not> runnable ?ts 0"
    using assms by (elim insertE) (simp_all add: interrupted_def run_simps)
  moreover have "runnable ?ts i \<Longrightarrow> i = 0" for i by (auto simp: runnable_def started_def)
  ultimately have "th_todo (?ts ! 0) \<noteq> []" "\<forall>i. \<not> runnable ?ts i" by metis+
  then have "th_todo (?ts ! 0) \<noteq> [] \<and> (\<forall>is. picks is ?ts = ?ts)" by (blast intro: stuck_for_ever)
  then show ?thesis unfolding Let_def ..
qed

lemma signal_in_a_push_deadlocks_witness:
  "\<exists>js. let ts = picks js (started [interrupted 2 (push_piece True ServerQueue) (push_piece True ServerQueue)])
    in th_todo (ts ! 0) \<noteq> [] \<and> (\<forall>is. picks is ts = ts)"
  by (rule signal_in_a_push_deadlocks) simp

end
