(* ===== verification/Atomics.thy ===== *)
theory Atomics
  imports LocklessQueue
begin

text \<open>
  The macros of \<open>core/util/atomic.hpp\<close>. With GCC they are the builtins \<open>__sync_fetch_and_add\<close> and
  \<open>__sync_bool_compare_and_swap\<close>, which the steps of \<open>LocklessQueue\<close> stand for. With Visual C++ they are the Interlocked
  functions, whose parameters have another order and whose result is the old value of the variable, so that the same
  loops do something else there.
\<close>

section \<open>Compare and swap\<close>

text \<open>
  What an expression \<open>compareAndSwapP(var, old_val, new_val)\<close> is worth in a condition, and the variable after it; 0 is null.
\<close>

type_synonym cas = "ptr \<Rightarrow> ptr \<Rightarrow> ptr \<Rightarrow> bool \<times> ptr"

definition sync_bool_compare_and_swap :: cas where
  "sync_bool_compare_and_swap old_val new_val var = (var = old_val, if var = old_val then new_val else var)"

text \<open>\<open>InterlockedCompareExchange(Destination, Exchange, Comparand)\<close> returns the initial value of the destination.\<close>

definition InterlockedCompareExchange :: "ptr \<Rightarrow> ptr \<Rightarrow> ptr \<Rightarrow> ptr \<times> ptr" where
  "InterlockedCompareExchange destination exchange comparand =
     (destination, if destination = comparand then exchange else destination)"

definition compareAndSwapP_gcc :: cas where
  "compareAndSwapP_gcc old_val new_val var = sync_bool_compare_and_swap old_val new_val var"

definition compareAndSwapP_msc :: cas where
  "compareAndSwapP_msc old_val new_val var =
     (let (result, var) = InterlockedCompareExchange var old_val new_val in (result \<noteq> 0, var))"

text \<open>
  The loop of \<open>locklessQueue::push\<close> without interference: \<open>new_head->next = head->next\<close>, until the swap is worth true. One
  pass gives whether it was the last, and \<open>head->next\<close> after it.
\<close>

definition push_pass :: "cas \<Rightarrow> ptr \<Rightarrow> ptr \<Rightarrow> bool \<times> ptr" where
  "push_pass cas new_head head_next = cas head_next new_head head_next"

text \<open>The loop of \<open>try_pop\<close> in the same way, on a queue whose first item is \<open>item\<close>.\<close>

definition pop_pass :: "cas \<Rightarrow> ptr \<Rightarrow> ptr \<Rightarrow> bool \<times> ptr" where
  "pop_pass cas item item_next = cas item item_next item"

section \<open>Lemmas\<close>

lemma gcc_passes:
  "push_pass compareAndSwapP_gcc p h = (True, p)" "pop_pass compareAndSwapP_gcc item n = (True, n)"
  by (simp_all add: push_pass_def pop_pass_def compareAndSwapP_gcc_def sync_bool_compare_and_swap_def)

text \<open>The compare-and-swap steps of \<open>LocklessQueue\<close> are the GCC macro on \<open>head->next\<close>.\<close>

lemma push_cas_is_gcc:
  assumes "lq_nodes s p = Some (v, nxt)"
  shows "lq_continue t (PushCas p) s = Some
    (if fst (compareAndSwapP_gcc nxt p (lq_head s))
     then (Pushed t v, lq_goto t LqIdle (s\<lparr>lq_head := snd (compareAndSwapP_gcc nxt p (lq_head s))\<rparr>))
     else (Tau, lq_goto t (PushLoad p) s))"
  using assms by (simp add: compareAndSwapP_gcc_def sync_bool_compare_and_swap_def)

text \<open>
  With the Visual C++ macro no pass of the loops links or unlinks anything, whatever is in the queue: a push ends at once
  if the queue is not empty, and the item is lost, and never ends if it is; a pop ends at once and leaves the item, which it
  then deletes, at the head.
\<close>

lemma interlocked_push_stores_nothing:
  "new_head \<noteq> head_next \<Longrightarrow> push_pass compareAndSwapP_msc new_head head_next = (head_next \<noteq> 0, head_next)"
  by (simp add: push_pass_def compareAndSwapP_msc_def InterlockedCompareExchange_def)

lemma interlocked_pop_stores_nothing:
  "item \<noteq> 0 \<Longrightarrow> item_next \<noteq> item \<Longrightarrow> pop_pass compareAndSwapP_msc item item_next = (True, item)"
  by (simp add: pop_pass_def compareAndSwapP_msc_def InterlockedCompareExchange_def)

lemma interlocked_passes_witness:
  "push_pass compareAndSwapP_msc 8 0 = (False, 0)" "push_pass compareAndSwapP_msc 8 16 = (True, 16)"
  "pop_pass compareAndSwapP_msc 16 0 = (True, 16)"
  by (simp_all add: interlocked_push_stores_nothing interlocked_pop_stores_nothing)

end
