(* ===== verification/Spec2Isabelle.thy ===== *)
theory Spec2Isabelle
  imports ServerProperties ProtocolProperties LocklessQueue LockedQueue PhysicsOrder PhysicsWorld
    ClientProperties RemoteClientProperties WorldProperties XmlHandles RemoteSession AudioProperties
    Platform ServerMain Game PhysicsMemory NetworkLeave ClientProgram Interfaces Locking Atomics
begin

text \<open>
  A verification library for Quintses, a networked game in C++. File names are relative to \<open>src/\<close>.

  \<^bold>\<open>The program.\<close> A \<^emph>\<open>server\<close> (\<open>server/localserver.cpp\<close>) owns the clients, gives out identifiers and
  takes messages from a queue in a thread of its own. Its \<^emph>\<open>physics\<close> (\<open>server/bullet/btphysics.cpp\<close>)
  runs in a second thread at 30 Hz: every tick it handles the messages posted to it, moves the characters
  by the keys their players hold, steps Bullet and hands the new transforms to the server, which pushes
  them to every client. A \<^emph>\<open>client\<close> (\<open>client/localclient.cpp\<close>) takes its messages once a frame, passes
  them to the \<^emph>\<open>renderer\<close> (\<open>client/opengl/glrender.cpp\<close>), reads the keyboard and draws; two more threads
  load OpenGL resources and stream audio. The two ends are in one process (\<open>quintses.cpp\<close>), or in two:
  then a \<open>RemoteServer\<close> (\<open>client/remoteserver.cpp\<close>) stands for the server in the client's process, and a
  \<open>RemoteClient\<close> (\<open>server/remoteclient.cpp\<close>) for the client in the server's (\<open>qntsrv.cpp\<close>).
  Between them run the messages of \<open>core/messages\<close> over \<open>core/util/socket.hpp\<close>.

  \<^bold>\<open>The theories\<close>, in the order they build on each other.
  \<^item> \<open>Prelude\<close>: machine integers, faults and the result type \<open>fault + 'a\<close>, with \<open>res_bind\<close> for the order of
    calls and \<open>fold_res\<close> for loops that may fail; \<open>StdMap\<close>: \<open>std::map\<close> and \<open>std::set\<close> as sorted lists,
    their contract the locale \<open>keyed_container\<close>; \<open>Glm\<close>: the matrix and quaternion functions the server
    calls, over any scalar type.
  \<^item> \<open>MsgQueue\<close>: both queues of \<open>core/util/queue.hpp\<close> for one thread (locales \<open>message_queue\<close>,
    \<open>fifo_queue\<close>, \<open>lifo_queue\<close>, interpreted on the model of each) and the loop that empties one;
    \<open>LocklessQueue\<close>, \<open>LockedQueue\<close>: the same code one memory access at a time, as step relations for
    any number of threads; \<open>Atomics\<close>: the macros their steps stand for, and what those for another compiler do.
  \<^item> \<open>Sockets\<close>, \<open>Messages\<close>: reading and writing on a byte stream, every message class with its factory,
    reader and writer; locale \<open>framed_protocol\<close>, interpreted for both directions.
    \<open>ProtocolProperties\<close>: round trips, cut streams, and what a peer can make a receiver accept.
  \<^item> \<open>Physics\<close>, \<open>PhysicsTick\<close>: the record of \<open>BtPhysics\<close>, its posting of messages, its movement code, its
    message handler, the tick and the end of its thread; \<open>PhysicsSteps\<close>: the tick in the steps between which other threads can
    act, and that without such it is the whole tick. \<open>LocalServer\<close>: \<open>LocalServer\<close> with its
    container members, one function per method, and the loop of its thread. \<open>ServerProperties\<close>,
    \<open>PhysicsProperties\<close>, \<open>PhysicsOrder\<close>, \<open>PhysicsWorld\<close>: memory safety, clean-up, announcements, identifiers, the
    refinement of a tick to sets of identifiers, the content of the Bullet world, input.
    \<open>PhysicsMemory\<close>: the memory of the Bullet objects, from the creation of the world to its deletion.
    \<open>ServerMain\<close>: the server program around it, up to its end by a signal.
  \<^item> \<open>WorldLoading\<close>: \<open>loadWorld\<close> with \<open>core/util/xml_helpers.hpp\<close> over the tree rapidxml parses;
    \<open>WorldProperties\<close>: the grid of baddies, the shipped \<open>data/world.xml\<close>, identifiers in a loaded world;
    \<open>XmlHandles\<close>: the reference counting of \<open>core/util/xml.hpp\<close> over an explicit heap.
  \<^item> \<open>Renderer\<close>: \<open>GlRender\<close> over an explicit heap of drawables, refining a finite map (the scene);
    \<open>LocalClient\<close>, \<open>ClientProperties\<close>: key events, frames and the main loop.
  \<^item> \<open>Game\<close>: the program in one process, \<open>quintses.cpp\<close>: server, physics and client composed, with every
    interleaving of their steps; its safety, its end, and its first frame.
  \<^item> \<open>RemoteClient\<close>, \<open>RemoteClientProperties\<close>, \<open>RemoteServer\<close>, \<open>RemoteSession\<close>: the handlers of both ends
    of a connection under their \<open>io_service\<close>, accepting and connecting, sessions, and the network as a
    refinement of a direct call. \<open>NetworkGame\<close>, \<open>NetworkLeave\<close>: the server program with any number of connections, under every
    interleaving of the peers, the service, the server's thread, the watcher and the physics; joining, playing, leaving and the end. \<open>ClientProgram\<close>: the client program \<open>qntcli.cpp\<close> in the same way.
  \<^item> \<open>Interfaces\<close>: the abstract classes \<open>core/*iface.hpp\<close> two parts meet at, as records of functions with an instance for each
    class that implements them; their contracts are the locales \<open>client_interface\<close>, \<open>server_interface\<close>, \<open>physics_interface\<close>
    and \<open>render_interface\<close>, interpreted for every instance.
  \<^item> \<open>ThreadLifecycle\<close>: how the four managed threads start, tell they run, are asked to stop and end, as the
    instructions of the constructor, of \<open>run()\<close> and of \<open>finish()\<close> under every interleaving; the contract
    is the locale \<open>managed_thread\<close>, interpreted for physics, loader, audio and server.
  \<^item> \<open>Locking\<close>: the locks of the server and its queues. Each method is given by what it locks and which members it accesses; the
    locale \<open>lock_discipline\<close> (a guard for each place, a rank for each lock) gives freedom from data races and deadlocks for any
    number of threads, and is interpreted for the server's program; the members without a guard have their races as lemmas.
  \<^item> \<open>Audio\<close>, \<open>AudioProperties\<close>: the WAV headers, double buffering and the stream list of \<open>client/openal\<close>.
    \<open>Platform\<close>: the life of the client object: what the X11 code, the loader, the renderer and the audio thread acquire and release,
    in order, on success and on every failure.

  Each property is a theorem that follows a text with its number; the other texts say what the lemmas are for.
  A pointer is a number, 0 is null; a use of a deleted object is the fault \<open>UseAfterFree\<close>, a read of an
  uninitialised member \<open>Indeterminate\<close>, a null dereference \<open>NullDereference\<close>, a store outside a buffer
  \<open>OutOfBounds\<close>, an exception \<open>RuntimeError\<close> or \<open>SystemError\<close>. The messages the code sends are lists in
  the state, so that a theorem can say who was told what and in which order.

  \<^bold>\<open>Loops and bounds.\<close> Loops over lists and maps are folds or structural recursions. The loop that
  drains a queue and the float-controlled loop of the mob grid are \<open>partial_function (option)\<close>: \<open>None\<close> is a
  run that does not end, and the theorems on them prove \<open>Some\<close>. The main loops take the finite list of what
  arrives (frames, messages, completions, turns of the scheduler) and tell whether they have ended. No fuel is used.
  Identifiers, counters and lengths are \<open>32 word\<close>; where wrap-around would break a property, the property
  states the room it needs (fewer than \<open>2^32 - 1\<close> identifiers, fewer than \<open>2^32\<close> handle operations).

  \<^bold>\<open>Parameters.\<close> Bullet is a record of the calls made on it; X11, GLX and OpenAL are the outcomes of their calls;
  OpenGL is the list of the calls made; boost.asio is the documented all-or-error behaviour of its reads
  and writes and the order of completion handlers; rapidxml's parser gives the tree; the conversion of
  decimals to floats is a record \<open>F\<close>, with an exact instance for ordered fields.

  \<^bold>\<open>Not modelled\<close>, because nothing in the sources determines it: rounding of floats (theorems on
  positions hold where the scalars are an ordered field, the others for every scalar type); weak memory (the step
  relations are sequentially consistent, and a handler, a message of the server and a step of a tick are single steps, each of which
  holds the lock of the clients throughout where it uses them, see \<open>Locking\<close>); failing allocations;
  the text written to logs. The drawing surface has no behaviour of its own to state; the vendored
  libraries (\<open>3rdparty\<close>) are only modelled where the sources call them.
\<close>

section \<open>From the physics to the screen\<close>

text \<open>Handled newest first, the transforms of a tick leave every drawable with the one of its identifier.\<close>

lemma scene_after_transforms:
  "fold scene_step (rev (map (\<lambda>(i, mat). ClientTransDrawableMsg i (Some mat)) ct)) sc i =
    (case map_of ct i of None \<Rightarrow> sc i | Some mat \<Rightarrow> map_option (d_matrix_update (\<lambda>_. Some mat)) (sc i))"
proof (induction ct arbitrary: i)
  case (Cons p ct)
  obtain j mat where "p = (j, mat)" by (cases p)
  with Cons [of i] Cons [of j] show ?case by (cases "sc j"; cases "map_of ct j") auto
qed simp

lemma map_of_transforms:
  "map_of (transforms B p) i =
    map_option (\<lambda>ch. bt_gl_matrix B (ch_handle ch) (ph_world p)) (map_find i (ph_characters p))"
  by (simp add: transforms_def map_find_def map_of_map comp_def)

text \<open>A frame without faults: the messages are handled, the scene is drawn.\<close>

lemma frame_draws:
  assumes "renderer_ok (lc_renderer cl)" and "lc_queue cl = []"
    and "\<forall>i d. fold scene_step (rev (fi_messages fi)) (scene (lc_renderer cl)) i = Some d \<longrightarrow> d_matrix d \<noteq> None"
  shows "\<exists>cl' ids. frame X self fi cl = Some (Inr cl') \<and>
    scene (lc_renderer cl') = fold scene_step (rev (fi_messages fi)) (scene (lc_renderer cl)) \<and>
    sorted_wrt (<) ids \<and> set ids = {i. scene (lc_renderer cl') i \<noteq> None} \<and>
    lc_frames cl' = lc_frames cl @ [GlClear # concat (map (drawn (lc_renderer cl')) ids)]"
proof -
  obtain r where r: "client_messages (fold client_pushMessage (fi_messages fi) cl) =
      Some (Inr (cl\<lparr>lc_renderer := r, lc_queue := []\<rparr>))" "renderer_ok r"
    "scene r = fold scene_step (rev (fi_messages fi)) (scene (lc_renderer cl))"
    using messages_newest_first [OF assms(1), of "fi_messages fi"] assms(2) by auto
  obtain ids where ids: "sorted_wrt (<) ids" "set ids = {i. scene r i \<noteq> None}"
    "draw r = Inr (GlClear # concat (map (drawn r) ids))"
    using draw_complete [OF r(2)] assms(3) r(3) by auto
  show ?thesis
    using r ids by (intro exI [of _ "let c = platformEvents X self (fi_events fi)
          (if fi_closed fi then serverClosed (cl\<lparr>lc_renderer := r, lc_queue := []\<rparr>)
           else cl\<lparr>lc_renderer := r, lc_queue := []\<rparr>)
        in c\<lparr>lc_frames := lc_frames c @ [GlClear # concat (map (drawn r) ids)]\<rparr>"] exI [of _ ids])
      (simp add: frame_def Let_def platformEvents_def case_prod_unfold serverClosed_def)
qed

text \<open>
  C6: A tick reaches the screen. The transforms the physics reports for its characters go through the
  server to every client, and a client that has handled what came before, knows the characters and has
  nothing else without a matrix draws them in its next frame: the frame succeeds, each character's
  drawable is drawn with the matrix Bullet gives for the character of that identifier, although the queue
  hands the messages out in reverse; every other drawable and every colour stays as it was.
\<close>

theorem tick_reaches_the_screen:
  assumes "clients_live s" and "server_ok s" and "separate s" and "c \<in> set (everybody s)"
    and "renderer_ok (lc_renderer cl)" and "lc_queue cl = []"
    and "\<forall>i. map_find i (ph_characters p) \<noteq> None \<longrightarrow> scene (lc_renderer cl) i \<noteq> None"
    and "\<forall>i d. scene (lc_renderer cl) i = Some d \<and> d_matrix d = None \<longrightarrow> map_find i (ph_characters p) \<noteq> None"
    and "\<forall>s'. pushClientTransforms (transforms B p) s = Inr s' \<longrightarrow>
      fi_messages fi = drop (length (messages_to c s)) (messages_to c s')"
  shows "\<exists>s' cl' ids. pushClientTransforms (transforms B p) s = Inr s' \<and> frame X c fi cl = Some (Inr cl') \<and>
    (\<forall>i. scene (lc_renderer cl') i =
      (case map_find i (ph_characters p) of
         None \<Rightarrow> scene (lc_renderer cl) i
       | Some ch \<Rightarrow> map_option (d_matrix_update (\<lambda>_. Some (bt_gl_matrix B (ch_handle ch) (ph_world p))))
           (scene (lc_renderer cl) i))) \<and>
    sorted_wrt (<) ids \<and> set ids = {i. scene (lc_renderer cl) i \<noteq> None} \<and>
    lc_frames cl' = lc_frames cl @ [GlClear # concat (map (drawn (lc_renderer cl')) ids)]"
proof -
  let ?sc = "\<lambda>i. case map_find i (ph_characters p) of
       None \<Rightarrow> scene (lc_renderer cl) i
     | Some ch \<Rightarrow> map_option (d_matrix_update (\<lambda>_. Some (bt_gl_matrix B (ch_handle ch) (ph_world p))))
         (scene (lc_renderer cl) i)"
  obtain s' where s': "pushClientTransforms (transforms B p) s = Inr s'"
    "messages_to c s' = messages_to c s @ map (\<lambda>(i, mat). ClientTransDrawableMsg i (Some mat)) (transforms B p)"
    using transforms_reach_everybody [OF assms(1-3), of "transforms B p"] assms(4) by force
  then have msgs: "fi_messages fi = map (\<lambda>(i, mat). ClientTransDrawableMsg i (Some mat)) (transforms B p)"
    using assms(9) by simp
  have sc: "fold scene_step (rev (fi_messages fi)) (scene (lc_renderer cl)) = ?sc"
    by (intro ext) (simp add: msgs scene_after_transforms map_of_transforms split: option.split)
  have "d_matrix d \<noteq> None" if "?sc i = Some d" for i d
    using that assms(8) [rule_format, of i d] by (cases "map_find i (ph_characters p)") auto
  with sc have "\<forall>i d. fold scene_step (rev (fi_messages fi)) (scene (lc_renderer cl)) i = Some d \<longrightarrow> d_matrix d \<noteq> None"
    by simp
  from frame_draws [OF assms(5,6) this, of X c] sc obtain cl' ids where
    "frame X c fi cl = Some (Inr cl')" "scene (lc_renderer cl') = ?sc" "sorted_wrt (<) ids"
    "set ids = {i. scene (lc_renderer cl') i \<noteq> None}"
    "lc_frames cl' = lc_frames cl @ [GlClear # concat (map (drawn (lc_renderer cl')) ids)]"
    by metis
  moreover from this(2) have "{i. scene (lc_renderer cl') i \<noteq> None} = {i. scene (lc_renderer cl) i \<noteq> None}"
    by (auto split: option.splits)
  ultimately show ?thesis using s'(1)
    by (intro exI [of _ s'] exI [of _ cl'] exI [of _ ids]) simp
qed

theorem tick_reaches_the_screen_witness:
  "\<exists>(s :: (int, nat \<times> nat list) server) s' X r cl'. pushClientTransforms [(3, [5])] s = Inr s' \<and>
    fold_res gl_pushMessage [ClientAddDrawableMsg 3 ''Player''] renderer_init = Inr r \<and>
    frame X 7 \<lparr>fi_messages = messages_to 7 s', fi_closed = False, fi_events = []\<rparr>
      ((client_init 7 :: int client)\<lparr>lc_renderer := r\<rparr>) = Some (Inr cl') \<and>
    scene (lc_renderer cl') 3 = Some \<lparr>d_color = (0, 1, 0), d_matrix = Some [5]\<rparr> \<and> length (lc_frames cl') = 1"
proof -
  let ?s = "(server_init (0, []) :: (int, nat \<times> nat list) server)\<lparr>srv_live := [7], m_lobby_clients := [7]\<rparr>"
  let ?p = "\<lparr>ph_objects = [], ph_characters = [(3, \<lparr>ch_handle = 5, ch_state = 0\<rparr>)], ph_queue = [],
    ph_world = (6, [5])\<rparr> :: (int, nat \<times> nat list) physics"
  let ?fi = "\<lparr>fi_messages = [ClientTransDrawableMsg 3 (Some [5])], fi_closed = False, fi_events = []\<rparr>"
  have s: "clients_live ?s" "server_ok ?s" "separate ?s" "7 \<in> set (everybody ?s)"
    by (auto simp: clients_live_def server_ok_def separate_def everybody_def server_init_def
        map_ok_def set_ok_def map_find_Cons)
  obtain r where r: "fold_res gl_pushMessage [ClientAddDrawableMsg 3 ''Player''] renderer_init = Inr r"
    "renderer_ok r" "scene r = fold scene_step [ClientAddDrawableMsg 3 ''Player''] (\<lambda>_. None)"
    using gl_fold_refines [OF renderer_init_ok(1)] renderer_init_ok(2) by metis
  let ?cl = "(client_init 7 :: int client)\<lparr>lc_renderer := r\<rparr>"
  have ct: "transforms counting_bullet ?p = [(3, [5])]" by (simp add: transforms_def counting_bullet_def)
  have sent: "messages_to 7 ?s = [] \<and> messages_to 7 s' = [ClientTransDrawableMsg 3 (Some [5])]"
    if "pushClientTransforms [(3, [5])] ?s = Inr s'" for s'
    using that pushClientTransforms_live [OF s(1), of "[(3, [5])]"]
    by (auto simp: messages_to_def everybody_def server_init_def)
  have sc: "scene r 3 = Some \<lparr>d_color = (0, 1, 0), d_matrix = None\<rparr>" "\<forall>i. i \<noteq> 3 \<longrightarrow> scene r i = None"
    by (simp_all add: r(3) template_color_def)
  have h: "\<forall>i. map_find i (ph_characters ?p) \<noteq> None \<longrightarrow> scene (lc_renderer ?cl) i \<noteq> None"
    "\<forall>i d. scene (lc_renderer ?cl) i = Some d \<and> d_matrix d = None \<longrightarrow> map_find i (ph_characters ?p) \<noteq> None"
    using sc by (auto simp: map_find_Cons split: if_splits)
  have q: "lc_queue ?cl = []" "renderer_ok (lc_renderer ?cl)" using r(2) by (simp_all add: client_init_def)
  have fi: "\<forall>s'. pushClientTransforms (transforms counting_bullet ?p) ?s = Inr s' \<longrightarrow>
      fi_messages ?fi = drop (length (messages_to 7 ?s)) (messages_to 7 s')"
    using sent by (simp add: ct)
  from tick_reaches_the_screen [OF s q(2,1) h fi, of X] sc ct obtain s' cl' ids where
    "pushClientTransforms [(3, [5])] ?s = Inr s'" "frame X 7 ?fi ?cl = Some (Inr cl')"
    "scene (lc_renderer cl') 3 = Some \<lparr>d_color = (0, 1, 0), d_matrix = Some [5]\<rparr>"
    "lc_frames cl' = lc_frames ?cl @ [GlClear # concat (map (drawn (lc_renderer cl')) ids)]"
    by (force simp: map_find_Cons counting_bullet_def)
  with sent r(1) show ?thesis by (force simp: client_init_def)
qed

end
